(* ===== verification/Slice_Search.thy ===== *)
theory Slice_Search
  imports Prelude
begin

text \<open>
  \<open>slice::binary_search_by_key\<close> of the Rust standard library, the routine
  \<open>verify_chunk_proof\<close> uses to find the transaction that owns a chunk. The contract the
  library documents is the locale \<open>key_search\<close>; \<open>binary_search_by_key\<close> is the
  loop of the library (halving \<open>size\<close>, moving \<open>base\<close>), and the interpretation
  shows that the loop meets the contract.
\<close>

section \<open>The routine\<close>

function bs_loop :: "('a \<Rightarrow> 'k::linorder) \<Rightarrow> 'k \<Rightarrow> 'a list \<Rightarrow> nat \<Rightarrow> nat \<Rightarrow> nat" where
  "bs_loop f x xs base len =
     (if len > 1
      then bs_loop f x xs (if x < f (xs ! (base + len div 2)) then base else base + len div 2)
             (len - len div 2)
      else base)"
  by pat_completeness auto
termination
  by (relation "measure (\<lambda>(f, x, xs, base, len). len)") auto

declare bs_loop.simps [simp del]

text \<open>\<open>Inr i\<close> is \<open>Ok(i)\<close>, \<open>Inl i\<close> is \<open>Err(i)\<close>, the insertion point.\<close>

definition binary_search_by_key :: "('a \<Rightarrow> 'k::linorder) \<Rightarrow> 'k \<Rightarrow> 'a list \<Rightarrow> nat + nat" where
  "binary_search_by_key f x xs =
     (if xs = [] then Inl 0
      else let base = bs_loop f x xs 0 (length xs); k = f (xs ! base)
           in if k = x then Inr base else if k < x then Inl (base + 1) else Inl base)"

definition unwrap_index :: "nat + nat \<Rightarrow> nat" where
  "unwrap_index r = (case r of Inl i \<Rightarrow> i | Inr i \<Rightarrow> i)"

section \<open>The documented contract\<close>

locale key_search =
  fixes search :: "('a \<Rightarrow> 'k::linorder) \<Rightarrow> 'k \<Rightarrow> 'a list \<Rightarrow> nat + nat"
  assumes found: "sorted (map f xs) \<Longrightarrow> search f x xs = Inr i \<Longrightarrow> i < length xs \<and> f (xs ! i) = x"
    and missing: "sorted (map f xs) \<Longrightarrow> search f x xs = Inl i \<Longrightarrow>
      i \<le> length xs \<and> (\<forall>j<i. f (xs ! j) < x) \<and> (\<forall>j. i \<le> j \<longrightarrow> j < length xs \<longrightarrow> x < f (xs ! j))"
begin

text \<open>On strictly ascending keys the index is the least one whose key is not below \<open>x\<close>,
  whether or not the key occurs.\<close>

lemma lower_bound:
  assumes strict: "sorted_wrt (<) (map f xs)" and i: "i = unwrap_index (search f x xs)"
  shows "i \<le> length xs \<and> (\<forall>j<i. f (xs ! j) < x) \<and> (i < length xs \<longrightarrow> x \<le> f (xs ! i))"
proof -
  have sorted: "sorted (map f xs)"
    using strict by (rule sorted_wrt_mono_rel [rotated]) simp
  have below: "f (xs ! j) < f (xs ! k)" if "j < k" "k < length xs" for j k
    using sorted_wrt_nth_less [OF strict, of j k] that by simp
  show ?thesis
  proof (cases "search f x xs")
    case (Inl k)
    with missing [OF sorted Inl] i show ?thesis by (auto simp: unwrap_index_def intro: less_imp_le)
  next
    case (Inr k)
    with found [OF sorted Inr] i below show ?thesis by (auto simp: unwrap_index_def)
  qed
qed

lemma membership:
  assumes "sorted (map f xs)"
  shows "is_ok (search f x xs) \<longleftrightarrow> x \<in> f ` set xs"
proof (cases "search f x xs")
  case (Inr i)
  with found [OF assms Inr] show ?thesis by force
next
  case (Inl i)
  have "f (xs ! j) \<noteq> x" if "j < length xs" for j
    using missing [OF assms Inl] that by (metis less_irrefl not_less)
  then have "x \<notin> f ` set xs" by (metis imageE in_set_conv_nth)
  with Inl show ?thesis by simp
qed

lemma owner:
  assumes "sorted_wrt (<) (map f xs)" and "xs \<noteq> []" and "x \<le> f (last xs)"
  shows "unwrap_index (search f x xs) < length xs"
proof (rule ccontr)
  assume "\<not> unwrap_index (search f x xs) < length xs"
  with lower_bound [OF assms(1) refl, of x] have "\<forall>j<length xs. f (xs ! j) < x" by auto
  then have "f (last xs) < x" using assms(2) by (simp add: last_conv_nth)
  with assms(3) show False by simp
qed

end

section \<open>The loop meets the contract\<close>

lemma bs_loop_inv:
  assumes "sorted (map f xs)" and "1 \<le> len" and "base + len \<le> length xs"
    and "base = 0 \<or> f (xs ! base) \<le> x"
    and "\<forall>j. base + len \<le> j \<longrightarrow> j < length xs \<longrightarrow> x < f (xs ! j)"
  shows "let r = bs_loop f x xs base len in
    r < length xs \<and> (r = 0 \<or> f (xs ! r) \<le> x) \<and> (\<forall>j. r < j \<longrightarrow> j < length xs \<longrightarrow> x < f (xs ! j))"
  using assms
proof (induction f x xs base len rule: bs_loop.induct)
  case (1 f x xs base len)
  show ?case
  proof (cases "len > 1")
    case False
    with 1 show ?thesis by (auto simp: bs_loop.simps [of f x xs base len])
  next
    case True
    let ?mid = "base + len div 2"
    have mid: "?mid < length xs" using True "1.prems" by simp
    have mono: "f (xs ! ?mid) \<le> f (xs ! j)" if "?mid \<le> j" "j < length xs" for j
      using sorted_nth_mono [OF "1.prems"(1), of ?mid j] that by simp
    have "let r = bs_loop f x xs (if x < f (xs ! ?mid) then base else ?mid) (len - len div 2) in
      r < length xs \<and> (r = 0 \<or> f (xs ! r) \<le> x) \<and> (\<forall>j. r < j \<longrightarrow> j < length xs \<longrightarrow> x < f (xs ! j))"
    proof (rule "1.IH" [OF True "1.prems"(1)])
      show "\<forall>j. (if x < f (xs ! ?mid) then base else ?mid) + (len - len div 2) \<le> j \<longrightarrow>
          j < length xs \<longrightarrow> x < f (xs ! j)"
      proof (intro allI impI)
        fix j
        assume j: "(if x < f (xs ! ?mid) then base else ?mid) + (len - len div 2) \<le> j" "j < length xs"
        show "x < f (xs ! j)"
        proof (cases "x < f (xs ! ?mid)")
          case gt: True
          with j have "?mid \<le> j" by (simp split: if_splits)
          with mono j gt show ?thesis by (meson less_le_trans)
        next
          case False
          with j "1.prems"(5) True show ?thesis by simp
        qed
      qed
    qed (use True "1.prems" in \<open>auto split: if_splits\<close>)
    with True show ?thesis by (simp add: bs_loop.simps [of f x xs base len])
  qed
qed

lemma bs_loop_result:
  assumes "sorted (map f xs)" and "xs \<noteq> []" and "r = bs_loop f x xs 0 (length xs)"
  shows "r < length xs \<and> (r = 0 \<or> f (xs ! r) \<le> x) \<and> (\<forall>j. r < j \<longrightarrow> j < length xs \<longrightarrow> x < f (xs ! j))"
  using bs_loop_inv [OF assms(1), of "length xs" 0 x] assms(2,3) by (auto simp: Let_def Suc_le_eq)

lemma sorted_key_mono: "sorted (map f xs) \<Longrightarrow> i \<le> j \<Longrightarrow> j < length xs \<Longrightarrow> f (xs ! i) \<le> f (xs ! j)"
  using sorted_nth_mono [of "map f xs" i j] by simp

interpretation bs: key_search binary_search_by_key
proof
  fix f :: "'a \<Rightarrow> 'b::linorder" and xs x i
  assume s: "sorted (map f xs)"
  show "i < length xs \<and> f (xs ! i) = x" if "binary_search_by_key f x xs = Inr i"
    using that bs_loop_result [OF s _ refl, of x]
    by (auto simp: binary_search_by_key_def Let_def split: if_splits)
  show "i \<le> length xs \<and> (\<forall>j<i. f (xs ! j) < x) \<and> (\<forall>j. i \<le> j \<longrightarrow> j < length xs \<longrightarrow> x < f (xs ! j))"
    if b: "binary_search_by_key f x xs = Inl i"
  proof (cases "xs = []")
    case True
    with b show ?thesis by (simp add: binary_search_by_key_def)
  next
    case False
    let ?r = "bs_loop f x xs 0 (length xs)"
    note r = bs_loop_result [OF s False refl, of x]
    show ?thesis
    proof (cases "f (xs ! ?r) < x")
      case True
      with False b r have i: "i = ?r + 1"
        by (auto simp: binary_search_by_key_def Let_def split: if_splits)
      with r True show ?thesis
        using sorted_key_mono [OF s, of _ ?r] by (auto simp: less_Suc_eq_le intro: le_less_trans)
    next
      case above: False
      with False b r have i: "i = ?r" "?r = 0" "x < f (xs ! ?r)"
        by (auto simp: binary_search_by_key_def Let_def split: if_splits)
      then show ?thesis using r by (metis less_nat_zero_code gr0I le0 zero_less_iff_neq_zero)
    qed
  qed
qed

end
