(* ===== verification/Frame_Interface.thy ===== *)
theory Frame_Interface
  imports Prelude
begin

text \<open>
  What the sources use of the Polkadot SDK and of the crypto and CID crates. Plain data
  (\<open>InvalidTransaction\<close>, \<open>ValidTransaction\<close>, \<open>Weight\<close>) are datatypes and
  records. Functions are fields of the record \<open>host\<close>, a parameter of every definition
  that calls one; what a theorem needs of them is stated as a hypothesis of that theorem, or
  collected in the predicates of this theory, each of which restates documented behaviour.
  Storage items are fields of the state records of the pallets, a \<open>StorageMap\<close> as a
  partial function.
\<close>

section \<open>Data\<close>

type_synonym AccountId = "u8 list"
type_synonym ContentHash = "u8 list"
type_synonym H256 = "u8 list"
type_synonym BlockNumber = u32
type_synonym ChunkIndex = u32
type_synonym Weight = "u64 \<times> u64"

datatype InvalidTransaction =
    ITCall | ITPayment | ITStale | ITBadProof | ITExhaustsResources | ITCustom u8 | ITBadSigner

datatype 'e DispatchError = BadOrigin | Module 'e

record ValidTransaction =
  vt_priority :: u64
  vt_requires :: "u8 list list"
  vt_provides :: "u8 list list"
  vt_longevity :: u64
  vt_propagate :: bool

datatype TransactionSource = InBlock | Local | External

record TransactionStorageProof =
  pr_chunk :: "u8 list"
  pr_proof :: "u8 list list"

type_synonym Multihash = "u64 \<times> u8 list"

text \<open>XCM locations: how many parents up, then the junctions down. Junctions that no filter
  of the runtimes looks into carry their encoding.\<close>

datatype BodyId = Technical | BodyIdOther "u8 list"
datatype BodyPart = Voice | BodyPartOther "u8 list"
datatype Junction = Parachain u32 | Plurality BodyId BodyPart | JunctionOther "u8 list"
type_synonym Location = "u8 \<times> Junction list"

section \<open>Functions of other crates\<close>

record host =
  blake2_256 :: "u8 list \<Rightarrow> H256"
  sha2_256 :: "u8 list \<Rightarrow> H256"
  keccak_256 :: "u8 list \<Rightarrow> H256"
  blake2_256_ordered_root :: "u8 list list \<Rightarrow> H256"
  blake2_256_verify_proof :: "H256 \<Rightarrow> u8 list list \<Rightarrow> u8 list \<Rightarrow> u8 list \<Rightarrow> bool"
  CHUNK_SIZE :: nat
  num_chunks :: "u32 \<Rightarrow> ChunkIndex"
  random_chunk :: "u8 list \<Rightarrow> ChunkIndex \<Rightarrow> ChunkIndex"
  encode_index :: "ChunkIndex \<Rightarrow> u8 list"
  multihash_wrap :: "u64 \<Rightarrow> u8 list \<Rightarrow> Multihash option"
  cid_v1_bytes :: "u64 \<Rightarrow> Multihash \<Rightarrow> u8 list"
  vt_default :: ValidTransaction
  vt_tagged :: "string \<Rightarrow> u8 list \<Rightarrow> ValidTransaction"
  combine_with :: "ValidTransaction \<Rightarrow> ValidTransaction \<Rightarrow> ValidTransaction"

section \<open>Documented behaviour\<close>

text \<open>\<open>sp_transaction_storage_proof::num_chunks\<close>: the number of \<open>CHUNK_SIZE\<close> chunks of
  a blob of the given size. \<open>do_store\<close> asserts in debug builds that it is the number of
  slices \<open>data.chunks(CHUNK_SIZE)\<close> yields.\<close>

definition num_chunks_spec :: "host \<Rightarrow> bool" where
  "num_chunks_spec h \<longleftrightarrow>
     0 < CHUNK_SIZE h \<and> (\<forall>s. unat (num_chunks h s) = div_ceil (unat s) (CHUNK_SIZE h))"

text \<open>\<open>random_chunk\<close> picks an index below the total it is given.\<close>

definition random_chunk_spec :: "host \<Rightarrow> bool" where
  "random_chunk_spec h \<longleftrightarrow> (\<forall>r t. t \<noteq> 0 \<longrightarrow> random_chunk h r t < t)"

text \<open>\<open>Multihash::<32>::wrap\<close> accepts every digest of at most 32 bytes.\<close>

definition multihash_wrap_spec :: "host \<Rightarrow> bool" where
  "multihash_wrap_spec h \<longleftrightarrow> (\<forall>c d. length d \<le> 32 \<longrightarrow> multihash_wrap h c d = Some (c, d))"

text \<open>The three host hash functions return 32 bytes.\<close>

definition hash_len_spec :: "host \<Rightarrow> bool" where
  "hash_len_spec h \<longleftrightarrow>
     (\<forall>d. length (blake2_256 h d) = 32 \<and> length (sha2_256 h d) = 32 \<and> length (keccak_256 h d) = 32)"

text \<open>A binary CIDv1 is the version (1), the codec and the hash code as varints, and the length of
  the digest (one byte) before the digest.\<close>

definition cid_len_spec :: "host \<Rightarrow> bool" where
  "cid_len_spec h \<longleftrightarrow>
     (\<forall>c m d. length d = 32 \<longrightarrow> 36 \<le> length (cid_v1_bytes h c (m, d)) \<and> length (cid_v1_bytes h c (m, d)) \<le> 54)"

text \<open>A tag is the SCALE encoding of the pair of prefix and payload, and a string encodes with
  its length in front, so that a tag determines both; the builder provides that one tag.\<close>

definition tag_spec :: "host \<Rightarrow> bool" where
  "tag_spec h \<longleftrightarrow>
     (\<forall>p x. \<exists>t. vt_provides (vt_tagged h p x) = [t]) \<and>
     (\<forall>p x q y. vt_provides (vt_tagged h p x) = vt_provides (vt_tagged h q y) \<longrightarrow> p = q \<and> x = y)"

lemma num_chunks_pos: "num_chunks_spec h \<Longrightarrow> s \<noteq> 0 \<Longrightarrow> 0 < unat (num_chunks h s)"
  by (auto simp: num_chunks_spec_def unat_gt_0 intro!: div_ceil_pos)

text \<open>A concrete instance, on which every predicate above holds: chunks of two bytes, hashes
  that pad or cut the data to 32 bytes, length-prefixed tags.\<close>

definition byte_of_char :: "char \<Rightarrow> u8" where
  "byte_of_char c = of_nat (of_char c)"

definition demo_host :: host where
  "demo_host = \<lparr>
     blake2_256 = (\<lambda>d. take 28 (d @ replicate 28 0) @ le_bytes 4 (of_nat (length d) :: u32)),
     sha2_256 = (\<lambda>d. take 28 (d @ replicate 28 1) @ le_bytes 4 (of_nat (length d) :: u32)),
     keccak_256 = (\<lambda>d. take 28 (d @ replicate 28 2) @ le_bytes 4 (of_nat (length d) :: u32)),
     blake2_256_ordered_root = (\<lambda>cs. take 32 (concat cs @ replicate 32 0)),
     blake2_256_verify_proof = (\<lambda>root nodes key value. nodes = [root, key] \<and> value \<noteq> []),
     CHUNK_SIZE = 2,
     num_chunks = (\<lambda>s. s div 2 + s mod 2),
     random_chunk = (\<lambda>r t. (case r of [] \<Rightarrow> 0 | b # _ \<Rightarrow> ucast b) mod t),
     encode_index = (\<lambda>i. [ucast i]),
     multihash_wrap = (\<lambda>c d. if length d \<le> 32 then Some (c, d) else None),
     cid_v1_bytes = (\<lambda>c mh. 1 # ucast c # ucast (fst mh) # of_nat (length (snd mh)) # snd mh),
     vt_default = \<lparr>vt_priority = 0, vt_requires = [], vt_provides = [], vt_longevity = - 1,
       vt_propagate = True\<rparr>,
     vt_tagged = (\<lambda>p x. \<lparr>vt_priority = 0, vt_requires = [],
       vt_provides = [replicate (length p) 1 @ 0 # map byte_of_char p @ x], vt_longevity = - 1,
       vt_propagate = True\<rparr>),
     combine_with = (\<lambda>a b. \<lparr>vt_priority = sat_add (vt_priority a) (vt_priority b),
       vt_requires = vt_requires a @ vt_requires b, vt_provides = vt_provides a @ vt_provides b,
       vt_longevity = min (vt_longevity a) (vt_longevity b),
       vt_propagate = (vt_propagate a \<and> vt_propagate b)\<rparr>)\<rparr>"

lemma demo_num_chunks: "num_chunks_spec demo_host"
proof -
  have "unat (s div 2 + s mod 2) = div_ceil (unat s) 2" for s :: u32
  proof -
    have "unat (s div 2) + unat (s mod 2) < 2 ^ 32"
      using unat_u32_less [of s] by (simp add: unat_div unat_mod)
    then have "unat (s div 2 + s mod 2) = unat s div 2 + unat s mod 2"
      by (simp add: unat_word_ariths(1) unat_div unat_mod)
    then show ?thesis by (simp add: div_ceil_def)
  qed
  then show ?thesis by (simp add: num_chunks_spec_def demo_host_def)
qed

lemma demo_random_chunk: "random_chunk_spec demo_host"
  by (simp add: random_chunk_spec_def demo_host_def word_less_nat_alt unat_mod unat_gt_0)

lemma demo_multihash_wrap: "multihash_wrap_spec demo_host"
  by (simp add: multihash_wrap_spec_def demo_host_def)

lemma demo_hash_len: "hash_len_spec demo_host"
  by (simp add: hash_len_spec_def demo_host_def min_def)

lemma demo_cid_len: "cid_len_spec demo_host"
  by (simp add: cid_len_spec_def demo_host_def)

lemma replicate_sep_inj:
  "replicate m a @ b # xs = replicate n a @ b # ys \<Longrightarrow> a \<noteq> b \<Longrightarrow> m = n \<and> xs = ys"
proof (induction m arbitrary: n)
  case 0
  then show ?case by (cases n) auto
next
  case (Suc m)
  then show ?case by (cases n) auto
qed

lemma inj_byte_of_char: "inj byte_of_char"
proof (rule injI)
  fix c d assume "byte_of_char c = byte_of_char d"
  then have "of_char c mod 256 = (of_char d mod 256 :: nat)"
    by (simp add: byte_of_char_def word_eq_unat unsigned_of_nat take_bit_eq_mod)
  then show "c = d" by simp
qed

lemma demo_tag: "tag_spec demo_host"
proof -
  have "p = q \<and> x = y"
    if eq: "replicate (length p) (1 :: u8) @ 0 # map byte_of_char p @ x
        = replicate (length q) 1 @ 0 # map byte_of_char q @ y" for p q :: string and x y
  proof -
    from replicate_sep_inj [OF eq] have len: "length p = length q"
      and rest: "map byte_of_char p @ x = map byte_of_char q @ y" by auto
    from len rest have "map byte_of_char p = map byte_of_char q" "x = y" by auto
    then show ?thesis by (simp add: inj_map_eq_map [OF inj_byte_of_char])
  qed
  then show ?thesis by (auto simp: tag_spec_def demo_host_def)
qed

lemmas demo_host_specs = demo_num_chunks demo_random_chunk demo_multihash_wrap demo_hash_len demo_cid_len demo_tag

end
