(* ===== verification/Cids.thy ===== *)
theory Cids
  imports Frame_Interface
begin

text \<open>
  The CID helpers of \<open>pallets/transaction-storage/primitives/src/cids.rs\<close>: hashing
  algorithms with their multihash codes, \<open>CidData\<close>, its conversion to a CIDv1 and to bytes,
  and \<open>calculate_cid\<close>. The lemmas show when a CID can be built, that building and
  serialising agree, and that the multihash code determines the algorithm.
\<close>

section \<open>Data and operations\<close>

type_synonym Cid = "u8 list"
type_synonym CidCodec = u64

definition RAW_CODEC :: CidCodec where
  "RAW_CODEC = 0x55"

datatype HashingAlgorithm = Blake2b256 | Sha2_256 | Keccak256

fun hash_with :: "host \<Rightarrow> HashingAlgorithm \<Rightarrow> u8 list \<Rightarrow> ContentHash" where
  "hash_with h Blake2b256 data = blake2_256 h data"
| "hash_with h Sha2_256 data = sha2_256 h data"
| "hash_with h Keccak256 data = keccak_256 h data"

fun multihash_code :: "HashingAlgorithm \<Rightarrow> u64" where
  "multihash_code Blake2b256 = 0xb220"
| "multihash_code Sha2_256 = 0x12"
| "multihash_code Keccak256 = 0x1b"

text \<open>The index of an algorithm in its SCALE encoding.\<close>

fun hashing_index :: "HashingAlgorithm \<Rightarrow> u8" where
  "hashing_index Blake2b256 = 0"
| "hashing_index Sha2_256 = 1"
| "hashing_index Keccak256 = 2"

record CidConfig =
  cc_codec :: CidCodec
  cc_hashing :: HashingAlgorithm

datatype CidError = CidError

record CidData =
  cd_content_hash :: ContentHash
  cd_hashing :: HashingAlgorithm
  cd_codec :: CidCodec

text \<open>\<open>TryFrom<CidData> for CidGeneric<32>\<close>; a CIDv1 is the pair of codec and multihash.\<close>

definition cid_try_from :: "host \<Rightarrow> CidData \<Rightarrow> CidError + (CidCodec \<times> Multihash)" where
  "cid_try_from h cd =
     (case multihash_wrap h (multihash_code (cd_hashing cd)) (cd_content_hash cd) of
        None \<Rightarrow> Inl CidError
      | Some mh \<Rightarrow> Inr (cd_codec cd, mh))"

definition cid_data_to_bytes :: "host \<Rightarrow> CidData \<Rightarrow> Cid option" where
  "cid_data_to_bytes h cd =
     (case cid_try_from h cd of Inl _ \<Rightarrow> None | Inr (codec, mh) \<Rightarrow> Some (cid_v1_bytes h codec mh))"

definition calculate_cid :: "host \<Rightarrow> u8 list \<Rightarrow> CidConfig \<Rightarrow> CidError + CidData" where
  "calculate_cid h data config =
     (let cd = \<lparr>cd_content_hash = hash_with h (cc_hashing config) data,
                cd_hashing = cc_hashing config, cd_codec = cc_codec config\<rparr>
      in and_then (cid_try_from h cd) (\<lambda>_. Inr cd))"

section \<open>Properties\<close>

lemma multihash_code_inj: "multihash_code a = multihash_code b \<longleftrightarrow> a = b"
  by (cases a; cases b) simp_all

lemma length_hash_with: "hash_len_spec h \<Longrightarrow> length (hash_with h a d) = 32"
  by (cases a) (simp_all add: hash_len_spec_def)

lemma cid_try_from_ok:
  "multihash_wrap_spec h \<Longrightarrow> length (cd_content_hash cd) \<le> 32 \<Longrightarrow>
   cid_try_from h cd = Inr (cd_codec cd, multihash_code (cd_hashing cd), cd_content_hash cd)"
  by (simp add: cid_try_from_def multihash_wrap_spec_def)

lemma calculate_cid_Inr:
  "calculate_cid h data config = Inr cd \<Longrightarrow>
   cd = \<lparr>cd_content_hash = hash_with h (cc_hashing config) data,
         cd_hashing = cc_hashing config, cd_codec = cc_codec config\<rparr>
   \<and> cid_data_to_bytes h cd \<noteq> None"
  by (auto simp: calculate_cid_def Let_def res_simps cid_data_to_bytes_def split: sum.splits)

lemma calculate_cid_content_hash:
  "calculate_cid h data config = Inr cd \<Longrightarrow> cd_content_hash cd = hash_with h (cc_hashing config) data"
  by (auto dest: calculate_cid_Inr)

lemma calculate_cid_total:
  "multihash_wrap_spec h \<Longrightarrow> hash_len_spec h \<Longrightarrow> \<exists>cd. calculate_cid h data config = Inr cd"
  by (simp add: calculate_cid_def Let_def cid_try_from_ok length_hash_with)

end
