(* ===== verification/Primitives.thy ===== *)
theory Primitives
  imports Frame_Interface
begin

text \<open>
  \<open>pallets/transaction-storage/primitives/src/lib.rs\<close>: the entry kind a runtime with the
  renewal pallet stores beside each entry, the pool parameters of a family of calls with the
  two \<open>ValidTransaction\<close>s built from them, the check that families have distinct tag
  prefixes, and references to stored entries. The lemmas show that the check does what it is
  for: two calls whose families passed it never provide the same pool tag.
\<close>

section \<open>Data and operations\<close>

datatype EntryKind = Store | Renew

definition EntryKind_default :: EntryKind where
  "EntryKind_default = Store"

record ValidTransactionParams =
  vp_tag_prefix :: string
  vp_priority :: u64
  vp_longevity :: u64

definition provides :: "host \<Rightarrow> ValidTransactionParams \<Rightarrow> u8 list \<Rightarrow> ValidTransaction" where
  "provides h p payload =
     (vt_tagged h (vp_tag_prefix p) payload)\<lparr>vt_priority := vp_priority p, vt_longevity := vp_longevity p\<rparr>"

definition untagged :: "host \<Rightarrow> ValidTransactionParams \<Rightarrow> ValidTransaction" where
  "untagged h p = (vt_default h)\<lparr>vt_priority := vp_priority p, vt_longevity := vp_longevity p\<rparr>"

text \<open>\<open>assert_distinct_tag_prefixes\<close>: \<open>False\<close> is the panic. The nested loops compare
  each parameter with the ones after it.\<close>

fun assert_distinct_tag_prefixes :: "(string \<times> ValidTransactionParams) list \<Rightarrow> bool" where
  "assert_distinct_tag_prefixes [] = True"
| "assert_distinct_tag_prefixes ((name, one) # rest) =
     ((\<forall>(other_name, other) \<in> set rest. vp_tag_prefix one \<noteq> vp_tag_prefix other)
      \<and> assert_distinct_tag_prefixes rest)"

datatype TransactionRef = Position BlockNumber u32 | ByContentHash ContentHash

definition ref_from_position :: "BlockNumber \<times> u32 \<Rightarrow> TransactionRef" where
  "ref_from_position p = Position (fst p) (snd p)"

definition ref_from_hash :: "ContentHash \<Rightarrow> TransactionRef" where
  "ref_from_hash h = ByContentHash h"

section \<open>Properties\<close>

lemma assert_distinct_iff:
  "assert_distinct_tag_prefixes ps \<longleftrightarrow> distinct (map (vp_tag_prefix \<circ> snd) ps)"
  by (induction ps rule: assert_distinct_tag_prefixes.induct) (auto simp: image_iff)

lemma provides_tags: "vt_provides (provides h p x) = vt_provides (vt_tagged h (vp_tag_prefix p) x)"
  by (simp add: provides_def)

lemma provides_disjoint:
  assumes tags: "tag_spec h" and neq: "vp_tag_prefix p \<noteq> vp_tag_prefix q"
  shows "set (vt_provides (provides h p x)) \<inter> set (vt_provides (provides h q y)) = {}"
proof -
  obtain t where t: "vt_provides (vt_tagged h (vp_tag_prefix p) x) = [t]"
    using tags by (metis tag_spec_def)
  obtain u where u: "vt_provides (vt_tagged h (vp_tag_prefix q) y) = [u]"
    using tags by (metis tag_spec_def)
  from tags neq t u have "t \<noteq> u" by (metis tag_spec_def)
  with t u show ?thesis by (simp add: provides_tags)
qed

end
