(* ===== verification/Storage_Types.thy ===== *)
theory Storage_Types
  imports Cids Primitives
begin

text \<open>
  \<open>pallets/transaction-storage/src/types.rs\<close>: authorizations and their extents, scopes,
  the caller of a store call, stored entries, the check context, authorizer budgets and the
  origins of the runtime. \<open>'x\<close> is the opaque \<open>AuthorizationExtra\<close> and \<open>'m\<close> the
  opaque \<open>EntryMeta\<close> of the pallet's configuration. The lemmas cover budget consumption,
  the expiry windows and the consumption recorded on an active authorization.
\<close>

section \<open>Authorizations\<close>

record 'x AuthorizationExtent =
  ae_transactions :: u32
  ae_transactions_allowance :: u32
  ae_bytes :: u64
  ae_extra :: 'x
  ae_bytes_allowance :: u64

datatype AuthorizationScope = Account AccountId | Preimage ContentHash

datatype AuthorizedCaller = CallerSigned AccountId AuthorizationScope | CallerRoot | CallerUnsigned

record 'x Authorization =
  au_extent :: "'x AuthorizationExtent"
  au_expiration :: BlockNumber

definition expired :: "'x Authorization \<Rightarrow> BlockNumber \<Rightarrow> bool" where
  "expired a now \<longleftrightarrow> au_expiration a \<le> now"

text \<open>\<open>AccountAuthorization\<close> of the runtime API and the projection into it.\<close>

record AccountAuthorization =
  aa_expires_at :: BlockNumber
  aa_bytes_allowance :: u64
  aa_bytes_used :: u64
  aa_bytes_permanent_used :: u64
  aa_transactions_allowance :: u32
  aa_transactions_used :: u32

definition to_account_authorization :: "'x Authorization \<Rightarrow> u64 \<Rightarrow> AccountAuthorization" where
  "to_account_authorization a bytes_permanent_used =
     \<lparr>aa_expires_at = au_expiration a,
      aa_bytes_allowance = ae_bytes_allowance (au_extent a),
      aa_bytes_used = ae_bytes (au_extent a),
      aa_bytes_permanent_used = bytes_permanent_used,
      aa_transactions_allowance = ae_transactions_allowance (au_extent a),
      aa_transactions_used = ae_transactions (au_extent a)\<rparr>"

text \<open>\<open>ActiveAuthorization\<close>, the view handed to \<open>try_mutate_active_authorization\<close>'s
  closure: the extent to read, the extra to write, one transaction slot to consume.\<close>

definition aa_extent :: "'x Authorization \<Rightarrow> 'x AuthorizationExtent" where
  "aa_extent a = au_extent a"

definition set_extra :: "'x \<Rightarrow> 'x Authorization \<Rightarrow> 'x Authorization" where
  "set_extra x a = a\<lparr>au_extent := (au_extent a)\<lparr>ae_extra := x\<rparr>\<rparr>"

definition note_transaction :: "'x Authorization \<Rightarrow> 'x Authorization" where
  "note_transaction a =
     a\<lparr>au_extent := (au_extent a)\<lparr>ae_transactions := sat_add (ae_transactions (au_extent a)) 1\<rparr>\<rparr>"

section \<open>Stored entries\<close>

record 'm TransactionInfo =
  ti_chunk_root :: H256
  ti_content_hash :: ContentHash
  ti_hashing :: HashingAlgorithm
  ti_cid_codec :: CidCodec
  ti_size :: u32
  ti_extrinsic_index :: u32
  ti_block_chunks :: ChunkIndex
  ti_meta :: 'm

definition total_chunks :: "'m TransactionInfo list \<Rightarrow> ChunkIndex" where
  "total_chunks txs = (if txs = [] then 0 else ti_block_chunks (last txs))"

text \<open>The default \<open>OnObsoleteTransactions\<close> for runtimes without the renewal pallet.\<close>

definition handle_obsolete_unit :: "BlockNumber \<Rightarrow> ('m TransactionInfo \<times> bool) list \<Rightarrow> unit \<Rightarrow> unit" where
  "handle_obsolete_unit obsolete items s = s"

section \<open>Check contexts\<close>

datatype CheckContext = Validate | PreDispatch

fun consume_authorization :: "CheckContext \<Rightarrow> bool" where
  "consume_authorization PreDispatch = True"
| "consume_authorization Validate = False"

fun want_valid_transaction :: "CheckContext \<Rightarrow> bool" where
  "want_valid_transaction Validate = True"
| "want_valid_transaction PreDispatch = False"

section \<open>Authorizer budgets\<close>

record Quota =
  q_transactions :: u32
  q_bytes :: u64

record AuthorizerBudget =
  ab_quota :: "Quota option"
  ab_valid_until :: "BlockNumber option"
  ab_feeless :: bool

definition is_exhausted :: "AuthorizerBudget \<Rightarrow> bool" where
  "is_exhausted b = is_some_and (ab_quota b) (\<lambda>q. q_transactions q = 0 \<or> q_bytes q = 0)"

text \<open>\<open>try_consume\<close>: \<open>None\<close> on underflow of either axis, the new budget otherwise.\<close>

definition try_consume :: "AuthorizerBudget \<Rightarrow> u32 \<Rightarrow> u64 \<Rightarrow> AuthorizerBudget option" where
  "try_consume b transactions bytes =
     (case ab_quota b of
        None \<Rightarrow> Some b
      | Some q \<Rightarrow>
          (case checked_sub (q_transactions q) transactions of
             None \<Rightarrow> None
           | Some new_tx \<Rightarrow>
               (case checked_sub (q_bytes q) bytes of
                  None \<Rightarrow> None
                | Some new_bytes \<Rightarrow>
                    Some (b\<lparr>ab_quota := Some \<lparr>q_transactions = new_tx, q_bytes = new_bytes\<rparr>\<rparr>))))"

definition is_expired :: "AuthorizerBudget \<Rightarrow> BlockNumber \<Rightarrow> bool" where
  "is_expired b now = is_some_and (ab_valid_until b) (\<lambda>t. t \<le> now)"

definition is_inactive :: "AuthorizerBudget \<Rightarrow> BlockNumber \<Rightarrow> bool" where
  "is_inactive b now \<longleftrightarrow> is_exhausted b \<or> is_expired b now"

record AuthorizationOrigin =
  ao_authorizer :: AccountId
  ao_valid_until :: "BlockNumber option"
  ao_feeless :: bool

section \<open>Origins\<close>

text \<open>The callers a runtime origin can carry: the four of \<open>frame_system\<close>, this pallet's
  \<open>Origin::Authorized\<close>, and the XCM location origin of \<open>pallet_xcm\<close>.\<close>

datatype RuntimeOrigin =
    Root | Signed AccountId | NoneOrigin | GeneralAuthorized
  | StorageAuthorized AccountId AuthorizationScope
  | XcmOrigin Location

definition ensure_root :: "RuntimeOrigin \<Rightarrow> 'e DispatchError + unit" where
  "ensure_root orig = ensure (orig = Root) BadOrigin"

definition ensure_none :: "RuntimeOrigin \<Rightarrow> 'e DispatchError + unit" where
  "ensure_none orig = ensure (orig = NoneOrigin) BadOrigin"

text \<open>\<open>EnsureAllowedAuthorizers\<close>: the error carries the origin back, as
  \<open>EnsureOrigin::try_origin\<close> does.\<close>

definition ensure_allowed_authorizers ::
    "(AccountId \<rightharpoonup> AuthorizerBudget) \<Rightarrow> BlockNumber \<Rightarrow> RuntimeOrigin
      \<Rightarrow> RuntimeOrigin + AuthorizationOrigin option" where
  "ensure_allowed_authorizers allowed now orig =
     (case orig of
        Signed who \<Rightarrow>
          (case allowed who of
             Some b \<Rightarrow>
               if \<not> is_expired b now
               then Inr (Some \<lparr>ao_authorizer = who, ao_valid_until = ab_valid_until b,
                               ao_feeless = ab_feeless b\<rparr>)
               else Inl (Signed who)
           | None \<Rightarrow> Inl (Signed who))
      | _ \<Rightarrow> Inl orig)"

text \<open>\<open>AsAuthorizer<E>\<close> lifts another \<open>EnsureOrigin\<close> to an authorizer without budget.\<close>

definition as_authorizer ::
    "(RuntimeOrigin \<Rightarrow> RuntimeOrigin + 'a) \<Rightarrow> RuntimeOrigin
      \<Rightarrow> RuntimeOrigin + AuthorizationOrigin option" where
  "as_authorizer e orig = map_ok (\<lambda>_. None) (e orig)"

section \<open>Properties\<close>

lemma try_consume_unlimited: "ab_quota b = None \<Longrightarrow> try_consume b t n = Some b"
  by (simp add: try_consume_def)

lemma try_consume_Some:
  assumes "try_consume b t n = Some b'" and "ab_quota b = Some q"
  shows "\<exists>q'. b' = b\<lparr>ab_quota := Some q'\<rparr>
    \<and> unat (q_transactions q) = unat (q_transactions q') + unat t
    \<and> unat (q_bytes q) = unat (q_bytes q') + unat n"
  using assms by (auto simp: try_consume_def dest!: checked_sub_Some split: option.splits)

lemma try_consume_None_iff:
  "try_consume b t n = None \<longleftrightarrow>
     (\<exists>q. ab_quota b = Some q \<and> (unat (q_transactions q) < unat t \<or> unat (q_bytes q) < unat n))"
  by (auto simp: try_consume_def word_nat checked_sub_def split: option.splits if_splits)

lemma try_consume_frame:
  "try_consume b t n = Some b' \<Longrightarrow> ab_valid_until b' = ab_valid_until b \<and> ab_feeless b' = ab_feeless b"
  by (auto simp: try_consume_def split: option.splits)

lemma is_expired_mono: "is_expired b now \<Longrightarrow> now \<le> later \<Longrightarrow> is_expired b later"
  by (auto simp: is_expired_def is_some_and_iff)

lemma expired_mono: "expired a now \<Longrightarrow> now \<le> later \<Longrightarrow> expired a later"
  by (simp add: expired_def)

lemma ensure_allowed_authorizers_Inr:
  "ensure_allowed_authorizers allowed now orig = Inr r \<Longrightarrow>
   \<exists>who b. orig = Signed who \<and> allowed who = Some b \<and> \<not> is_expired b now
     \<and> r = Some \<lparr>ao_authorizer = who, ao_valid_until = ab_valid_until b, ao_feeless = ab_feeless b\<rparr>"
  by (auto simp: ensure_allowed_authorizers_def split: RuntimeOrigin.splits option.splits if_splits)

lemma note_transaction_frame [simp]:
  "au_expiration (note_transaction a) = au_expiration a"
  "ae_bytes (au_extent (note_transaction a)) = ae_bytes (au_extent a)"
  "ae_bytes_allowance (au_extent (note_transaction a)) = ae_bytes_allowance (au_extent a)"
  "ae_transactions_allowance (au_extent (note_transaction a)) = ae_transactions_allowance (au_extent a)"
  "ae_extra (au_extent (note_transaction a)) = ae_extra (au_extent a)"
  "ae_transactions (au_extent (note_transaction a)) = sat_add (ae_transactions (au_extent a)) 1"
  by (simp_all add: note_transaction_def)

lemma set_extra_frame [simp]:
  "au_expiration (set_extra x a) = au_expiration a"
  "ae_bytes (au_extent (set_extra x a)) = ae_bytes (au_extent a)"
  "ae_bytes_allowance (au_extent (set_extra x a)) = ae_bytes_allowance (au_extent a)"
  "ae_transactions_allowance (au_extent (set_extra x a)) = ae_transactions_allowance (au_extent a)"
  "ae_extra (au_extent (set_extra x a)) = x"
  "ae_transactions (au_extent (set_extra x a)) = ae_transactions (au_extent a)"
  by (simp_all add: set_extra_def)

lemma total_chunks_simps [simp]:
  "total_chunks [] = 0" "total_chunks (xs @ [x]) = ti_block_chunks x"
  by (simp_all add: total_chunks_def)

end
