(* ===== verification/Storage_State.thy ===== *)
theory Storage_State
  imports Storage_Types
begin

text \<open>
  The state and configuration of the transaction-storage pallet
  (\<open>pallets/transaction-storage/src/lib.rs\<close>) and the operations every other part rests on:
  the accumulator of the current block's entries (\<open>BlockTransactionsMut\<close>), lookups by
  position and by content hash, \<open>do_store\<close> and \<open>seal_block\<close>. Calls into
  \<open>frame_system\<close> and the host that change state outside the pallet (provider reference
  counts, the transaction index) are recorded in order in \<open>host_calls\<close>.
\<close>

section \<open>Constants, errors, events\<close>

definition DEFAULT_RETENTION_PERIOD :: u32 where
  "DEFAULT_RETENTION_PERIOD = 2 * 100800"

definition DEFAULT_MAX_TRANSACTION_SIZE :: u32 where
  "DEFAULT_MAX_TRANSACTION_SIZE = 2 * 1024 * 1024"

definition DEFAULT_MAX_BLOCK_TRANSACTIONS :: u32 where
  "DEFAULT_MAX_BLOCK_TRANSACTIONS = 512"

definition IMPOSSIBLE :: InvalidTransaction where "IMPOSSIBLE = ITCustom 0"

definition BAD_DATA_SIZE :: InvalidTransaction where "BAD_DATA_SIZE = ITCustom 1"

definition AUTHORIZATION_NOT_FOUND :: InvalidTransaction where "AUTHORIZATION_NOT_FOUND = ITCustom 3"

definition AUTHORIZATION_NOT_EXPIRED :: InvalidTransaction where
  "AUTHORIZATION_NOT_EXPIRED = ITCustom 4"

definition AUTHORIZER_NOT_FOUND :: InvalidTransaction where "AUTHORIZER_NOT_FOUND = ITCustom 7"

definition AUTHORIZATION_NOT_EXHAUSTED :: InvalidTransaction where
  "AUTHORIZATION_NOT_EXHAUSTED = ITCustom 8"

datatype Error =
    BadContext | BadDataSize | TooManyTransactions | NotConfigured | RenewedNotFound
  | UnexpectedProof | InvalidProof | MissingProof | MissingStateData | DoubleCheck
  | ProofNotChecked | AuthorizationNotFound | AuthorizationNotExpired | InvalidContentHash
  | AuthorizerNotFound | AuthorizerBudgetNotExhausted | InvalidValidUntil
  | InsufficientAuthorizerBudget

datatype Event =
    EvStored u32 ContentHash "Cid option"
  | EvProofChecked
  | EvAccountAuthorized AccountId u32 u64
  | EvAccountAuthorizationRefreshed AccountId
  | EvPreimageAuthorized ContentHash u64
  | EvPreimageAuthorizationRefreshed ContentHash
  | EvExpiredAccountAuthorizationRemoved AccountId
  | EvExpiredPreimageAuthorizationRemoved ContentHash
  | EvAuthorizerAdded AccountId
  | EvAuthorizerRemoved AccountId
  | EvExhaustedAuthorizerRemoved AccountId

datatype HostCall =
    HcIndex u32 u32 ContentHash
  | HcRenew u32 ContentHash
  | HcIncProviders AccountId
  | HcDecProviders AccountId

section \<open>Stored layouts\<close>

text \<open>A value of the \<open>Transactions\<close> map by the layout its bytes decode as: the current one,
  the v1/v2 layout without \<open>extrinsic_index\<close> and \<open>meta\<close>, the v0 layout without CID
  fields, or none. Reads through the storage map see the current layout only.\<close>

record V2TransactionInfo =
  v2_chunk_root :: H256
  v2_content_hash :: ContentHash
  v2_hashing :: HashingAlgorithm
  v2_cid_codec :: CidCodec
  v2_size :: u32
  v2_block_chunks :: ChunkIndex

record OldTransactionInfo =
  v0_chunk_root :: H256
  v0_content_hash :: ContentHash
  v0_size :: u32
  v0_block_chunks :: ChunkIndex

datatype 'm StoredTxs =
    Current "'m TransactionInfo list"
  | LayoutV2 "V2TransactionInfo list"
  | LayoutV0 "OldTransactionInfo list"
  | Undecodable

section \<open>State and configuration\<close>

record ('m, 'x) ts =
  Authorizations :: "AuthorizationScope \<rightharpoonup> 'x Authorization"
  AllowedAuthorizers :: "AccountId \<rightharpoonup> AuthorizerBudget"
  Transactions :: "BlockNumber \<rightharpoonup> 'm StoredTxs"
  ByteFee :: "nat option"
  EntryFee :: "nat option"
  RetentionPeriod :: BlockNumber
  BlockTransactions :: "'m TransactionInfo list"
  TransactionByContentHash :: "ContentHash \<rightharpoonup> BlockNumber \<times> u32"
  ProofChecked :: bool
  on_chain_storage_version :: nat
  block_number :: BlockNumber
  parent_hash :: H256
  extrinsic_index :: "u32 option"
  events :: "Event list"
  host_calls :: "HostCall list"

record ('m, 'x) config =
  MaxBlockTransactions :: u32
  MaxTransactionSize :: u32
  AuthorizationPeriod :: BlockNumber
  AuthorizerRegistrarOrigin :: "RuntimeOrigin \<Rightarrow> bool"
  Authorizer :: "('m, 'x) ts \<Rightarrow> RuntimeOrigin \<Rightarrow> RuntimeOrigin + AuthorizationOrigin option"
  StoreTxParams :: ValidTransactionParams
  AuthorizeTxParams :: ValidTransactionParams
  RemoveExpiredAccountAuthorizationTxParams :: ValidTransactionParams
  RemoveExpiredPreimageAuthorizationTxParams :: ValidTransactionParams
  RemoveExhaustedAuthorizerTxParams :: ValidTransactionParams
  EntryMeta_default :: 'm
  AuthorizationExtra_default :: 'x
  on_initialize_with_expiry :: "u32 \<Rightarrow> Weight"

definition deposit_event :: "Event \<Rightarrow> ('m, 'x) ts \<Rightarrow> ('m, 'x) ts" where
  "deposit_event e s = s\<lparr>events := events s @ [e]\<rparr>"

definition host_call :: "HostCall \<Rightarrow> ('m, 'x) ts \<Rightarrow> ('m, 'x) ts" where
  "host_call c s = s\<lparr>host_calls := host_calls s @ [c]\<rparr>"

text \<open>\<open>Transactions::get\<close>: a value in another layout does not decode.\<close>

definition tx_get :: "('m, 'x) ts \<Rightarrow> BlockNumber \<Rightarrow> 'm TransactionInfo list option" where
  "tx_get s b = (case Transactions s b of Some (Current txs) \<Rightarrow> Some txs | _ \<Rightarrow> None)"

section \<open>Origins of store calls\<close>

definition ensure_authorized :: "RuntimeOrigin \<Rightarrow> 'e DispatchError + AuthorizedCaller" where
  "ensure_authorized orig =
     (case orig of
        StorageAuthorized who scope \<Rightarrow> Inr (CallerSigned who scope)
      | _ \<Rightarrow>
        if is_ok (ensure_root orig :: 'e DispatchError + unit) then Inr CallerRoot
        else and_then (ensure_none orig) (\<lambda>_. Inr CallerUnsigned))"

section \<open>Lookups\<close>

definition now :: "('m, 'x) ts \<Rightarrow> BlockNumber" where
  "now s = block_number s"

definition retention_period :: "('m, 'x) ts \<Rightarrow> BlockNumber" where
  "retention_period s = RetentionPeriod s"

definition byte_fee :: "('m, 'x) ts \<Rightarrow> nat option" where
  "byte_fee s = ByteFee s"

definition entry_fee :: "('m, 'x) ts \<Rightarrow> nat option" where
  "entry_fee s = EntryFee s"

definition block_transactions_count :: "('m, 'x) ts \<Rightarrow> u32" where
  "block_transactions_count s = of_nat (length (BlockTransactions s))"

definition block_transactions_full :: "('m, 'x) config \<Rightarrow> ('m, 'x) ts \<Rightarrow> bool" where
  "block_transactions_full cfg s \<longleftrightarrow> MaxBlockTransactions cfg \<le> block_transactions_count s"

definition data_size_ok :: "('m, 'x) config \<Rightarrow> nat \<Rightarrow> bool" where
  "data_size_ok cfg n \<longleftrightarrow> 0 < n \<and> n \<le> unat (MaxTransactionSize cfg)"

definition ensure_data_size_ok :: "('m, 'x) config \<Rightarrow> nat \<Rightarrow> Error + unit" where
  "ensure_data_size_ok cfg n = ensure (data_size_ok cfg n) BadDataSize"

definition contains_transaction :: "('m, 'x) ts \<Rightarrow> ContentHash \<Rightarrow> bool" where
  "contains_transaction s content_hash \<longleftrightarrow> TransactionByContentHash s content_hash \<noteq> None"

definition lookup_by_content_hash :: "('m, 'x) ts \<Rightarrow> ContentHash \<Rightarrow> (BlockNumber \<times> u32) option" where
  "lookup_by_content_hash s content_hash = TransactionByContentHash s content_hash"

definition nth_opt :: "'a list \<Rightarrow> nat \<Rightarrow> 'a option" where
  "nth_opt xs i = (if i < length xs then Some (xs ! i) else None)"

definition transaction_info :: "('m, 'x) ts \<Rightarrow> BlockNumber \<Rightarrow> u32 \<Rightarrow> 'm TransactionInfo option" where
  "transaction_info s b index =
     (case tx_get s b of None \<Rightarrow> None | Some txs \<Rightarrow> nth_opt txs (unat index))"

definition resolve_transaction_ref ::
    "('m, 'x) ts \<Rightarrow> TransactionRef \<Rightarrow> Error + 'm TransactionInfo" where
  "resolve_transaction_ref s entry =
     and_then
       (case entry of
          Position b index \<Rightarrow> Inr (b, index)
        | ByContentHash content_hash \<Rightarrow>
            ok_or (TransactionByContentHash s content_hash) RenewedNotFound)
       (\<lambda>(b, index). ok_or (transaction_info s b index) RenewedNotFound)"

definition from_v2 :: "'m \<Rightarrow> V2TransactionInfo \<Rightarrow> 'm TransactionInfo" where
  "from_v2 d tx =
     \<lparr>ti_chunk_root = v2_chunk_root tx, ti_content_hash = v2_content_hash tx,
      ti_hashing = v2_hashing tx, ti_cid_codec = v2_cid_codec tx, ti_size = v2_size tx,
      ti_extrinsic_index = - 1, ti_block_chunks = v2_block_chunks tx, ti_meta = d\<rparr>"

text \<open>\<open>transactions_at\<close> reads raw bytes and falls back to the v2 layout. The decoded vector
  is bounded by \<open>MaxBlockTransactions\<close>, so converting it back cannot fail on length.\<close>

definition transactions_at ::
    "('m, 'x) config \<Rightarrow> ('m, 'x) ts \<Rightarrow> BlockNumber \<Rightarrow> 'm TransactionInfo list option" where
  "transactions_at cfg s b =
     (case Transactions s b of
        None \<Rightarrow> None
      | Some (Current txs) \<Rightarrow> Some txs
      | Some (LayoutV2 v2) \<Rightarrow>
          (if length v2 \<le> unat (MaxBlockTransactions cfg)
           then Some (map (from_v2 (EntryMeta_default cfg)) v2) else None)
      | Some _ \<Rightarrow> None)"

section \<open>The entries of the current block\<close>

text \<open>A \<open>BlockTransactionsMut\<close> is the borrowed vector, held beside the rest of the state
  until the closure of \<open>with_block_transactions\<close> returns.\<close>

type_synonym ('m, 'x) btm = "'m TransactionInfo list \<times> ('m, 'x) ts"

definition btm_push ::
    "('m, 'x) config \<Rightarrow> host \<Rightarrow> 'm TransactionInfo \<Rightarrow> ('m, 'x) btm \<Rightarrow> u32 option \<times> ('m, 'x) btm" where
  "btm_push cfg h entry b =
     (let (entries, s) = b;
          entry' = entry\<lparr>ti_block_chunks := sat_add (total_chunks entries) (num_chunks h (ti_size entry))\<rparr>;
          new_index = of_nat (length entries)
      in case try_push (MaxBlockTransactions cfg) entries entry' of
           None \<Rightarrow> (None, (entries, s))
         | Some entries' \<Rightarrow>
             (Some new_index,
              (entries', s\<lparr>TransactionByContentHash :=
                 (TransactionByContentHash s)(ti_content_hash entry \<mapsto> (now s, new_index))\<rparr>)))"

definition btm_store ::
    "('m, 'x) config \<Rightarrow> host \<Rightarrow> 'm TransactionInfo \<Rightarrow> ('m, 'x) btm \<Rightarrow> u32 option \<times> ('m, 'x) btm" where
  "btm_store cfg h entry b =
     (case btm_push cfg h entry b of
        (None, b') \<Rightarrow> (None, b')
      | (Some new_index, (entries, s)) \<Rightarrow>
          (Some new_index,
           (entries, host_call (HcIndex (ti_extrinsic_index entry) (ti_size entry) (ti_content_hash entry)) s)))"

definition btm_renew ::
    "('m, 'x) config \<Rightarrow> host \<Rightarrow> 'm TransactionInfo \<Rightarrow> u32 \<Rightarrow> 'm \<Rightarrow> ('m, 'x) btm
      \<Rightarrow> u32 option \<times> ('m, 'x) btm" where
  "btm_renew cfg h info ext_index meta b =
     (case btm_push cfg h (info\<lparr>ti_extrinsic_index := ext_index, ti_meta := meta\<rparr>) b of
        (None, b') \<Rightarrow> (None, b')
      | (Some new_index, (entries, s)) \<Rightarrow>
          (Some new_index, (entries, host_call (HcRenew ext_index (ti_content_hash info)) s)))"

definition with_block_transactions ::
    "(('m, 'x) btm \<Rightarrow> 'r \<times> ('m, 'x) btm) \<Rightarrow> ('m, 'x) ts \<Rightarrow> 'r \<times> ('m, 'x) ts" where
  "with_block_transactions f s =
     (let (r, (entries, s')) = f (BlockTransactions s, s) in (r, s'\<lparr>BlockTransactions := entries\<rparr>))"

definition seal_block :: "BlockNumber \<Rightarrow> ('m, 'x) ts \<Rightarrow> ('m, 'x) ts" where
  "seal_block n s =
     (let entries = BlockTransactions s; s' = s\<lparr>BlockTransactions := []\<rparr>
      in if total_chunks entries \<noteq> 0
         then s'\<lparr>Transactions := (Transactions s')(n \<mapsto> Current entries)\<rparr> else s')"

section \<open>Storing\<close>

definition do_store ::
    "('m, 'x) config \<Rightarrow> host \<Rightarrow> u8 list \<Rightarrow> HashingAlgorithm \<Rightarrow> CidCodec \<Rightarrow> ('m, 'x) ts
      \<Rightarrow> Error DispatchError + ('m, 'x) ts" where
  "do_store cfg h data hashing cid_codec s =
     (let data_len = of_nat (length data) :: u32 in
      and_then (map_err Module (ensure_data_size_ok cfg (unat data_len))) (\<lambda>_.
      and_then (map_err (\<lambda>_. Module InvalidContentHash)
                 (calculate_cid h data \<lparr>cc_codec = cid_codec, cc_hashing = hashing\<rparr>)) (\<lambda>cid.
      let root = blake2_256_ordered_root h (chunks (CHUNK_SIZE h) data) in
      and_then (ok_or (extrinsic_index s) (Module BadContext)) (\<lambda>ext.
      let entry = \<lparr>ti_chunk_root = root, ti_content_hash = cd_content_hash cid,
                   ti_hashing = hashing, ti_cid_codec = cid_codec, ti_size = data_len,
                   ti_extrinsic_index = ext, ti_block_chunks = 0,
                   ti_meta = EntryMeta_default cfg\<rparr>;
          (r, s') = with_block_transactions (btm_store cfg h entry) s in
      and_then (ok_or r (Module TooManyTransactions)) (\<lambda>index.
      Inr (deposit_event (EvStored index (cd_content_hash cid) (cid_data_to_bytes h cid)) s'))))))"

section \<open>The block accumulator, characterised\<close>

lemma deposit_event_simps [simp]:
  "Authorizations (deposit_event e s) = Authorizations s"
  "AllowedAuthorizers (deposit_event e s) = AllowedAuthorizers s"
  "Transactions (deposit_event e s) = Transactions s"
  "ByteFee (deposit_event e s) = ByteFee s"
  "EntryFee (deposit_event e s) = EntryFee s"
  "RetentionPeriod (deposit_event e s) = RetentionPeriod s"
  "BlockTransactions (deposit_event e s) = BlockTransactions s"
  "TransactionByContentHash (deposit_event e s) = TransactionByContentHash s"
  "ProofChecked (deposit_event e s) = ProofChecked s"
  "on_chain_storage_version (deposit_event e s) = on_chain_storage_version s"
  "block_number (deposit_event e s) = block_number s"
  "parent_hash (deposit_event e s) = parent_hash s"
  "extrinsic_index (deposit_event e s) = extrinsic_index s"
  "events (deposit_event e s) = events s @ [e]"
  "host_calls (deposit_event e s) = host_calls s"
  by (simp_all add: deposit_event_def)

lemma host_call_simps [simp]:
  "Authorizations (host_call c s) = Authorizations s"
  "AllowedAuthorizers (host_call c s) = AllowedAuthorizers s"
  "Transactions (host_call c s) = Transactions s"
  "ByteFee (host_call c s) = ByteFee s"
  "EntryFee (host_call c s) = EntryFee s"
  "RetentionPeriod (host_call c s) = RetentionPeriod s"
  "BlockTransactions (host_call c s) = BlockTransactions s"
  "TransactionByContentHash (host_call c s) = TransactionByContentHash s"
  "ProofChecked (host_call c s) = ProofChecked s"
  "on_chain_storage_version (host_call c s) = on_chain_storage_version s"
  "block_number (host_call c s) = block_number s"
  "parent_hash (host_call c s) = parent_hash s"
  "extrinsic_index (host_call c s) = extrinsic_index s"
  "events (host_call c s) = events s"
  "host_calls (host_call c s) = host_calls s @ [c]"
  by (simp_all add: host_call_def)

end
