(* ===== verification/Storage_Blocks.thy ===== *)
theory Storage_Blocks
  imports Storage_State
begin

text \<open>
  What appending an entry to the current block does, and the shape of a block's entries. The
  abstract operation is \<open>append_entry\<close>: \<open>btm_store\<close> and \<open>btm_renew\<close> refine it
  whenever the block has room, and are the identity otherwise. \<open>block_ok\<close> is the
  invariant of one block's vector (cumulative chunk counts, admissible sizes, bounded length)
  and the lemmas show it kept by every append and what it gives a reader: the cumulative
  counts are the prefix sums of the entries' chunk counts and never saturate.
\<close>

section \<open>The abstract operation\<close>

definition entry_at :: "host \<Rightarrow> 'm TransactionInfo \<Rightarrow> 'm TransactionInfo list \<Rightarrow> 'm TransactionInfo" where
  "entry_at h e es = e\<lparr>ti_block_chunks := sat_add (total_chunks es) (num_chunks h (ti_size e))\<rparr>"

definition append_entry :: "host \<Rightarrow> 'm TransactionInfo \<Rightarrow> ('m, 'x) ts \<Rightarrow> ('m, 'x) ts" where
  "append_entry h e s =
     s\<lparr>BlockTransactions := BlockTransactions s @ [entry_at h e (BlockTransactions s)],
       TransactionByContentHash :=
         (TransactionByContentHash s)(ti_content_hash e \<mapsto> (now s, of_nat (length (BlockTransactions s))))\<rparr>"

section \<open>The shape of a block's entries\<close>

text \<open>The recurrence \<open>check_transactions_integrity\<close> checks entry by entry.\<close>

fun cumulative :: "host \<Rightarrow> ChunkIndex \<Rightarrow> 'm TransactionInfo list \<Rightarrow> bool" where
  "cumulative h acc [] = True"
| "cumulative h acc (t # ts) =
     (ti_block_chunks t = sat_add acc (num_chunks h (ti_size t)) \<and> cumulative h (ti_block_chunks t) ts)"

definition block_ok :: "('m, 'x) config \<Rightarrow> host \<Rightarrow> 'm TransactionInfo list \<Rightarrow> bool" where
  "block_ok cfg h es \<longleftrightarrow> cumulative h 0 es \<and> length es \<le> unat (MaxBlockTransactions cfg)
     \<and> (\<forall>t\<in>set es. data_size_ok cfg (unat (ti_size t)))"

text \<open>A full block of maximal blobs has fewer than \<open>2 ^ 32\<close> chunks: with the default
  constants and 256-byte chunks, 512 times 8192.\<close>

definition chunks_fit :: "('m, 'x) config \<Rightarrow> host \<Rightarrow> bool" where
  "chunks_fit cfg h \<longleftrightarrow>
     unat (MaxBlockTransactions cfg) * div_ceil (unat (MaxTransactionSize cfg)) (CHUNK_SIZE h) < 2 ^ 32"

definition chunk_count :: "host \<Rightarrow> 'm TransactionInfo \<Rightarrow> nat" where
  "chunk_count h t = unat (num_chunks h (ti_size t))"

section \<open>Appending\<close>

lemma append_entry_simps [simp]:
  "Authorizations (append_entry h e s) = Authorizations s"
  "AllowedAuthorizers (append_entry h e s) = AllowedAuthorizers s"
  "Transactions (append_entry h e s) = Transactions s"
  "RetentionPeriod (append_entry h e s) = RetentionPeriod s"
  "BlockTransactions (append_entry h e s) = BlockTransactions s @ [entry_at h e (BlockTransactions s)]"
  "TransactionByContentHash (append_entry h e s) = (TransactionByContentHash s)
     (ti_content_hash e \<mapsto> (now s, of_nat (length (BlockTransactions s))))"
  "ProofChecked (append_entry h e s) = ProofChecked s"
  "block_number (append_entry h e s) = block_number s"
  "extrinsic_index (append_entry h e s) = extrinsic_index s"
  "events (append_entry h e s) = events s"
  "host_calls (append_entry h e s) = host_calls s"
  by (simp_all add: append_entry_def)

lemma entry_at_simps [simp]:
  "ti_content_hash (entry_at h e es) = ti_content_hash e"
  "ti_size (entry_at h e es) = ti_size e"
  "ti_meta (entry_at h e es) = ti_meta e"
  "ti_chunk_root (entry_at h e es) = ti_chunk_root e"
  "ti_cid_codec (entry_at h e es) = ti_cid_codec e"
  "ti_hashing (entry_at h e es) = ti_hashing e"
  "ti_block_chunks (entry_at h e es) = sat_add (total_chunks es) (num_chunks h (ti_size e))"
  by (simp_all add: entry_at_def)

lemma btm_push_eq:
  "btm_push cfg h e (es, s) =
     (if length es < unat (MaxBlockTransactions cfg)
      then (Some (of_nat (length es)), (es @ [entry_at h e es],
        s\<lparr>TransactionByContentHash :=
           (TransactionByContentHash s)(ti_content_hash e \<mapsto> (now s, of_nat (length es)))\<rparr>))
      else (None, (es, s)))"
  by (simp add: btm_push_def try_push_def Let_def entry_at_def)

lemma append_entry_eq:
  "append_entry h e s = (s\<lparr>TransactionByContentHash := (TransactionByContentHash s)
      (ti_content_hash e \<mapsto> (now s, of_nat (length (BlockTransactions s))))\<rparr>)
    \<lparr>BlockTransactions := BlockTransactions s @ [entry_at h e (BlockTransactions s)]\<rparr>"
  by (simp add: append_entry_def)

lemma with_store_eq:
  "with_block_transactions (btm_store cfg h e) s =
     (if length (BlockTransactions s) < unat (MaxBlockTransactions cfg)
      then (Some (of_nat (length (BlockTransactions s))),
            host_call (HcIndex (ti_extrinsic_index e) (ti_size e) (ti_content_hash e)) (append_entry h e s))
      else (None, s))"
  by (simp add: with_block_transactions_def btm_store_def btm_push_eq append_entry_eq host_call_def)

lemma with_renew_eq:
  "with_block_transactions (btm_renew cfg h info ext m) s =
     (if length (BlockTransactions s) < unat (MaxBlockTransactions cfg)
      then (Some (of_nat (length (BlockTransactions s))),
            host_call (HcRenew ext (ti_content_hash info))
              (append_entry h (info\<lparr>ti_extrinsic_index := ext, ti_meta := m\<rparr>) s))
      else (None, s))"
  by (simp add: with_block_transactions_def btm_renew_def btm_push_eq append_entry_eq host_call_def)

text \<open>The outcome of \<open>do_store\<close> on every path.\<close>

definition stored_entry ::
    "('m, 'x) config \<Rightarrow> host \<Rightarrow> u8 list \<Rightarrow> HashingAlgorithm \<Rightarrow> CidCodec \<Rightarrow> u32 \<Rightarrow> 'm TransactionInfo" where
  "stored_entry cfg h data hashing codec ext =
     \<lparr>ti_chunk_root = blake2_256_ordered_root h (chunks (CHUNK_SIZE h) data),
      ti_content_hash = hash_with h hashing data, ti_hashing = hashing, ti_cid_codec = codec,
      ti_size = of_nat (length data), ti_extrinsic_index = ext, ti_block_chunks = 0,
      ti_meta = EntryMeta_default cfg\<rparr>"

lemma stored_entry_simps [simp]:
  "ti_content_hash (stored_entry cfg h data hashing codec ext) = hash_with h hashing data"
  "ti_size (stored_entry cfg h data hashing codec ext) = of_nat (length data)"
  "ti_extrinsic_index (stored_entry cfg h data hashing codec ext) = ext"
  "ti_meta (stored_entry cfg h data hashing codec ext) = EntryMeta_default cfg"
  by (simp_all add: stored_entry_def)

lemma do_store_Inr:
  assumes "do_store cfg h data hashing codec s = Inr s'"
  shows "\<exists>ext cid. extrinsic_index s = Some ext
     \<and> data_size_ok cfg (unat (of_nat (length data) :: u32))
     \<and> length (BlockTransactions s) < unat (MaxBlockTransactions cfg)
     \<and> s' = deposit_event (EvStored (of_nat (length (BlockTransactions s))) (hash_with h hashing data) cid)
         (host_call (HcIndex ext (of_nat (length data)) (hash_with h hashing data))
           (append_entry h (stored_entry cfg h data hashing codec ext) s))"
  using assms
  by (auto simp: do_store_def Let_def res_simps with_store_eq ensure_data_size_ok_def
      stored_entry_def calculate_cid_content_hash split: if_splits prod.splits
      dest!: calculate_cid_Inr)

lemma do_store_Inl:
  assumes "multihash_wrap_spec h" and "hash_len_spec h"
  shows "do_store cfg h data hashing codec s = Inl e \<longleftrightarrow>
     (if \<not> data_size_ok cfg (unat (of_nat (length data) :: u32)) then e = Module BadDataSize
      else if extrinsic_index s = None then e = Module BadContext
      else unat (MaxBlockTransactions cfg) \<le> length (BlockTransactions s)
        \<and> e = Module TooManyTransactions)"
proof -
  obtain cd where "calculate_cid h data \<lparr>cc_codec = codec, cc_hashing = hashing\<rparr> = Inr cd"
    using calculate_cid_total [OF assms] by blast
  then show ?thesis
    by (cases "extrinsic_index s")
      (auto simp: do_store_def Let_def with_store_eq ensure_data_size_ok_def ensure_def split: if_splits)
qed

section \<open>Prefix sums\<close>

lemma cumulative_append:
  "cumulative h acc (es @ [t]) \<longleftrightarrow> cumulative h acc es
     \<and> ti_block_chunks t = sat_add (if es = [] then acc else ti_block_chunks (last es)) (num_chunks h (ti_size t))"
  by (induction es arbitrary: acc) auto

lemma cumulative_snoc:
  "cumulative h 0 (es @ [entry_at h e es]) \<longleftrightarrow> cumulative h 0 es"
  by (simp add: cumulative_append total_chunks_def)

lemma block_ok_append:
  assumes "block_ok cfg h es" and "length es < unat (MaxBlockTransactions cfg)"
    and "data_size_ok cfg (unat (ti_size e))"
  shows "block_ok cfg h (es @ [entry_at h e es])"
  using assms by (auto simp: block_ok_def cumulative_snoc)

lemma block_ok_Nil [simp]: "block_ok cfg h []"
  by (simp add: block_ok_def)

lemma chunk_count_le:
  assumes "num_chunks_spec h" and "data_size_ok cfg (unat (ti_size t))"
  shows "chunk_count h t \<le> div_ceil (unat (MaxTransactionSize cfg)) (CHUNK_SIZE h)"
    and "0 < chunk_count h t"
proof -
  have mono: "div_ceil a b \<le> div_ceil c b" if "a \<le> c" "0 < b" for a b c
  proof (cases "a mod b = 0")
    case True
    with that show ?thesis by (simp add: div_ceil_def div_le_mono le_SucI)
  next
    case False
    show ?thesis
    proof (cases "a div b = c div b")
      case same: True
      from False have "0 < a mod b" by simp
      moreover have "a = a div b * b + a mod b" "c = c div b * b + c mod b" by simp_all
      ultimately have "c mod b \<noteq> 0" using same that by (metis add_cancel_right_right leD less_add_same_cancel1)
      with same False show ?thesis by (simp add: div_ceil_def)
    next
      case diff: False
      with div_le_mono [OF that(1), of b] have "a div b < c div b" by simp
      then show ?thesis by (simp add: div_ceil_def)
    qed
  qed
  show "chunk_count h t \<le> div_ceil (unat (MaxTransactionSize cfg)) (CHUNK_SIZE h)"
    using assms mono by (auto simp: chunk_count_def num_chunks_spec_def data_size_ok_def)
  show "0 < chunk_count h t"
    using assms(2) unfolding chunk_count_def data_size_ok_def
    by (intro num_chunks_pos [OF assms(1)]) (auto simp: unat_gt_0)
qed

lemma cumulative_sum:
  assumes "cumulative h acc es" and "unat acc + sum_list (map (chunk_count h) es) < 2 ^ 32"
    and "i < length es"
  shows "unat (ti_block_chunks (es ! i)) = unat acc + sum_list (map (chunk_count h) (take (Suc i) es))"
  using assms
proof (induction es arbitrary: acc i)
  case Nil
  then show ?case by simp
next
  case (Cons t es)
  have head: "unat (ti_block_chunks t) = unat acc + chunk_count h t"
    using Cons.prems(1,2) by (simp add: word_nat chunk_count_def)
  show ?case
  proof (cases i)
    case 0
    with head show ?thesis by simp
  next
    case (Suc k)
    have tail: "cumulative h (ti_block_chunks t) es" using Cons.prems(1) unfolding cumulative.simps ..
    have "unat (ti_block_chunks (es ! k))
        = unat (ti_block_chunks t) + sum_list (map (chunk_count h) (take (Suc k) es))"
      by (rule Cons.IH [OF tail]) (use Suc Cons.prems head in simp_all)
    with Suc head show ?thesis by simp
  qed
qed

lemma block_ok_sum_bound:
  assumes "block_ok cfg h es" and "num_chunks_spec h" and "chunks_fit cfg h"
  shows "sum_list (map (chunk_count h) es) < 2 ^ 32"
proof -
  let ?m = "div_ceil (unat (MaxTransactionSize cfg)) (CHUNK_SIZE h)"
  have "sum_list (map (chunk_count h) es) \<le> length es * ?m"
    using sum_list_mono [of es "chunk_count h" "\<lambda>_. ?m"] assms(1) chunk_count_le(1) [OF assms(2)]
    by (fastforce simp: block_ok_def sum_list_triv)
  also have "\<dots> \<le> unat (MaxBlockTransactions cfg) * ?m"
    using assms(1) by (simp add: block_ok_def)
  also have "\<dots> < 2 ^ 32" using assms(3) by (simp add: chunks_fit_def)
  finally show ?thesis .
qed

text \<open>In an admissible block the stored count of an entry is the exact prefix sum.\<close>

lemma block_chunks_sum:
  assumes "block_ok cfg h es" and "num_chunks_spec h" and "chunks_fit cfg h" and "i < length es"
  shows "unat (ti_block_chunks (es ! i)) = sum_list (map (chunk_count h) (take (Suc i) es))"
  using cumulative_sum [of h 0 es i] block_ok_sum_bound [OF assms(1-3)] assms
  by (simp add: block_ok_def)

lemma total_chunks_sum:
  assumes "block_ok cfg h es" and "num_chunks_spec h" and "chunks_fit cfg h"
  shows "unat (total_chunks es) = sum_list (map (chunk_count h) es)"
proof (cases "es = []")
  case False
  then have "last es = es ! (length es - 1)" "take (Suc (length es - 1)) es = es"
    by (simp_all add: last_conv_nth)
  with block_chunks_sum [OF assms, of "length es - 1"] False show ?thesis
    by (simp add: total_chunks_def)
qed simp

lemma total_chunks_pos:
  assumes "block_ok cfg h es" and "num_chunks_spec h" and "chunks_fit cfg h" and "es \<noteq> []"
  shows "total_chunks es \<noteq> 0"
proof -
  have "0 < chunk_count h (hd es)"
    using assms(1,4) by (intro chunk_count_le(2) [OF assms(2), of cfg]) (simp add: block_ok_def)
  moreover have "chunk_count h (hd es) \<le> sum_list (map (chunk_count h) es)"
    using assms(4) by (cases es) simp_all
  ultimately have "0 < unat (total_chunks es)"
    by (simp add: total_chunks_sum [OF assms(1-3)])
  then show ?thesis by auto
qed

lemma block_chunks_strict:
  assumes "block_ok cfg h es" and "num_chunks_spec h" and "chunks_fit cfg h"
    and "i < j" and "j < length es"
  shows "ti_block_chunks (es ! i) < ti_block_chunks (es ! j)"
proof -
  have ej: "es ! j \<in> set es" using assms(5) by simp
  have pos: "0 < chunk_count h (es ! j)"
    using assms(1) ej by (intro chunk_count_le(2) [OF assms(2), of cfg]) (auto simp: block_ok_def)
  have "sum_list (map (chunk_count h) (take (Suc i) es)) \<le> sum_list (map (chunk_count h) (take j es))"
    using assms(4) by (metis Suc_leI le_add1 le_add_diff_inverse map_append sum_list_append take_add)
  also have "\<dots> < sum_list (map (chunk_count h) (take (Suc j) es))"
    using pos assms(5) by (simp add: take_Suc_conv_app_nth)
  finally show ?thesis
    using block_chunks_sum [OF assms(1-3)] assms(4,5) by (simp add: word_less_nat_alt)
qed

end
