(* ===== verification/Storage_Proof.thy ===== *)
theory Storage_Proof
  imports Slice_Search Storage_Blocks
begin

text \<open>
  The storage proof of a block: \<open>verify_chunk_proof\<close>, \<open>do_check_proof\<close> and the
  mandatory inherent \<open>apply_block_inherents\<close>. The challenge picks one chunk of all the
  chunks stored a retention period ago; the lemmas show that the search over the cumulative
  counts finds the entry that owns the chunk, that the two subtractions that follow never
  underflow on an admissible block, and that the verdict is the trie check of that one chunk.
\<close>

section \<open>Operations\<close>

definition verify_chunk_proof ::
    "host \<Rightarrow> TransactionStorageProof \<Rightarrow> u8 list \<Rightarrow> 'm TransactionInfo list \<Rightarrow> Error + unit" where
  "verify_chunk_proof h proof random_hash infos =
     (let total = total_chunks infos in
      and_then (ensure (total \<noteq> 0) UnexpectedProof) (\<lambda>_.
      let selected = random_chunk h random_hash total;
          tx_index = unwrap_index
            (binary_search_by_key (\<lambda>info. sat_sub (ti_block_chunks info) 1) selected infos) in
      and_then (ok_or (nth_opt infos tx_index) MissingStateData) (\<lambda>tx_info.
      and_then (ensure (ti_block_chunks tx_info \<noteq> 0) BadDataSize) (\<lambda>_.
      let tx_chunks = num_chunks h (ti_size tx_info);
          prev_chunks = ti_block_chunks tx_info - tx_chunks;
          tx_chunk_index = selected - prev_chunks in
      ensure (blake2_256_verify_proof h (ti_chunk_root tx_info) (pr_proof proof)
               (encode_index h tx_chunk_index) (pr_chunk proof)) InvalidProof))))"

definition do_check_proof ::
    "('m, 'x) config \<Rightarrow> host \<Rightarrow> TransactionStorageProof \<Rightarrow> ('m, 'x) ts
      \<Rightarrow> Error DispatchError + ('m, 'x) ts" where
  "do_check_proof cfg h proof s =
     and_then (ensure (\<not> ProofChecked s) (Module DoubleCheck)) (\<lambda>_.
     let number = block_number s;
         period = retention_period s;
         target_number = sat_sub number period in
     and_then (ensure (target_number \<noteq> 0) (Module UnexpectedProof)) (\<lambda>_.
     and_then (ok_or (transactions_at cfg s target_number) (Module MissingStateData)) (\<lambda>txs.
     and_then (map_err Module (verify_chunk_proof h proof (parent_hash s) txs)) (\<lambda>_.
     Inr (deposit_event EvProofChecked (s\<lparr>ProofChecked := True\<rparr>))))))"

definition apply_block_inherents ::
    "('m, 'x) config \<Rightarrow> host \<Rightarrow> RuntimeOrigin \<Rightarrow> TransactionStorageProof option \<Rightarrow> ('m, 'x) ts
      \<Rightarrow> Error DispatchError + ('m, 'x) ts" where
  "apply_block_inherents cfg h orig proof s =
     and_then (ensure_none orig) (\<lambda>_.
     case proof of
       Some p \<Rightarrow> do_check_proof cfg h p s
     | None \<Rightarrow> Inr s)"

section \<open>The challenged chunk\<close>

text \<open>The number of chunks stored before entry \<open>i\<close> of a block.\<close>

definition chunks_before :: "host \<Rightarrow> 'm TransactionInfo list \<Rightarrow> nat \<Rightarrow> nat" where
  "chunks_before h infos i = sum_list (map (chunk_count h) (take i infos))"

lemma chunks_before_Suc:
  "i < length infos \<Longrightarrow> chunks_before h infos (Suc i) = chunks_before h infos i + chunk_count h (infos ! i)"
  by (simp add: chunks_before_def take_Suc_conv_app_nth)

definition admissible_block :: "('m, 'x) config \<Rightarrow> host \<Rightarrow> 'm TransactionInfo list \<Rightarrow> bool" where
  "admissible_block cfg h infos \<longleftrightarrow>
     block_ok cfg h infos \<and> infos \<noteq> [] \<and> chunks_fit cfg h \<and> num_chunks_spec h"

lemma admissible_blockD:
  assumes "admissible_block cfg h infos"
  shows "block_ok cfg h infos" "infos \<noteq> []" "chunks_fit cfg h" "num_chunks_spec h"
  using assms by (simp_all add: admissible_block_def)

lemma block_chunks_eq:
  "admissible_block cfg h infos \<Longrightarrow> i < length infos \<Longrightarrow> unat (ti_block_chunks (infos ! i)) = chunks_before h infos (Suc i)"
  unfolding chunks_before_def
  using block_chunks_sum [of cfg h infos i] by (blast dest: admissible_blockD)

lemma count_pos: "admissible_block cfg h infos \<Longrightarrow> i < length infos \<Longrightarrow> 0 < chunk_count h (infos ! i)"
  by (intro chunk_count_le(2) [of h cfg]) (simp_all add: admissible_block_def block_ok_def)

lemma block_chunks_nonzero:
  "admissible_block cfg h infos \<Longrightarrow> i < length infos \<Longrightarrow> 0 < unat (ti_block_chunks (infos ! i))"
  using block_chunks_eq [of cfg h infos i] count_pos [of cfg h infos i] by (simp add: chunks_before_Suc)

lemma keys_strict:
  assumes adm: "admissible_block cfg h infos"
  shows "sorted_wrt (<) (map (\<lambda>info. sat_sub (ti_block_chunks info) 1) infos)"
proof -
  have "sat_sub (ti_block_chunks (infos ! i)) 1 < sat_sub (ti_block_chunks (infos ! j)) 1"
    if "i < j" "j < length infos" for i j
    using block_chunks_strict [OF admissible_blockD(1,4,3) [OF adm] that] block_chunks_nonzero [OF adm, of i] that
    by (simp add: word_nat)
  then show ?thesis by (simp add: sorted_wrt_iff_nth_less)
qed

lemma total_last:
  assumes adm: "admissible_block cfg h infos"
  shows "total_chunks infos = ti_block_chunks (last infos)" "total_chunks infos \<noteq> 0"
  using total_chunks_pos [OF admissible_blockD(1,4,3,2) [OF adm]] admissible_blockD(2) [OF adm]
  by (simp_all add: total_chunks_def)

text \<open>The search returns the entry that owns a chunk index below the total.\<close>

lemma search_owner:
  assumes adm: "admissible_block cfg h infos" and g: "g < total_chunks infos"
    and i: "i = unwrap_index (binary_search_by_key (\<lambda>info. sat_sub (ti_block_chunks info) 1) g infos)"
  shows "i < length infos \<and> chunks_before h infos i \<le> unat g \<and> unat g < chunks_before h infos (Suc i)"
proof -
  let ?key = "\<lambda>info. sat_sub (ti_block_chunks info) (1::u32)"
  have "g \<le> ?key (last infos)"
    using g total_last [OF adm] by (simp add: word_nat)
  then have len: "i < length infos"
    using bs.owner [OF keys_strict [OF adm] admissible_blockD(2) [OF adm]] i by simp
  from bs.lower_bound [OF keys_strict [OF adm] i] len
  have below: "\<forall>j<i. ?key (infos ! j) < g" and above: "g \<le> ?key (infos ! i)" by auto
  have upper: "unat g < chunks_before h infos (Suc i)"
    using above block_chunks_nonzero [OF adm len] block_chunks_eq [OF adm len] by (simp add: word_nat)
  have lower: "chunks_before h infos i \<le> unat g"
  proof (cases i)
    case 0
    then show ?thesis by (simp add: chunks_before_def)
  next
    case (Suc k)
    then have "?key (infos ! k) < g" using below by simp
    with block_chunks_eq [OF adm, of k] Suc len show ?thesis by (simp add: word_nat)
  qed
  from len lower upper show ?thesis by blast
qed

text \<open>The two subtractions of \<open>verify_chunk_proof\<close> are exact.\<close>

lemma local_index:
  assumes adm: "admissible_block cfg h infos" and i: "i < length infos"
    and lo: "chunks_before h infos i \<le> unat g"
    and hi: "unat g < chunks_before h infos (Suc i)"
  shows "unat (g - (ti_block_chunks (infos ! i) - num_chunks h (ti_size (infos ! i))))
      = unat g - chunks_before h infos i"
    and "unat g - chunks_before h infos i < chunk_count h (infos ! i)"
proof -
  let ?t = "infos ! i"
  have total: "unat (ti_block_chunks ?t) = chunks_before h infos i + chunk_count h ?t"
    using block_chunks_eq [OF adm i] i by (simp add: chunks_before_Suc)
  then have "num_chunks h (ti_size ?t) \<le> ti_block_chunks ?t"
    by (simp add: word_nat chunk_count_def)
  then have prev: "unat (ti_block_chunks ?t - num_chunks h (ti_size ?t)) = chunks_before h infos i"
    using total by (simp add: unat_sub chunk_count_def)
  then have "ti_block_chunks ?t - num_chunks h (ti_size ?t) \<le> g"
    using lo by (simp add: word_nat)
  then show "unat (g - (ti_block_chunks ?t - num_chunks h (ti_size ?t))) = unat g - chunks_before h infos i"
    using prev by (simp add: unat_sub)
  show "unat g - chunks_before h infos i < chunk_count h ?t"
    using i lo hi by (simp add: chunks_before_Suc)
qed

lemma verify_owner:
  assumes adm: "admissible_block cfg h infos" and rnd: "random_chunk_spec h"
  shows "\<exists>i j. i < length infos \<and> unat j < chunk_count h (infos ! i)
    \<and> chunks_before h infos i + unat j = unat (random_chunk h r (total_chunks infos))
    \<and> verify_chunk_proof h proof r infos =
        ensure (blake2_256_verify_proof h (ti_chunk_root (infos ! i)) (pr_proof proof)
                 (encode_index h j) (pr_chunk proof)) InvalidProof"
proof -
  let ?g = "random_chunk h r (total_chunks infos)"
  have g: "?g < total_chunks infos"
    using rnd total_last(2) [OF adm] by (simp add: random_chunk_spec_def)
  define i where "i = unwrap_index
    (binary_search_by_key (\<lambda>info. sat_sub (ti_block_chunks info) 1) ?g infos)"
  let ?j = "?g - (ti_block_chunks (infos ! i) - num_chunks h (ti_size (infos ! i)))"
  note own = search_owner [OF adm g i_def]
  note loc = local_index [OF adm, of i ?g]
  have "ti_block_chunks (infos ! i) \<noteq> 0" using block_chunks_nonzero [OF adm, of i] own by auto
  then have "verify_chunk_proof h proof r infos =
      ensure (blake2_256_verify_proof h (ti_chunk_root (infos ! i)) (pr_proof proof)
        (encode_index h ?j) (pr_chunk proof)) InvalidProof"
    using own total_last(2) [OF adm] by (simp add: verify_chunk_proof_def Let_def nth_opt_def flip: i_def)
  with own loc show ?thesis by (intro exI [of _ i] exI [of _ ?j]) simp
qed

lemma do_check_proof_Inr:
  "do_check_proof cfg h proof s = Inr s' \<longleftrightarrow>
     \<not> ProofChecked s \<and> RetentionPeriod s < block_number s
     \<and> (\<exists>txs. transactions_at cfg s (block_number s - RetentionPeriod s) = Some txs
          \<and> verify_chunk_proof h proof (parent_hash s) txs = Inr ())
     \<and> s' = deposit_event EvProofChecked (s\<lparr>ProofChecked := True\<rparr>)"
proof -
  have "sat_sub (block_number s) (RetentionPeriod s) \<noteq> 0 \<longleftrightarrow> RetentionPeriod s < block_number s"
    by (auto simp: word_eq_unat word_nat)
  moreover have "RetentionPeriod s < block_number s \<Longrightarrow>
      sat_sub (block_number s) (RetentionPeriod s) = block_number s - RetentionPeriod s"
    by (auto simp: sat_sub_def)
  ultimately show ?thesis
    by (auto simp: do_check_proof_def Let_def res_simps retention_period_def)
qed

end
