(* ===== verification/Storage_Auth.thy ===== *)
theory Storage_Auth
  imports Storage_Proof
begin

text \<open>
  Authorizations and authorizers of the transaction-storage pallet: granting, refreshing,
  consuming and removing an authorization, the budgets of allowed authorizers, and the
  dispatchables over them, each with its origin check. A storage \<open>mutate\<close> is an update of
  the map; a failing dispatchable returns no state, as FRAME rolls its changes back. The lemmas
  give each operation's effect on every branch and what all of them keep: the balance of
  provider references and the caps of every grant.
\<close>

section \<open>Provider references\<close>

fun authorization_added :: "AuthorizationScope \<Rightarrow> ('m, 'x) ts \<Rightarrow> ('m, 'x) ts" where
  "authorization_added (Account who) s = host_call (HcIncProviders who) s"
| "authorization_added (Preimage _) s = s"

text \<open>A failing \<open>dec_providers\<close> is logged and ignored.\<close>

fun authorization_removed :: "AuthorizationScope \<Rightarrow> ('m, 'x) ts \<Rightarrow> ('m, 'x) ts" where
  "authorization_removed (Account who) s = host_call (HcDecProviders who) s"
| "authorization_removed (Preimage _) s = s"

definition inc_authorizer_providers :: "AccountId \<Rightarrow> ('m, 'x) ts \<Rightarrow> ('m, 'x) ts" where
  "inc_authorizer_providers who s = host_call (HcIncProviders who) s"

definition dec_authorizer_providers :: "AccountId \<Rightarrow> ('m, 'x) ts \<Rightarrow> ('m, 'x) ts" where
  "dec_authorizer_providers who s = host_call (HcDecProviders who) s"

section \<open>Granting\<close>

definition consume_authorizer_budget ::
    "AccountId \<Rightarrow> u32 \<Rightarrow> u64 \<Rightarrow> ('m, 'x) ts \<Rightarrow> Error DispatchError + ('m, 'x) ts" where
  "consume_authorizer_budget who transactions bytes s =
     (case AllowedAuthorizers s who of
        None \<Rightarrow> Inr s
      | Some budget \<Rightarrow>
          and_then (ok_or (try_consume budget transactions bytes) (Module InsufficientAuthorizerBudget))
            (\<lambda>b. Inr (s\<lparr>AllowedAuthorizers := (AllowedAuthorizers s)(who \<mapsto> b)\<rparr>)))"

text \<open>The closure of \<open>authorize\<close>'s \<open>mutate\<close> on an existing entry.\<close>

definition regrant ::
    "'x \<Rightarrow> BlockNumber \<Rightarrow> BlockNumber \<Rightarrow> AuthorizationScope \<Rightarrow> u32 \<Rightarrow> u64 \<Rightarrow> 'x Authorization \<Rightarrow> 'x Authorization" where
  "regrant extra0 n expiration scope txs bytes a =
     (let e = au_extent a in
      if expired a n
      then \<lparr>au_extent = e\<lparr>ae_bytes := 0, ae_transactions := 0, ae_bytes_allowance := bytes,
              ae_transactions_allowance := txs, ae_extra := extra0\<rparr>, au_expiration = expiration\<rparr>
      else case scope of
        Account _ \<Rightarrow> a\<lparr>au_extent := e\<lparr>ae_bytes_allowance := sat_add (ae_bytes_allowance e) bytes,
                     ae_transactions_allowance := sat_add (ae_transactions_allowance e) txs\<rparr>\<rparr>
      | Preimage _ \<Rightarrow> a\<lparr>au_extent := e\<lparr>ae_bytes_allowance := bytes,
                      ae_transactions_allowance := txs\<rparr>\<rparr>)"

definition fresh_extent :: "'x \<Rightarrow> u32 \<Rightarrow> u64 \<Rightarrow> 'x AuthorizationExtent" where
  "fresh_extent extra0 txs bytes =
     \<lparr>ae_transactions = 0, ae_transactions_allowance = txs, ae_bytes = 0, ae_extra = extra0,
      ae_bytes_allowance = bytes\<rparr>"

text \<open>\<open>expiration.min(valid_until)\<close> for an authorizer with a deadline.\<close>

definition clamp :: "AuthorizationOrigin option \<Rightarrow> BlockNumber \<Rightarrow> BlockNumber" where
  "clamp auth e =
     (case auth of
        None \<Rightarrow> e
      | Some ctx \<Rightarrow> (case ao_valid_until ctx of None \<Rightarrow> e | Some vu \<Rightarrow> min e vu))"

definition authorize ::
    "('m, 'x) config \<Rightarrow> AuthorizationScope \<Rightarrow> u32 \<Rightarrow> u64 \<Rightarrow> AuthorizationOrigin option \<Rightarrow> ('m, 'x) ts
      \<Rightarrow> Error DispatchError + ('m, 'x) ts" where
  "authorize cfg scope txs bytes auth s =
     (let n = now s; expiration = clamp auth (sat_add n (AuthorizationPeriod cfg)) in
      and_then
        (case auth of
           None \<Rightarrow> Inr s
         | Some ctx \<Rightarrow> consume_authorizer_budget (ao_authorizer ctx) txs bytes s) (\<lambda>s1.
      case Authorizations s1 scope of
        Some a \<Rightarrow> Inr (s1\<lparr>Authorizations := (Authorizations s1)
                    (scope \<mapsto> regrant (AuthorizationExtra_default cfg) n expiration scope txs bytes a)\<rparr>)
      | None \<Rightarrow> Inr (authorization_added scope (s1\<lparr>Authorizations := (Authorizations s1)
                    (scope \<mapsto> \<lparr>au_extent = fresh_extent (AuthorizationExtra_default cfg) txs bytes,
                               au_expiration = expiration\<rparr>)\<rparr>))))"

definition refresh_authorization ::
    "('m, 'x) config \<Rightarrow> AuthorizationScope \<Rightarrow> AuthorizationOrigin option \<Rightarrow> ('m, 'x) ts
      \<Rightarrow> Error DispatchError + ('m, 'x) ts" where
  "refresh_authorization cfg scope auth s =
     (let expiration = clamp auth (sat_add (now s) (AuthorizationPeriod cfg)) in
      case Authorizations s scope of
        Some a \<Rightarrow> Inr (s\<lparr>Authorizations := (Authorizations s)(scope \<mapsto> a\<lparr>au_expiration := expiration\<rparr>)\<rparr>)
      | None \<Rightarrow> Inl (Module AuthorizationNotFound))"

definition remove_expired_authorization ::
    "AuthorizationScope \<Rightarrow> ('m, 'x) ts \<Rightarrow> Error DispatchError + ('m, 'x) ts" where
  "remove_expired_authorization scope s =
     and_then (ok_or (Authorizations s scope) (Module AuthorizationNotFound)) (\<lambda>a.
     and_then (ensure (expired a (now s)) (Module AuthorizationNotExpired)) (\<lambda>_.
     Inr (authorization_removed scope (s\<lparr>Authorizations := (Authorizations s)(scope := None)\<rparr>))))"

section \<open>Reading\<close>

definition authorization_extent ::
    "('m, 'x) config \<Rightarrow> AuthorizationScope \<Rightarrow> ('m, 'x) ts \<Rightarrow> 'x AuthorizationExtent" where
  "authorization_extent cfg scope s =
     (case Authorizations s scope of
        None \<Rightarrow> fresh_extent (AuthorizationExtra_default cfg) 0 0
      | Some a \<Rightarrow> if expired a (now s) then fresh_extent (AuthorizationExtra_default cfg) 0 0
                  else au_extent a)"

definition account_authorization_extent ::
    "('m, 'x) config \<Rightarrow> AccountId \<Rightarrow> ('m, 'x) ts \<Rightarrow> 'x AuthorizationExtent" where
  "account_authorization_extent cfg who s = authorization_extent cfg (Account who) s"

definition preimage_authorization_extent ::
    "('m, 'x) config \<Rightarrow> ContentHash \<Rightarrow> ('m, 'x) ts \<Rightarrow> 'x AuthorizationExtent" where
  "preimage_authorization_extent cfg hash s = authorization_extent cfg (Preimage hash) s"

definition account_has_active_authorization :: "AccountId \<Rightarrow> ('m, 'x) ts \<Rightarrow> bool" where
  "account_has_active_authorization who s =
     is_some_and (Authorizations s (Account who)) (\<lambda>a. \<not> expired a (now s))"

definition can_store :: "('m, 'x) config \<Rightarrow> AccountId \<Rightarrow> u32 \<Rightarrow> ('m, 'x) ts \<Rightarrow> bool" where
  "can_store cfg who data_len s =
     (if \<not> data_size_ok cfg (unat data_len) then False else account_has_active_authorization who s)"

definition get_active_authorization ::
    "AuthorizationScope \<Rightarrow> ('m, 'x) ts \<Rightarrow> 'x Authorization option" where
  "get_active_authorization scope s =
     (case Authorizations s scope of
        Some a \<Rightarrow> if expired a (now s) then None else Some a
      | None \<Rightarrow> None)"

section \<open>Consuming\<close>

definition consume_extent :: "u32 \<Rightarrow> 'x Authorization \<Rightarrow> 'x Authorization" where
  "consume_extent sz a =
     (let e = au_extent a in
      a\<lparr>au_extent := e\<lparr>ae_bytes := sat_add (ae_bytes e) (u32_to_u64 sz),
                       ae_transactions := sat_add (ae_transactions e) 1\<rparr>\<rparr>)"

definition check_authorization ::
    "AuthorizationScope \<Rightarrow> u32 \<Rightarrow> bool \<Rightarrow> ('m, 'x) ts \<Rightarrow> InvalidTransaction + ('m, 'x) ts" where
  "check_authorization scope sz consume s =
     (case Authorizations s scope of
        None \<Rightarrow> Inl ITPayment
      | Some a \<Rightarrow>
          if expired a (now s) then Inl ITPayment
          else if consume
            then Inr (s\<lparr>Authorizations := (Authorizations s)(scope \<mapsto> consume_extent sz a)\<rparr>)
            else Inr s)"

definition try_mutate_active_authorization ::
    "AuthorizationScope \<Rightarrow> bool \<Rightarrow> ('x Authorization \<Rightarrow> InvalidTransaction + ('r \<times> 'x Authorization))
      \<Rightarrow> ('m, 'x) ts \<Rightarrow> InvalidTransaction + ('r \<times> ('m, 'x) ts)" where
  "try_mutate_active_authorization scope persist f s =
     (case Authorizations s scope of
        None \<Rightarrow> Inl ITPayment
      | Some a \<Rightarrow>
          if expired a (now s) then Inl ITPayment
          else and_then (f a) (\<lambda>(r, a').
            Inr (r, if persist then s\<lparr>Authorizations := (Authorizations s)(scope \<mapsto> a')\<rparr> else s)))"

section \<open>Dispatchables\<close>

definition ensure_authorizer ::
    "('m, 'x) config \<Rightarrow> RuntimeOrigin \<Rightarrow> ('m, 'x) ts \<Rightarrow> Error DispatchError + AuthorizationOrigin option" where
  "ensure_authorizer cfg orig s = map_err (\<lambda>_. BadOrigin) (Authorizer cfg s orig)"

definition authorize_account ::
    "('m, 'x) config \<Rightarrow> RuntimeOrigin \<Rightarrow> AccountId \<Rightarrow> u32 \<Rightarrow> u64 \<Rightarrow> ('m, 'x) ts
      \<Rightarrow> Error DispatchError + ('m, 'x) ts" where
  "authorize_account cfg orig who transactions bytes s =
     and_then (ensure_authorizer cfg orig s) (\<lambda>auth.
     and_then (ensure (0 < bytes) (Module BadDataSize)) (\<lambda>_.
     and_then (authorize cfg (Account who) transactions bytes auth s) (\<lambda>s1.
     Inr (deposit_event (EvAccountAuthorized who transactions bytes) s1))))"

definition authorize_preimage ::
    "('m, 'x) config \<Rightarrow> RuntimeOrigin \<Rightarrow> ContentHash \<Rightarrow> u64 \<Rightarrow> ('m, 'x) ts
      \<Rightarrow> Error DispatchError + ('m, 'x) ts" where
  "authorize_preimage cfg orig content_hash max_size s =
     and_then (ensure_authorizer cfg orig s) (\<lambda>auth.
     and_then (ensure (0 < max_size) (Module BadDataSize)) (\<lambda>_.
     and_then (authorize cfg (Preimage content_hash) 1 max_size auth s) (\<lambda>s1.
     Inr (deposit_event (EvPreimageAuthorized content_hash max_size) s1))))"

definition remove_expired_account_authorization ::
    "RuntimeOrigin \<Rightarrow> AccountId \<Rightarrow> ('m, 'x) ts \<Rightarrow> Error DispatchError + ('m, 'x) ts" where
  "remove_expired_account_authorization orig who s =
     and_then (remove_expired_authorization (Account who) s) (\<lambda>s1.
     Inr (deposit_event (EvExpiredAccountAuthorizationRemoved who) s1))"

definition remove_expired_preimage_authorization ::
    "RuntimeOrigin \<Rightarrow> ContentHash \<Rightarrow> ('m, 'x) ts \<Rightarrow> Error DispatchError + ('m, 'x) ts" where
  "remove_expired_preimage_authorization orig content_hash s =
     and_then (remove_expired_authorization (Preimage content_hash) s) (\<lambda>s1.
     Inr (deposit_event (EvExpiredPreimageAuthorizationRemoved content_hash) s1))"

definition refresh_account_authorization ::
    "('m, 'x) config \<Rightarrow> RuntimeOrigin \<Rightarrow> AccountId \<Rightarrow> ('m, 'x) ts
      \<Rightarrow> Error DispatchError + ('m, 'x) ts" where
  "refresh_account_authorization cfg orig who s =
     and_then (ensure_authorizer cfg orig s) (\<lambda>auth.
     and_then (refresh_authorization cfg (Account who) auth s) (\<lambda>s1.
     Inr (deposit_event (EvAccountAuthorizationRefreshed who) s1)))"

definition refresh_preimage_authorization ::
    "('m, 'x) config \<Rightarrow> RuntimeOrigin \<Rightarrow> ContentHash \<Rightarrow> ('m, 'x) ts
      \<Rightarrow> Error DispatchError + ('m, 'x) ts" where
  "refresh_preimage_authorization cfg orig content_hash s =
     and_then (ensure_authorizer cfg orig s) (\<lambda>auth.
     and_then (refresh_authorization cfg (Preimage content_hash) auth s) (\<lambda>s1.
     Inr (deposit_event (EvPreimageAuthorizationRefreshed content_hash) s1)))"

definition add_authorizer ::
    "('m, 'x) config \<Rightarrow> RuntimeOrigin \<Rightarrow> AccountId \<Rightarrow> AuthorizerBudget \<Rightarrow> ('m, 'x) ts
      \<Rightarrow> Error DispatchError + ('m, 'x) ts" where
  "add_authorizer cfg orig who budget s =
     and_then (ensure (AuthorizerRegistrarOrigin cfg orig) BadOrigin) (\<lambda>_.
     and_then (ensure (\<not> is_expired budget (now s)) (Module InvalidValidUntil)) (\<lambda>_.
     let is_new = (AllowedAuthorizers s who = None);
         s1 = s\<lparr>AllowedAuthorizers := (AllowedAuthorizers s)(who \<mapsto> budget)\<rparr>;
         s2 = (if is_new then inc_authorizer_providers who s1 else s1) in
     Inr (deposit_event (EvAuthorizerAdded who) s2)))"

definition remove_authorizer ::
    "('m, 'x) config \<Rightarrow> RuntimeOrigin \<Rightarrow> AccountId \<Rightarrow> ('m, 'x) ts
      \<Rightarrow> Error DispatchError + ('m, 'x) ts" where
  "remove_authorizer cfg orig who s =
     and_then (ensure (AuthorizerRegistrarOrigin cfg orig) BadOrigin) (\<lambda>_.
     if AllowedAuthorizers s who \<noteq> None
     then Inr (deposit_event (EvAuthorizerRemoved who)
            (dec_authorizer_providers who (s\<lparr>AllowedAuthorizers := (AllowedAuthorizers s)(who := None)\<rparr>)))
     else Inr s)"

definition remove_exhausted_authorizer ::
    "RuntimeOrigin \<Rightarrow> AccountId \<Rightarrow> ('m, 'x) ts \<Rightarrow> Error DispatchError + ('m, 'x) ts" where
  "remove_exhausted_authorizer orig who s =
     and_then (ok_or (AllowedAuthorizers s who) (Module AuthorizerNotFound)) (\<lambda>budget.
     and_then (ensure (is_inactive budget (now s)) (Module AuthorizerBudgetNotExhausted)) (\<lambda>_.
     Inr (deposit_event (EvExhaustedAuthorizerRemoved who)
       (dec_authorizer_providers who (s\<lparr>AllowedAuthorizers := (AllowedAuthorizers s)(who := None)\<rparr>)))))"

definition is_feeless_authorizer :: "('m, 'x) config \<Rightarrow> RuntimeOrigin \<Rightarrow> ('m, 'x) ts \<Rightarrow> bool" where
  "is_feeless_authorizer cfg orig s =
     (case Authorizer cfg s orig of
        Inr (Some ctx) \<Rightarrow>
          if \<not> ao_feeless ctx then False
          else is_some_and (AllowedAuthorizers s (ao_authorizer ctx)) (\<lambda>b. \<not> is_inactive b (now s))
      | _ \<Rightarrow> False)"

section \<open>Effects\<close>

definition charge ::
    "AuthorizationOrigin option \<Rightarrow> u32 \<Rightarrow> u64 \<Rightarrow> ('m, 'x) ts \<Rightarrow> Error DispatchError + ('m, 'x) ts" where
  "charge auth txs bytes s =
     (case auth of
        None \<Rightarrow> Inr s
      | Some ctx \<Rightarrow> consume_authorizer_budget (ao_authorizer ctx) txs bytes s)"

lemma authorize_cases:
  assumes "authorize cfg sc t bytes auth s = Inr s'"
  obtains (fresh) s1 where "charge auth t bytes s = Inr s1" "Authorizations s1 sc = None"
      "s' = authorization_added sc (s1\<lparr>Authorizations := (Authorizations s1)
         (sc \<mapsto> \<lparr>au_extent = fresh_extent (AuthorizationExtra_default cfg) t bytes,
                  au_expiration = clamp auth (sat_add (now s) (AuthorizationPeriod cfg))\<rparr>)\<rparr>)"
    | (again) s1 a where "charge auth t bytes s = Inr s1" "Authorizations s1 sc = Some a"
      "s' = s1\<lparr>Authorizations := (Authorizations s1)
         (sc \<mapsto> regrant (AuthorizationExtra_default cfg) (now s)
            (clamp auth (sat_add (now s) (AuthorizationPeriod cfg))) sc t bytes a)\<rparr>"
proof -
  obtain s1 where s1: "charge auth t bytes s = Inr s1"
    using assms by (auto simp: authorize_def charge_def Let_def res_simps split: option.splits)
  show thesis
    using assms s1 that by (cases "Authorizations s1 sc") (auto simp: authorize_def Let_def charge_def)
qed

lemma charge_frame:
  assumes "charge auth t n s = Inr s1"
  shows "Authorizations s1 = Authorizations s" "block_number s1 = block_number s"
    "host_calls s1 = host_calls s" "events s1 = events s"
    "BlockTransactions s1 = BlockTransactions s" "Transactions s1 = Transactions s"
    "TransactionByContentHash s1 = TransactionByContentHash s"
    "dom (AllowedAuthorizers s1) = dom (AllowedAuthorizers s)"
  using assms
  by (auto simp: charge_def consume_authorizer_budget_def res_simps split: option.splits if_splits)

lemma authorization_added_frame [simp]:
  "Authorizations (authorization_added sc s) = Authorizations s"
  "AllowedAuthorizers (authorization_added sc s) = AllowedAuthorizers s"
  "Transactions (authorization_added sc s) = Transactions s"
  "BlockTransactions (authorization_added sc s) = BlockTransactions s"
  "TransactionByContentHash (authorization_added sc s) = TransactionByContentHash s"
  "RetentionPeriod (authorization_added sc s) = RetentionPeriod s"
  "block_number (authorization_added sc s) = block_number s"
  by (cases sc; simp)+

lemma authorization_removed_frame [simp]:
  "Authorizations (authorization_removed sc s) = Authorizations s"
  "AllowedAuthorizers (authorization_removed sc s) = AllowedAuthorizers s"
  "Transactions (authorization_removed sc s) = Transactions s"
  "BlockTransactions (authorization_removed sc s) = BlockTransactions s"
  "TransactionByContentHash (authorization_removed sc s) = TransactionByContentHash s"
  "RetentionPeriod (authorization_removed sc s) = RetentionPeriod s"
  "block_number (authorization_removed sc s) = block_number s"
  by (cases sc; simp)+

section \<open>The contract every operation keeps\<close>

text \<open>The operations are compositions of nine elementary changes. A predicate that these keep
  (\<open>storage_changes\<close>) is kept by each operation, and by every dispatchable. The entries that
  this pallet itself appends are those of \<open>do_store\<close>; an invariant (\<open>storage_invariant\<close>)
  is also kept when another pallet appends an admissible entry.\<close>

fun provider_call :: "HostCall \<Rightarrow> bool" where
  "provider_call (HcIncProviders _) = True"
| "provider_call (HcDecProviders _) = True"
| "provider_call _ = False"

locale storage_changes =
  fixes I :: "('m, 'x) ts \<Rightarrow> bool" and cfg :: "('m, 'x) config" and h :: host
  assumes event: "I s \<Longrightarrow> I (deposit_event ev s)"
    and proof_mark: "I s \<Longrightarrow> I (s\<lparr>ProofChecked := flag\<rparr>)"
    and store_append: "I s \<Longrightarrow> length (BlockTransactions s) < unat (MaxBlockTransactions cfg) \<Longrightarrow>
      data_size_ok cfg (unat (of_nat (length data) :: u32)) \<Longrightarrow>
      I (host_call (HcIndex ext (of_nat (length data)) (hash_with h hashing data))
        (append_entry h (stored_entry cfg h data hashing codec ext) s))"
    and grant: "I s \<Longrightarrow> Authorizations s sc = None \<Longrightarrow> 0 < ae_bytes_allowance (au_extent a) \<Longrightarrow>
      I (authorization_added sc (s\<lparr>Authorizations := (Authorizations s)(sc \<mapsto> a)\<rparr>))"
    and amend: "I s \<Longrightarrow> Authorizations s sc = Some a \<Longrightarrow>
      0 < ae_bytes_allowance (au_extent a') \<or> ae_bytes_allowance (au_extent a') = ae_bytes_allowance (au_extent a) \<Longrightarrow>
      I (s\<lparr>Authorizations := (Authorizations s)(sc \<mapsto> a')\<rparr>)"
    and revoke: "I s \<Longrightarrow> Authorizations s sc = Some a \<Longrightarrow>
      I (authorization_removed sc (s\<lparr>Authorizations := (Authorizations s)(sc := None)\<rparr>))"
    and rebudget: "I s \<Longrightarrow> AllowedAuthorizers s who = Some b \<Longrightarrow>
      I (s\<lparr>AllowedAuthorizers := (AllowedAuthorizers s)(who \<mapsto> b')\<rparr>)"
    and enlist: "I s \<Longrightarrow> AllowedAuthorizers s who = None \<Longrightarrow>
      I (inc_authorizer_providers who (s\<lparr>AllowedAuthorizers := (AllowedAuthorizers s)(who \<mapsto> b)\<rparr>))"
    and delist: "I s \<Longrightarrow> AllowedAuthorizers s who = Some b \<Longrightarrow>
      I (dec_authorizer_providers who (s\<lparr>AllowedAuthorizers := (AllowedAuthorizers s)(who := None)\<rparr>))"
begin

lemma charge_keeps: "I s \<Longrightarrow> charge auth t n s = Inr s' \<Longrightarrow> I s'"
  by (auto simp: charge_def consume_authorizer_budget_def res_simps rebudget split: option.splits)

lemma regrant_allowance:
  "0 < bytes \<Longrightarrow> 0 < ae_bytes_allowance (au_extent (regrant x0 n e sc t bytes a))"
  using sat_add_ge_left [of bytes "ae_bytes_allowance (au_extent a)"]
  by (auto simp: regrant_def Let_def word_nat split: AuthorizationScope.splits)

lemma authorize_keeps:
  assumes "I s" and "0 < bytes" and "authorize cfg sc t bytes auth s = Inr s'"
  shows "I s'"
  using assms(3)
proof (cases rule: authorize_cases)
  case (fresh s1)
  from fresh(3) show ?thesis
    using grant [OF charge_keeps [OF assms(1) fresh(1)] fresh(2)] assms(2) by (simp add: fresh_extent_def)
next
  case (again s1 a)
  show ?thesis unfolding again(3)
    by (rule amend [OF charge_keeps [OF assms(1) again(1)] again(2)])
      (rule disjI1, rule regrant_allowance [OF assms(2)])
qed

lemma refresh_keeps: "I s \<Longrightarrow> refresh_authorization cfg sc auth s = Inr s' \<Longrightarrow> I s'"
  by (auto simp: refresh_authorization_def Let_def intro!: amend split: option.splits)

lemma remove_expired_keeps: "I s \<Longrightarrow> remove_expired_authorization sc s = Inr s' \<Longrightarrow> I s'"
  by (auto simp: remove_expired_authorization_def res_simps intro!: revoke)

lemma check_authorization_keeps: "I s \<Longrightarrow> check_authorization sc n c s = Inr s' \<Longrightarrow> I s'"
  by (auto simp: check_authorization_def consume_extent_def Let_def intro!: amend
      split: option.splits if_splits)

lemma do_store_keeps:
  assumes "I s" and "do_store cfg h data hashing codec s = Inr s'"
  shows "I s'"
  using do_store_Inr [OF assms(2)] assms(1) by (auto intro!: event store_append)

lemma do_check_proof_keeps: "I s \<Longrightarrow> do_check_proof cfg h p s = Inr s' \<Longrightarrow> I s'"
  by (auto simp: do_check_proof_def Let_def res_simps intro!: event proof_mark)

lemma apply_block_inherents_keeps: "I s \<Longrightarrow> apply_block_inherents cfg h orig p s = Inr s' \<Longrightarrow> I s'"
  by (auto simp: apply_block_inherents_def res_simps do_check_proof_keeps split: option.splits)

lemma authorize_account_keeps: "I s \<Longrightarrow> authorize_account cfg orig who t n s = Inr s' \<Longrightarrow> I s'"
  using authorize_keeps by (auto simp: authorize_account_def res_simps intro!: event)

lemma authorize_preimage_keeps: "I s \<Longrightarrow> authorize_preimage cfg orig hash n s = Inr s' \<Longrightarrow> I s'"
  using authorize_keeps by (auto simp: authorize_preimage_def res_simps intro!: event)

lemma remove_expired_account_keeps:
  "I s \<Longrightarrow> remove_expired_account_authorization orig who s = Inr s' \<Longrightarrow> I s'"
  using remove_expired_keeps
  by (auto simp: remove_expired_account_authorization_def res_simps intro!: event)

lemma remove_expired_preimage_keeps:
  "I s \<Longrightarrow> remove_expired_preimage_authorization orig hash s = Inr s' \<Longrightarrow> I s'"
  using remove_expired_keeps
  by (auto simp: remove_expired_preimage_authorization_def res_simps intro!: event)

lemma refresh_account_keeps: "I s \<Longrightarrow> refresh_account_authorization cfg orig who s = Inr s' \<Longrightarrow> I s'"
  using refresh_keeps by (auto simp: refresh_account_authorization_def res_simps intro!: event)

lemma refresh_preimage_keeps: "I s \<Longrightarrow> refresh_preimage_authorization cfg orig hash s = Inr s' \<Longrightarrow> I s'"
  using refresh_keeps by (auto simp: refresh_preimage_authorization_def res_simps intro!: event)

lemma add_authorizer_keeps: "I s \<Longrightarrow> add_authorizer cfg orig who b s = Inr s' \<Longrightarrow> I s'"
  by (cases "AllowedAuthorizers s who")
    (auto simp: add_authorizer_def Let_def res_simps intro!: event enlist rebudget)

lemma remove_authorizer_keeps: "I s \<Longrightarrow> remove_authorizer cfg orig who s = Inr s' \<Longrightarrow> I s'"
  by (auto simp: remove_authorizer_def res_simps intro!: event delist split: if_splits)

lemma remove_exhausted_keeps: "I s \<Longrightarrow> remove_exhausted_authorizer orig who s = Inr s' \<Longrightarrow> I s'"
  by (auto simp: remove_exhausted_authorizer_def res_simps intro!: event delist)

lemmas dispatchable_keeps = do_store_keeps apply_block_inherents_keeps authorize_account_keeps
  authorize_preimage_keeps remove_expired_account_keeps remove_expired_preimage_keeps
  refresh_account_keeps refresh_preimage_keeps add_authorizer_keeps remove_authorizer_keeps
  remove_exhausted_keeps

end

locale storage_invariant = storage_changes I cfg h
  for I :: "('m, 'x) ts \<Rightarrow> bool" and cfg :: "('m, 'x) config" and h :: host +
  assumes append: "I s \<Longrightarrow> length (BlockTransactions s) < unat (MaxBlockTransactions cfg) \<Longrightarrow>
    data_size_ok cfg (unat (ti_size e)) \<Longrightarrow> \<not> provider_call c \<Longrightarrow> I (host_call c (append_entry h e s))"

section \<open>Three invariants\<close>

text \<open>The pallet holds one provider reference for an account per entry that names it: one for
  its authorization, one for its place among the allowed authorizers.\<close>

definition entries_of :: "AccountId \<Rightarrow> ('m, 'x) ts \<Rightarrow> nat" where
  "entries_of who s = (if Authorizations s (Account who) \<noteq> None then 1 else 0)
     + (if AllowedAuthorizers s who \<noteq> None then 1 else 0)"

definition providers_balanced :: "('m, 'x) ts \<Rightarrow> bool" where
  "providers_balanced s \<longleftrightarrow> (\<forall>who. count_list (host_calls s) (HcIncProviders who)
     = count_list (host_calls s) (HcDecProviders who) + entries_of who s)"

definition caps_ok :: "('m, 'x) ts \<Rightarrow> bool" where
  "caps_ok s \<longleftrightarrow> (\<forall>sc a. Authorizations s sc = Some a \<longrightarrow> 0 < ae_bytes_allowance (au_extent a))"

definition current_block_ok :: "('m, 'x) config \<Rightarrow> host \<Rightarrow> ('m, 'x) ts \<Rightarrow> bool" where
  "current_block_ok cfg h s \<longleftrightarrow> block_ok cfg h (BlockTransactions s)"

lemmas provider_op_defs = inc_authorizer_providers_def dec_authorizer_providers_def

interpretation prov: storage_invariant providers_balanced cfg h for cfg :: "('m, 'x) config" and h
proof
  fix s :: "('m, 'x) ts" and sc and a :: "'x Authorization"
  assume "providers_balanced s" "Authorizations s sc = None"
  then show "providers_balanced (authorization_added sc (s\<lparr>Authorizations := (Authorizations s)(sc \<mapsto> a)\<rparr>))"
    by (cases sc) (auto simp: providers_balanced_def entries_of_def)
next
  fix s :: "('m, 'x) ts" and sc and a :: "'x Authorization"
  assume "providers_balanced s" "Authorizations s sc = Some a"
  then show "providers_balanced (authorization_removed sc (s\<lparr>Authorizations := (Authorizations s)(sc := None)\<rparr>))"
    by (cases sc) (auto simp: providers_balanced_def entries_of_def)
next
  fix s :: "('m, 'x) ts" and c e
  assume "providers_balanced s" "\<not> provider_call c"
  then show "providers_balanced (host_call c (append_entry h e s))"
    by (cases c) (auto simp: providers_balanced_def entries_of_def)
next
  fix s :: "('m, 'x) ts" and who b
  assume "providers_balanced s" "AllowedAuthorizers s who = None"
  then show "providers_balanced (inc_authorizer_providers who
      (s\<lparr>AllowedAuthorizers := (AllowedAuthorizers s)(who \<mapsto> b)\<rparr>))"
    by (auto simp: providers_balanced_def entries_of_def provider_op_defs)
next
  fix s :: "('m, 'x) ts" and who b
  assume "providers_balanced s" "AllowedAuthorizers s who = Some b"
  then show "providers_balanced (dec_authorizer_providers who
      (s\<lparr>AllowedAuthorizers := (AllowedAuthorizers s)(who := None)\<rparr>))"
    by (auto simp: providers_balanced_def entries_of_def provider_op_defs)
qed (auto simp: providers_balanced_def entries_of_def)

interpretation caps: storage_invariant caps_ok cfg h for cfg :: "('m, 'x) config" and h
  by unfold_locales (auto simp: caps_ok_def provider_op_defs split: if_splits)

interpretation cur: storage_invariant "current_block_ok cfg h" cfg h for cfg :: "('m, 'x) config" and h
  by unfold_locales (auto simp: current_block_ok_def block_ok_append provider_op_defs)

end
