(* ===== verification/Storage_Calls.thy ===== *)
theory Storage_Calls
  imports Storage_Auth
begin

text \<open>
  The calls of the transaction-storage pallet, their dispatch, and their validation: unsigned
  (\<open>ValidateUnsigned\<close>), signed (\<open>check_signed\<close>, used by the transaction extension) and
  the mandatory inherent. A check in the \<open>PreDispatch\<close> context consumes authorization, so
  checks return the state. The lemmas relate the two contexts to each other and to dispatch,
  and lift the predicates of \<open>storage_changes\<close> to whole calls.
\<close>

section \<open>Calls and dispatch\<close>

datatype Call =
    Call_store "u8 list"
  | Call_store_with_cid_config CidConfig "u8 list"
  | Call_authorize_account AccountId u32 u64
  | Call_authorize_preimage ContentHash u64
  | Call_remove_expired_account_authorization AccountId
  | Call_remove_expired_preimage_authorization ContentHash
  | Call_refresh_account_authorization AccountId
  | Call_refresh_preimage_authorization ContentHash
  | Call_apply_block_inherents "TransactionStorageProof option"
  | Call_add_authorizer AccountId AuthorizerBudget
  | Call_remove_authorizer AccountId
  | Call_remove_exhausted_authorizer AccountId

definition store ::
    "('m, 'x) config \<Rightarrow> host \<Rightarrow> RuntimeOrigin \<Rightarrow> u8 list \<Rightarrow> ('m, 'x) ts
      \<Rightarrow> Error DispatchError + ('m, 'x) ts" where
  "store cfg h orig data s =
     and_then (ensure_authorized orig) (\<lambda>_. do_store cfg h data Blake2b256 RAW_CODEC s)"

definition store_with_cid_config ::
    "('m, 'x) config \<Rightarrow> host \<Rightarrow> RuntimeOrigin \<Rightarrow> CidConfig \<Rightarrow> u8 list \<Rightarrow> ('m, 'x) ts
      \<Rightarrow> Error DispatchError + ('m, 'x) ts" where
  "store_with_cid_config cfg h orig cid data s =
     and_then (ensure_authorized orig) (\<lambda>_. do_store cfg h data (cc_hashing cid) (cc_codec cid) s)"

fun dispatch ::
    "('m, 'x) config \<Rightarrow> host \<Rightarrow> RuntimeOrigin \<Rightarrow> Call \<Rightarrow> ('m, 'x) ts
      \<Rightarrow> Error DispatchError + ('m, 'x) ts" where
  "dispatch cfg h orig (Call_store data) s = store cfg h orig data s"
| "dispatch cfg h orig (Call_store_with_cid_config cid data) s = store_with_cid_config cfg h orig cid data s"
| "dispatch cfg h orig (Call_authorize_account who t n) s = authorize_account cfg orig who t n s"
| "dispatch cfg h orig (Call_authorize_preimage hash n) s = authorize_preimage cfg orig hash n s"
| "dispatch cfg h orig (Call_remove_expired_account_authorization who) s =
     remove_expired_account_authorization orig who s"
| "dispatch cfg h orig (Call_remove_expired_preimage_authorization hash) s =
     remove_expired_preimage_authorization orig hash s"
| "dispatch cfg h orig (Call_refresh_account_authorization who) s =
     refresh_account_authorization cfg orig who s"
| "dispatch cfg h orig (Call_refresh_preimage_authorization hash) s =
     refresh_preimage_authorization cfg orig hash s"
| "dispatch cfg h orig (Call_apply_block_inherents p) s = apply_block_inherents cfg h orig p s"
| "dispatch cfg h orig (Call_add_authorizer who b) s = add_authorizer cfg orig who b s"
| "dispatch cfg h orig (Call_remove_authorizer who) s = remove_authorizer cfg orig who s"
| "dispatch cfg h orig (Call_remove_exhausted_authorizer who) s = remove_exhausted_authorizer orig who s"

text \<open>The \<open>feeless_if\<close> attributes of the calls.\<close>

fun feeless_if :: "('m, 'x) config \<Rightarrow> RuntimeOrigin \<Rightarrow> Call \<Rightarrow> ('m, 'x) ts \<Rightarrow> bool" where
  "feeless_if cfg orig (Call_store _) s = True"
| "feeless_if cfg orig (Call_store_with_cid_config _ _) s = True"
| "feeless_if cfg orig (Call_authorize_account _ _ _) s = is_feeless_authorizer cfg orig s"
| "feeless_if cfg orig (Call_refresh_account_authorization _) s = is_feeless_authorizer cfg orig s"
| "feeless_if cfg orig _ s = False"

section \<open>The inherent\<close>

text \<open>\<open>get_data\<close> of the inherent data: a decoding error, no entry, or the proof.\<close>

definition create_inherent :: "'e + TransactionStorageProof option \<Rightarrow> Call option" where
  "create_inherent data =
     (case (case data of Inl _ \<Rightarrow> None | Inr p \<Rightarrow> p) of
        None \<Rightarrow> None
      | Some proof \<Rightarrow> Some (Call_apply_block_inherents (Some proof)))"

fun is_inherent :: "Call \<Rightarrow> bool" where
  "is_inherent (Call_apply_block_inherents _) = True"
| "is_inherent _ = False"

section \<open>Validation\<close>

definition check_authorization_expired ::
    "AuthorizationScope \<Rightarrow> ('m, 'x) ts \<Rightarrow> InvalidTransaction + unit" where
  "check_authorization_expired scope s =
     (case Authorizations s scope of
        None \<Rightarrow> Inl AUTHORIZATION_NOT_FOUND
      | Some a \<Rightarrow> if \<not> expired a (now s) then Inl AUTHORIZATION_NOT_EXPIRED else Inr ())"

text \<open>\<open>bool::then\<close>.\<close>

definition bool_then :: "bool \<Rightarrow> 'a \<Rightarrow> 'a option" where
  "bool_then b x = (if b then Some x else None)"

definition check_store_unsigned ::
    "('m, 'x) config \<Rightarrow> host \<Rightarrow> nat \<Rightarrow> ContentHash \<Rightarrow> CheckContext \<Rightarrow> ('m, 'x) ts
      \<Rightarrow> InvalidTransaction + (ValidTransaction option \<times> ('m, 'x) ts)" where
  "check_store_unsigned cfg h sz content_hash ctx s =
     (if \<not> data_size_ok cfg sz then Inl BAD_DATA_SIZE
      else if block_transactions_full cfg s then Inl ITExhaustsResources
      else and_then (check_authorization (Preimage content_hash) (of_nat sz) (consume_authorization ctx) s)
        (\<lambda>s1. Inr (bool_then (want_valid_transaction ctx) (provides h (StoreTxParams cfg) content_hash), s1)))"

fun check_unsigned ::
    "('m, 'x) config \<Rightarrow> host \<Rightarrow> Call \<Rightarrow> CheckContext \<Rightarrow> ('m, 'x) ts
      \<Rightarrow> InvalidTransaction + (ValidTransaction option \<times> ('m, 'x) ts)" where
  "check_unsigned cfg h (Call_store data) ctx s =
     check_store_unsigned cfg h (length data) (blake2_256 h data) ctx s"
| "check_unsigned cfg h (Call_store_with_cid_config cid data) ctx s =
     check_store_unsigned cfg h (length data) (hash_with h (cc_hashing cid) data) ctx s"
| "check_unsigned cfg h (Call_remove_expired_account_authorization who) ctx s =
     and_then (check_authorization_expired (Account who) s) (\<lambda>_.
     Inr (bool_then (want_valid_transaction ctx)
       (provides h (RemoveExpiredAccountAuthorizationTxParams cfg) who), s))"
| "check_unsigned cfg h (Call_remove_expired_preimage_authorization content_hash) ctx s =
     and_then (check_authorization_expired (Preimage content_hash) s) (\<lambda>_.
     Inr (bool_then (want_valid_transaction ctx)
       (provides h (RemoveExpiredPreimageAuthorizationTxParams cfg) content_hash), s))"
| "check_unsigned cfg h (Call_remove_exhausted_authorizer who) ctx s =
     and_then (ok_or (AllowedAuthorizers s who) AUTHORIZER_NOT_FOUND) (\<lambda>budget.
     and_then (ensure (is_inactive budget (now s)) AUTHORIZATION_NOT_EXHAUSTED) (\<lambda>_.
     Inr (bool_then (want_valid_transaction ctx)
       (provides h (RemoveExhaustedAuthorizerTxParams cfg) who), s)))"
| "check_unsigned cfg h (Call_apply_block_inherents _) ctx s = Inr (None, s)"
| "check_unsigned cfg h _ ctx s = Inl ITCall"

text \<open>The tail of \<open>check_signed\<close>, reached by the two store calls.\<close>

definition check_signed_store ::
    "('m, 'x) config \<Rightarrow> host \<Rightarrow> AccountId \<Rightarrow> nat \<Rightarrow> ContentHash \<Rightarrow> CheckContext \<Rightarrow> ('m, 'x) ts
      \<Rightarrow> InvalidTransaction + ((ValidTransaction option \<times> AuthorizationScope option) \<times> ('m, 'x) ts)" where
  "check_signed_store cfg h who sz content_hash ctx s =
     (if \<not> data_size_ok cfg sz then Inl BAD_DATA_SIZE
      else if block_transactions_full cfg s then Inl ITExhaustsResources
      else
        let consume = consume_authorization ctx;
            preimage = check_authorization (Preimage content_hash) (of_nat sz) consume s;
            used_preimage_auth = is_ok preimage in
        and_then
          (if used_preimage_auth then preimage
           else check_authorization (Account who) (of_nat sz) consume s) (\<lambda>s1.
        Inr (if want_valid_transaction ctx
             then if used_preimage_auth
               then (Some (provides h (StoreTxParams cfg) content_hash), Some (Preimage content_hash))
               else (Some (provides h (StoreTxParams cfg) (who @ content_hash)), Some (Account who))
             else (None, None), s1)))"

definition check_authorizer ::
    "('m, 'x) config \<Rightarrow> host \<Rightarrow> AccountId \<Rightarrow> CheckContext \<Rightarrow> ('m, 'x) ts
      \<Rightarrow> InvalidTransaction + ((ValidTransaction option \<times> AuthorizationScope option) \<times> ('m, 'x) ts)" where
  "check_authorizer cfg h who ctx s =
     and_then (map_err (\<lambda>_. ITBadSigner) (Authorizer cfg s (Signed who))) (\<lambda>_.
     Inr ((bool_then (want_valid_transaction ctx) (untagged h (AuthorizeTxParams cfg)), None), s))"

fun check_signed ::
    "('m, 'x) config \<Rightarrow> host \<Rightarrow> AccountId \<Rightarrow> Call \<Rightarrow> CheckContext \<Rightarrow> ('m, 'x) ts
      \<Rightarrow> InvalidTransaction + ((ValidTransaction option \<times> AuthorizationScope option) \<times> ('m, 'x) ts)" where
  "check_signed cfg h who (Call_store data) ctx s =
     check_signed_store cfg h who (length data) (blake2_256 h data) ctx s"
| "check_signed cfg h who (Call_store_with_cid_config cid data) ctx s =
     check_signed_store cfg h who (length data) (hash_with h (cc_hashing cid) data) ctx s"
| "check_signed cfg h who (Call_add_authorizer _ _) ctx s =
     Inr ((bool_then (want_valid_transaction ctx) (vt_default h), None), s)"
| "check_signed cfg h who (Call_remove_authorizer _) ctx s =
     Inr ((bool_then (want_valid_transaction ctx) (vt_default h), None), s)"
| "check_signed cfg h who (Call_authorize_account _ _ _) ctx s = check_authorizer cfg h who ctx s"
| "check_signed cfg h who (Call_authorize_preimage _ _) ctx s = check_authorizer cfg h who ctx s"
| "check_signed cfg h who (Call_refresh_account_authorization _) ctx s = check_authorizer cfg h who ctx s"
| "check_signed cfg h who (Call_refresh_preimage_authorization _) ctx s = check_authorizer cfg h who ctx s"
| "check_signed cfg h who _ ctx s = Inl ITCall"

definition validate_signed ::
    "('m, 'x) config \<Rightarrow> host \<Rightarrow> AccountId \<Rightarrow> Call \<Rightarrow> ('m, 'x) ts
      \<Rightarrow> InvalidTransaction + (ValidTransaction \<times> AuthorizationScope option)" where
  "validate_signed cfg h who call s =
     and_then (check_signed cfg h who call Validate s) (\<lambda>((valid_tx, scope), _).
     and_then (ok_or valid_tx IMPOSSIBLE) (\<lambda>v. Inr (v, scope)))"

definition pre_dispatch_signed ::
    "('m, 'x) config \<Rightarrow> host \<Rightarrow> AccountId \<Rightarrow> Call \<Rightarrow> ('m, 'x) ts \<Rightarrow> InvalidTransaction + ('m, 'x) ts" where
  "pre_dispatch_signed cfg h who call s = map_ok snd (check_signed cfg h who call PreDispatch s)"

definition validate_unsigned ::
    "('m, 'x) config \<Rightarrow> host \<Rightarrow> TransactionSource \<Rightarrow> Call \<Rightarrow> ('m, 'x) ts
      \<Rightarrow> InvalidTransaction + ValidTransaction" where
  "validate_unsigned cfg h source call s =
     (if is_inherent call then Inr (vt_default h)
      else and_then (check_unsigned cfg h call Validate s) (\<lambda>(v, _). ok_or v IMPOSSIBLE))"

definition pre_dispatch ::
    "('m, 'x) config \<Rightarrow> host \<Rightarrow> Call \<Rightarrow> ('m, 'x) ts \<Rightarrow> InvalidTransaction + ('m, 'x) ts" where
  "pre_dispatch cfg h call s =
     (if is_inherent call then Inr s
      else map_ok snd (check_unsigned cfg h call PreDispatch s))"

section \<open>Checks\<close>

lemma check_authorization_active:
  "check_authorization sc n c s =
     (case get_active_authorization sc s of
        None \<Rightarrow> Inl ITPayment
      | Some a \<Rightarrow> Inr (if c then s\<lparr>Authorizations := (Authorizations s)(sc \<mapsto> consume_extent n a)\<rparr> else s))"
  by (simp add: check_authorization_def get_active_authorization_def split: option.split)

lemma active_account_iff:
  "account_has_active_authorization who s \<longleftrightarrow> get_active_authorization (Account who) s \<noteq> None"
  by (simp add: account_has_active_authorization_def get_active_authorization_def split: option.split)

lemma check_context_cases:
  "want_valid_transaction ctx = (\<not> consume_authorization ctx)"
  by (cases ctx) simp_all

lemma bool_then_simps [simp]: "bool_then True x = Some x" "bool_then False x = None"
  by (simp_all add: bool_then_def)

text \<open>The scope a signed store consumes: the preimage authorization when one is active, the
  signer's otherwise.\<close>

definition store_scope :: "AccountId \<Rightarrow> ContentHash \<Rightarrow> ('m, 'x) ts \<Rightarrow> AuthorizationScope" where
  "store_scope who hash s =
     (if get_active_authorization (Preimage hash) s \<noteq> None then Preimage hash else Account who)"

lemma check_signed_store_eq:
  "check_signed_store cfg h who sz hash ctx s =
     (if \<not> data_size_ok cfg sz then Inl BAD_DATA_SIZE
      else if block_transactions_full cfg s then Inl ITExhaustsResources
      else case get_active_authorization (store_scope who hash s) s of
        None \<Rightarrow> Inl ITPayment
      | Some a \<Rightarrow> Inr (case ctx of
          Validate \<Rightarrow> ((Some (provides h (StoreTxParams cfg)
             (case store_scope who hash s of Preimage _ \<Rightarrow> hash | Account _ \<Rightarrow> who @ hash)),
             Some (store_scope who hash s)), s)
        | PreDispatch \<Rightarrow> ((None, None), s\<lparr>Authorizations := (Authorizations s)
             (store_scope who hash s \<mapsto> consume_extent (of_nat sz) a)\<rparr>)))"
  by (cases ctx)
    (auto simp: check_signed_store_def check_authorization_active store_scope_def Let_def
      split: option.splits)

lemma check_signed_contexts:
  "map_ok (\<lambda>_. ()) (check_signed cfg h who call Validate s)
     = map_ok (\<lambda>_. ()) (check_signed cfg h who call PreDispatch s)"
  by (cases call) (auto simp: check_signed_store_eq check_authorizer_def split: option.splits
      intro: sum.exhaust [of "Authorizer cfg s (Signed who)"])

lemma check_unsigned_contexts:
  "map_ok (\<lambda>_. ()) (check_unsigned cfg h call Validate s)
     = map_ok (\<lambda>_. ()) (check_unsigned cfg h call PreDispatch s)"
  by (cases call) (auto simp: check_store_unsigned_def check_authorization_active
      check_authorization_expired_def ok_or_def ensure_def split: option.splits)

lemma check_signed_Validate:
  assumes "check_signed cfg h who call Validate s = Inr r"
  obtains v scope where "r = ((Some v, scope), s)"
  using assms
  by (cases call) (auto simp: check_signed_store_eq check_authorizer_def res_simps
      split: option.splits if_splits)

lemma check_unsigned_Validate:
  assumes "check_unsigned cfg h call Validate s = Inr r" and "\<not> is_inherent call"
  obtains v where "r = (Some v, s)"
  using assms
  by (cases call) (auto simp: check_store_unsigned_def check_authorization_active res_simps
      split: option.splits if_splits)

context storage_changes
begin

lemma check_signed_keeps: "I s \<Longrightarrow> check_signed cfg h who call ctx s = Inr (r, s') \<Longrightarrow> I s'"
  by (cases call) (auto simp: check_signed_store_def check_authorizer_def Let_def res_simps
      intro: check_authorization_keeps split: if_splits)

lemma check_unsigned_keeps: "I s \<Longrightarrow> check_unsigned cfg h call ctx s = Inr (r, s') \<Longrightarrow> I s'"
  by (cases call) (auto simp: check_store_unsigned_def res_simps
      intro: check_authorization_keeps split: if_splits)

lemma pre_dispatch_signed_keeps: "I s \<Longrightarrow> pre_dispatch_signed cfg h who call s = Inr s' \<Longrightarrow> I s'"
  by (auto simp: pre_dispatch_signed_def res_simps intro: check_signed_keeps)

lemma pre_dispatch_keeps: "I s \<Longrightarrow> pre_dispatch cfg h call s = Inr s' \<Longrightarrow> I s'"
  by (auto simp: pre_dispatch_def res_simps intro: check_unsigned_keeps split: if_splits)

lemma dispatch_keeps: "I s \<Longrightarrow> dispatch cfg h orig call s = Inr s' \<Longrightarrow> I s'"
  by (cases call) (auto simp: store_def store_with_cid_config_def res_simps dest: dispatchable_keeps)

end

end
