(* ===== verification/Storage_Hooks.thy ===== *)
theory Storage_Hooks
  imports Storage_Calls
begin

text \<open>
  The per-block hooks of the transaction-storage pallet, its genesis, its integrity test and
  its try-state checks. \<open>on_initialize\<close> sweeps the block that has left the retention
  window and hands its entries to the consumer wired as \<open>OnObsoleteTransactions\<close>;
  the consumer is a parameter here, acting on a state of its own. \<open>on_finalize\<close> panics
  when a required proof is missing, which is \<open>Inl\<close>, and seals the block otherwise.
\<close>

section \<open>The sweep\<close>

fun sweep ::
    "u32 \<Rightarrow> BlockNumber \<Rightarrow> 'm TransactionInfo list \<Rightarrow> ('m TransactionInfo \<times> bool) list
      \<Rightarrow> (ContentHash \<rightharpoonup> BlockNumber \<times> u32)
      \<Rightarrow> ('m TransactionInfo \<times> bool) list \<times> (ContentHash \<rightharpoonup> BlockNumber \<times> u32)" where
  "sweep bound obsolete [] pairs index = (pairs, index)"
| "sweep bound obsolete (tx # txs) pairs index =
     (let hash = ti_content_hash tx;
          is_latest = is_some_and (index hash) (\<lambda>(block, _). block = obsolete);
          index' = (if is_latest then index(hash := None) else index);
          pairs' = (case try_push bound pairs (tx, is_latest) of None \<Rightarrow> pairs | Some ps \<Rightarrow> ps)
      in sweep bound obsolete txs pairs' index')"

definition obsolete_block :: "('m, 'x) ts \<Rightarrow> BlockNumber \<Rightarrow> BlockNumber" where
  "obsolete_block s n = sat_sub n (sat_add (retention_period s) 1)"

definition on_initialize ::
    "('m, 'x) config \<Rightarrow> (BlockNumber \<Rightarrow> ('m TransactionInfo \<times> bool) list \<Rightarrow> 'r \<Rightarrow> 'r) \<Rightarrow> BlockNumber
      \<Rightarrow> ('m, 'x) ts \<times> 'r \<Rightarrow> Weight \<times> ('m, 'x) ts \<times> 'r" where
  "on_initialize cfg handle_obsolete n sr =
     (let (s, r) = sr; obsolete = obsolete_block s n in
      case (if 0 < obsolete then tx_get s obsolete else None) of
        None \<Rightarrow> (on_initialize_with_expiry cfg 0, s, r)
      | Some transactions \<Rightarrow>
          let s1 = s\<lparr>Transactions := (Transactions s)(obsolete := None)\<rparr>;
              (pairs, index) = sweep (MaxBlockTransactions cfg) obsolete transactions []
                                 (TransactionByContentHash s1);
              s2 = s1\<lparr>TransactionByContentHash := index\<rparr>
          in (on_initialize_with_expiry cfg (of_nat (length transactions)), s2,
              handle_obsolete obsolete pairs r))"

definition on_finalize :: "BlockNumber \<Rightarrow> ('m, 'x) ts \<Rightarrow> string + ('m, 'x) ts" where
  "on_finalize n s =
     (let s1 = s\<lparr>ProofChecked := False\<rparr>;
          target_number = sat_sub n (retention_period s1);
          proof_ok = (ProofChecked s \<or> target_number = 0 \<or> Transactions s1 target_number = None)
      in and_then (ensure proof_ok ''Storage proof must be checked once in the block'')
           (\<lambda>_. Inr (seal_block n s1)))"

section \<open>Genesis\<close>

record GenesisConfig =
  gc_byte_fee :: nat
  gc_entry_fee :: nat
  gc_retention_period :: BlockNumber
  gc_allowed_authorizers :: "(AccountId \<times> u32 \<times> u64) list"
  gc_account_authorizations :: "(AccountId \<times> u32 \<times> u64) list"
  gc_preimage_authorizations :: "(ContentHash \<times> u64) list"

definition GenesisConfig_default :: GenesisConfig where
  "GenesisConfig_default = \<lparr>gc_byte_fee = 10, gc_entry_fee = 1000,
     gc_retention_period = DEFAULT_RETENTION_PERIOD, gc_allowed_authorizers = [],
     gc_account_authorizations = [], gc_preimage_authorizations = []\<rparr>"

definition genesis_account ::
    "('m, 'x) config \<Rightarrow> AccountId \<times> u32 \<times> u64 \<Rightarrow> ('m, 'x) ts \<Rightarrow> ('m, 'x) ts" where
  "genesis_account cfg g s =
     (let (who, txs, bytes) = g in
      authorization_added (Account who) (s\<lparr>Authorizations := (Authorizations s)
        (Account who \<mapsto> \<lparr>au_extent = fresh_extent (AuthorizationExtra_default cfg) txs bytes,
                         au_expiration = AuthorizationPeriod cfg\<rparr>)\<rparr>))"

definition genesis_preimage ::
    "('m, 'x) config \<Rightarrow> ContentHash \<times> u64 \<Rightarrow> ('m, 'x) ts \<Rightarrow> ('m, 'x) ts" where
  "genesis_preimage cfg g s =
     (let (hash, max_size) = g in
      s\<lparr>Authorizations := (Authorizations s)
        (Preimage hash \<mapsto> \<lparr>au_extent = fresh_extent (AuthorizationExtra_default cfg) 1 max_size,
                           au_expiration = AuthorizationPeriod cfg\<rparr>)\<rparr>)"

definition genesis_authorizer :: "AccountId \<times> u32 \<times> u64 \<Rightarrow> ('m, 'x) ts \<Rightarrow> ('m, 'x) ts" where
  "genesis_authorizer g s =
     (let (account, txs, bytes) = g;
          is_new = (AllowedAuthorizers s account = None);
          s1 = s\<lparr>AllowedAuthorizers := (AllowedAuthorizers s)
            (account \<mapsto> \<lparr>ab_quota = Some \<lparr>q_transactions = txs, q_bytes = bytes\<rparr>,
                         ab_valid_until = None, ab_feeless = True\<rparr>)\<rparr>
      in if is_new then inc_authorizer_providers account s1 else s1)"

definition genesis_build :: "('m, 'x) config \<Rightarrow> GenesisConfig \<Rightarrow> ('m, 'x) ts \<Rightarrow> ('m, 'x) ts" where
  "genesis_build cfg g s =
     fold genesis_authorizer (gc_allowed_authorizers g)
      (fold (genesis_preimage cfg) (gc_preimage_authorizations g)
       (fold (genesis_account cfg) (gc_account_authorizations g)
        (s\<lparr>ByteFee := Some (gc_byte_fee g), EntryFee := Some (gc_entry_fee g),
           RetentionPeriod := gc_retention_period g\<rparr>)))"

text \<open>Storage before genesis: every map empty, every value at its default.\<close>

definition empty_ts :: "('m, 'x) ts" where
  "empty_ts = \<lparr>Authorizations = (\<lambda>_. None), AllowedAuthorizers = (\<lambda>_. None),
     Transactions = (\<lambda>_. None), ByteFee = None, EntryFee = None, RetentionPeriod = 0,
     BlockTransactions = [], TransactionByContentHash = (\<lambda>_. None), ProofChecked = False,
     on_chain_storage_version = 0, block_number = 0, parent_hash = [], extrinsic_index = None,
     events = [], host_calls = []\<rparr>"

section \<open>Integrity test and try-state\<close>

definition pool_families :: "('m, 'x) config \<Rightarrow> (string \<times> ValidTransactionParams) list" where
  "pool_families cfg =
     [(''StoreTxParams'', StoreTxParams cfg),
      (''AuthorizeTxParams'', AuthorizeTxParams cfg),
      (''RemoveExpiredAccountAuthorizationTxParams'', RemoveExpiredAccountAuthorizationTxParams cfg),
      (''RemoveExpiredPreimageAuthorizationTxParams'', RemoveExpiredPreimageAuthorizationTxParams cfg),
      (''RemoveExhaustedAuthorizerTxParams'', RemoveExhaustedAuthorizerTxParams cfg)]"

definition assert_pool_families_distinct ::
    "('m, 'x) config \<Rightarrow> (string \<times> ValidTransactionParams) list \<Rightarrow> bool" where
  "assert_pool_families_distinct cfg extra = assert_distinct_tag_prefixes (extra @ pool_families cfg)"

definition integrity_test :: "('m, 'x) config \<Rightarrow> bool" where
  "integrity_test cfg \<longleftrightarrow>
     MaxBlockTransactions cfg \<noteq> 0 \<and> MaxTransactionSize cfg \<noteq> 0
     \<and> gc_retention_period GenesisConfig_default = DEFAULT_RETENTION_PERIOD
     \<and> AuthorizationPeriod cfg \<noteq> 0
     \<and> assert_pool_families_distinct cfg []"

text \<open>The inner loop of \<open>check_transactions_integrity\<close>, with the running count.\<close>

fun check_entries :: "host \<Rightarrow> ChunkIndex \<Rightarrow> 'm TransactionInfo list \<Rightarrow> ChunkIndex option" where
  "check_entries h acc [] = Some acc"
| "check_entries h acc (tx # txs) =
     (let acc' = sat_add acc (num_chunks h (ti_size tx))
      in if ti_block_chunks tx = acc' then check_entries h acc' txs else None)"

definition check_transactions_integrity :: "host \<Rightarrow> ('m, 'x) ts \<Rightarrow> bool" where
  "check_transactions_integrity h s \<longleftrightarrow>
     (\<forall>block txs. tx_get s block = Some txs \<longrightarrow> check_entries h 0 txs = Some (total_chunks txs))"

definition check_no_stale_transactions :: "BlockNumber \<Rightarrow> ('m, 'x) ts \<Rightarrow> bool" where
  "check_no_stale_transactions n s \<longleftrightarrow>
     (let oldest_valid = sat_sub n (retention_period s) in
      \<forall>block. tx_get s block \<noteq> None \<longrightarrow> oldest_valid \<le> block \<and> block \<le> n)"

definition check_authorizations_integrity :: "('m, 'x) ts \<Rightarrow> bool" where
  "check_authorizations_integrity s \<longleftrightarrow>
     (\<forall>scope a. Authorizations s scope = Some a \<longrightarrow> 0 < ae_bytes_allowance (au_extent a))"

definition do_try_state :: "host \<Rightarrow> BlockNumber \<Rightarrow> ('m, 'x) ts \<Rightarrow> bool" where
  "do_try_state h n s \<longleftrightarrow>
     retention_period s \<noteq> 0 \<and> check_transactions_integrity h s
     \<and> check_no_stale_transactions n s \<and> check_authorizations_integrity s"

end
