(* ===== verification/Storage_Invariant.thy ===== *)
theory Storage_Invariant
  imports Storage_Hooks
begin

text \<open>
  The invariant of the transaction-storage pallet between and within blocks. Every stored block
  is admissible and inside the retention window; \<open>TransactionByContentHash\<close> points at an
  entry with that hash, and every entry in storage is covered by a pointer at least as recent.
  The lemmas show that the sweep of \<open>on_initialize\<close> restores the window without breaking
  the index, that \<open>on_finalize\<close> loses no entry, that every elementary change keeps the
  invariant (an interpretation of \<open>storage_invariant\<close>), and that it implies the checks of
  \<open>do_try_state\<close>.
\<close>

section \<open>The sweep, characterised\<close>

definition points_at :: "(ContentHash \<rightharpoonup> BlockNumber \<times> u32) \<Rightarrow> ContentHash \<Rightarrow> BlockNumber \<Rightarrow> bool" where
  "points_at index c b \<longleftrightarrow> (\<exists>i. index c = Some (b, i))"

lemma sweep_index:
  "snd (sweep bound b txs pairs index) =
     (\<lambda>c. if c \<in> ti_content_hash ` set txs \<and> points_at index c b then None else index c)"
proof (induction txs arbitrary: pairs index)
  case Nil
  then show ?case by simp
next
  case (Cons tx txs)
  then show ?case
    by (auto simp: Let_def points_at_def is_some_and_iff fun_eq_iff)
qed

text \<open>The first entry of each hash that the index places in the swept block is the latest.\<close>

fun flag_latest ::
    "BlockNumber \<Rightarrow> 'm TransactionInfo list \<Rightarrow> (ContentHash \<rightharpoonup> BlockNumber \<times> u32)
      \<Rightarrow> ('m TransactionInfo \<times> bool) list" where
  "flag_latest b [] index = []"
| "flag_latest b (tx # txs) index =
     (tx, points_at index (ti_content_hash tx) b)
       # flag_latest b txs (if points_at index (ti_content_hash tx) b
                            then index(ti_content_hash tx := None) else index)"

lemma sweep_pairs:
  "length pairs + length txs \<le> unat bound \<Longrightarrow>
   fst (sweep bound b txs pairs index) = pairs @ flag_latest b txs index"
proof (induction txs arbitrary: pairs index)
  case Nil
  then show ?case by simp
next
  case (Cons tx txs)
  have "is_some_and (index (ti_content_hash tx)) (\<lambda>(block, _). block = b)
      = points_at index (ti_content_hash tx) b"
    by (auto simp: points_at_def is_some_and_iff)
  with Cons show ?case by (simp add: Let_def try_push_def)
qed

lemma map_fst_flag_latest [simp]: "map fst (flag_latest b txs index) = txs"
  by (induction txs arbitrary: index) simp_all

lemma flag_latest_hash:
  "(t, True) \<in> set (flag_latest b txs index) \<Longrightarrow> t \<in> set txs \<and> points_at index (ti_content_hash t) b"
proof (induction txs arbitrary: index)
  case Nil
  then show ?case by simp
next
  case (Cons tx txs)
  let ?index = "if points_at index (ti_content_hash tx) b then index(ti_content_hash tx := None) else index"
  from Cons.prems have "(t = tx \<and> points_at index (ti_content_hash tx) b) \<or> (t, True) \<in> set (flag_latest b txs ?index)"
    by auto
  then show ?case
  proof
    assume "(t, True) \<in> set (flag_latest b txs ?index)"
    from Cons.IH [OF this] show ?thesis by (auto simp: points_at_def split: if_splits)
  qed simp
qed

lemma flag_latest_distinct:
  "distinct (map (ti_content_hash \<circ> fst) (filter snd (flag_latest b txs index)))"
proof (induction txs arbitrary: index)
  case Nil
  then show ?case by simp
next
  case (Cons tx txs)
  then show ?case by (auto simp: points_at_def dest!: flag_latest_hash)
qed

lemma flag_latest_complete:
  "c \<in> ti_content_hash ` set txs \<Longrightarrow> points_at index c b \<Longrightarrow>
   \<exists>t. (t, True) \<in> set (flag_latest b txs index) \<and> ti_content_hash t = c"
proof (induction txs arbitrary: index)
  case Nil
  then show ?case by simp
next
  case (Cons tx txs)
  show ?case
  proof (cases "ti_content_hash tx = c")
    case True
    with Cons.prems show ?thesis by auto
  next
    case False
    let ?index = "if points_at index (ti_content_hash tx) b then index(ti_content_hash tx := None) else index"
    have "points_at ?index c b" using Cons.prems(2) False by (auto simp: points_at_def)
    with Cons.IH [of ?index] Cons.prems(1) False show ?thesis by auto
  qed
qed

section \<open>The invariant\<close>

definition block_entries :: "('m, 'x) ts \<Rightarrow> BlockNumber \<Rightarrow> 'm TransactionInfo list" where
  "block_entries s b =
     (case tx_get s b of Some txs \<Rightarrow> txs | None \<Rightarrow> if b = now s then BlockTransactions s else [])"

definition index_sound :: "('m, 'x) ts \<Rightarrow> bool" where
  "index_sound s \<longleftrightarrow> (\<forall>c b i. TransactionByContentHash s c = Some (b, i) \<longrightarrow>
     unat i < length (block_entries s b) \<and> ti_content_hash (block_entries s b ! unat i) = c)"

definition index_complete :: "('m, 'x) ts \<Rightarrow> bool" where
  "index_complete s \<longleftrightarrow> (\<forall>b t. t \<in> set (block_entries s b) \<longrightarrow>
     (\<exists>b' i. TransactionByContentHash s (ti_content_hash t) = Some (b', i) \<and> b \<le> b'))"

definition stored_ok :: "('m, 'x) config \<Rightarrow> host \<Rightarrow> bool \<Rightarrow> ('m, 'x) ts \<Rightarrow> bool" where
  "stored_ok cfg h opn s \<longleftrightarrow> (\<forall>b txs. tx_get s b = Some txs \<longrightarrow>
     txs \<noteq> [] \<and> block_ok cfg h txs \<and> 0 < b \<and> sat_sub (now s) (RetentionPeriod s) \<le> b
     \<and> b \<le> now s \<and> (opn \<longrightarrow> b \<noteq> now s))"

text \<open>\<open>opn\<close> holds from \<open>on_initialize\<close> to \<open>on_finalize\<close>.\<close>

definition storage_inv :: "('m, 'x) config \<Rightarrow> host \<Rightarrow> bool \<Rightarrow> ('m, 'x) ts \<Rightarrow> bool" where
  "storage_inv cfg h opn s \<longleftrightarrow>
     current_block_ok cfg h s \<and> stored_ok cfg h opn s \<and> index_sound s \<and> index_complete s
     \<and> (if opn then 0 < now s else BlockTransactions s = [])"

lemmas storage_inv_defs = storage_inv_def current_block_ok_def stored_ok_def

lemma block_entries_frame:
  "Transactions s' = Transactions s \<Longrightarrow> BlockTransactions s' = BlockTransactions s \<Longrightarrow>
   block_number s' = block_number s \<Longrightarrow> block_entries s' b = block_entries s b"
  by (simp add: block_entries_def tx_get_def now_def cong: option.case_cong)

text \<open>Only five components of the state matter to it.\<close>

lemma storage_inv_frame:
  assumes "Transactions s' = Transactions s" "BlockTransactions s' = BlockTransactions s"
    "block_number s' = block_number s" "RetentionPeriod s' = RetentionPeriod s"
    "TransactionByContentHash s' = TransactionByContentHash s"
  shows "storage_inv cfg h opn s' = storage_inv cfg h opn s"
  using assms block_entries_frame [OF assms(1-3)]
  by (simp add: storage_inv_defs index_sound_def index_complete_def tx_get_def now_def)

lemma append_block_entries:
  assumes "stored_ok cfg h True s"
  shows "block_entries (append_entry h e s) b =
    (if b = now s then block_entries s b @ [entry_at h e (BlockTransactions s)] else block_entries s b)"
    and "block_entries s (now s) = BlockTransactions s"
proof -
  have "tx_get s (now s) = None"
    using assms by (cases "tx_get s (now s)") (auto simp: stored_ok_def)
  then show "block_entries (append_entry h e s) b =
    (if b = now s then block_entries s b @ [entry_at h e (BlockTransactions s)] else block_entries s b)"
    and "block_entries s (now s) = BlockTransactions s"
    by (auto simp: block_entries_def tx_get_def now_def split: option.split)
qed

lemma append_index_sound:
  assumes inv: "storage_inv cfg h True s" and room: "length (BlockTransactions s) < unat (MaxBlockTransactions cfg)"
  shows "index_sound (append_entry h e s)"
  unfolding index_sound_def
proof (intro allI impI)
  fix c b i
  assume new: "TransactionByContentHash (append_entry h e s) c = Some (b, i)"
  have len: "unat (of_nat (length (BlockTransactions s)) :: u32) = length (BlockTransactions s)"
    using room unat_u32_less [of "MaxBlockTransactions cfg"] by (intro unat_of_nat_u32) simp
  note ent = append_block_entries(1) [of cfg h s e] append_block_entries(2) [of cfg h s]
  have st: "stored_ok cfg h True s" and sound: "index_sound s"
    using inv by (simp_all add: storage_inv_def)
  show "unat i < length (block_entries (append_entry h e s) b)
      \<and> ti_content_hash (block_entries (append_entry h e s) b ! unat i) = c"
  proof (cases "c = ti_content_hash e")
    case True
    with new len ent [OF st] show ?thesis by (auto simp: nth_append)
  next
    case False
    with new have "TransactionByContentHash s c = Some (b, i)" by simp
    with sound have "unat i < length (block_entries s b) \<and> ti_content_hash (block_entries s b ! unat i) = c"
      by (simp add: index_sound_def)
    with ent [OF st] show ?thesis by (auto simp: nth_append)
  qed
qed

lemma append_index_complete:
  assumes inv: "storage_inv cfg h True s"
  shows "index_complete (append_entry h e s)"
  unfolding index_complete_def
proof (intro allI impI)
  fix b t
  assume t: "t \<in> set (block_entries (append_entry h e s) b)"
  have st: "stored_ok cfg h True s" and compl: "index_complete s"
    using inv by (simp_all add: storage_inv_def)
  have past: "b \<le> now s" if "t \<in> set (block_entries s b)"
    using st that by (auto simp: block_entries_def stored_ok_def split: option.splits if_splits)
  have old: "\<exists>b' i. TransactionByContentHash s (ti_content_hash t) = Some (b', i) \<and> b \<le> b'"
    if "t \<in> set (block_entries s b)"
    using compl that by (auto simp: index_complete_def)
  have "t \<in> set (block_entries s b) \<or> (b = now s \<and> t = entry_at h e (BlockTransactions s))"
    using t append_block_entries(1) [OF st, of e b] by (auto split: if_splits)
  then show "\<exists>b' i. TransactionByContentHash (append_entry h e s) (ti_content_hash t) = Some (b', i) \<and> b \<le> b'"
    using old past by auto
qed

lemma append_storage_inv:
  assumes inv: "storage_inv cfg h True s"
    and room: "length (BlockTransactions s) < unat (MaxBlockTransactions cfg)"
    and size: "data_size_ok cfg (unat (ti_size e))"
  shows "storage_inv cfg h True (host_call c (append_entry h e s))"
proof -
  have "storage_inv cfg h True (append_entry h e s)"
    using append_index_sound [OF inv room] append_index_complete [OF inv] assms
    by (auto simp: storage_inv_defs tx_get_def now_def block_ok_append)
  then show ?thesis by (subst storage_inv_frame) simp_all
qed

interpretation inv: storage_invariant "storage_inv cfg h True" cfg h for cfg :: "('m, 'x) config" and h
  by unfold_locales
    ((rule append_storage_inv; simp) | (subst storage_inv_frame; simp add: provider_op_defs))+

section \<open>Sealing\<close>

lemma on_finalize_Inr:
  "on_finalize n s = Inr s' \<longleftrightarrow>
     (ProofChecked s \<or> n \<le> RetentionPeriod s \<or> Transactions s (n - RetentionPeriod s) = None)
     \<and> s' = seal_block n (s\<lparr>ProofChecked := False\<rparr>)"
proof -
  have "sat_sub n (RetentionPeriod s) = 0 \<longleftrightarrow> n \<le> RetentionPeriod s"
    by (auto simp: word_eq_unat word_nat)
  moreover have "\<not> n \<le> RetentionPeriod s \<Longrightarrow> sat_sub n (RetentionPeriod s) = n - RetentionPeriod s"
    by (auto simp: sat_sub_def)
  ultimately show ?thesis
    by (auto simp: on_finalize_def Let_def res_simps retention_period_def)
qed

lemma seal_block_entries:
  assumes "storage_inv cfg h True s" and "chunks_fit cfg h" and "num_chunks_spec h"
  shows "seal_block (now s) s = s\<lparr>BlockTransactions := [],
     Transactions := if BlockTransactions s = [] then Transactions s
       else (Transactions s)(now s \<mapsto> Current (BlockTransactions s))\<rparr>"
  using assms total_chunks_pos [of cfg h "BlockTransactions s"]
  by (auto simp: seal_block_def Let_def storage_inv_defs)

lemma seal_view:
  assumes inv: "storage_inv cfg h True s" and "chunks_fit cfg h" and "num_chunks_spec h"
  shows "block_entries (seal_block (now s) s) b = block_entries s b"
proof -
  have "tx_get s (now s) = None"
    using inv by (cases "tx_get s (now s)") (auto simp: storage_inv_def stored_ok_def)
  then show ?thesis
    using seal_block_entries [OF assms] by (auto simp: block_entries_def tx_get_def now_def split: option.split)
qed

lemma seal_inv:
  assumes inv: "storage_inv cfg h True s" and fit: "chunks_fit cfg h" "num_chunks_spec h"
  shows "storage_inv cfg h False (seal_block (now s) s)"
proof -
  note eq = seal_block_entries [OF assms]
  have "stored_ok cfg h False (seal_block (now s) s)"
    using inv unfolding eq by (auto simp: storage_inv_defs tx_get_def now_def sat_sub_le_left)
  moreover have "index_sound (seal_block (now s) s)" "index_complete (seal_block (now s) s)"
    using inv seal_view [OF assms] by (simp_all add: storage_inv_def index_sound_def index_complete_def eq)
  ultimately show ?thesis unfolding storage_inv_def by (simp add: eq current_block_ok_def)
qed

section \<open>Opening\<close>

text \<open>\<open>frame_system\<close> advances the block number before \<open>on_initialize\<close> runs.\<close>

definition next_block :: "H256 \<Rightarrow> ('m, 'x) ts \<Rightarrow> ('m, 'x) ts" where
  "next_block parent s = s\<lparr>block_number := block_number s + 1, parent_hash := parent,
     extrinsic_index := None, events := []\<rparr>"

lemma obsolete_block_next:
  assumes "block_number s \<noteq> - 1"
  shows "unat (obsolete_block s (block_number s + 1)) = unat (block_number s) - unat (RetentionPeriod s)"
  using unat_plus_one [OF assms] unat_u32_less [of "block_number s + 1"]
  by (simp add: obsolete_block_def retention_period_def word_nat min_def)

text \<open>The state after the hook, in one equation: the obsolete block is gone, and with it the
  pointers into it.\<close>

definition drop_block :: "BlockNumber \<Rightarrow> ('m, 'x) ts \<Rightarrow> ('m, 'x) ts" where
  "drop_block b s =
     (case tx_get s b of
        None \<Rightarrow> s
      | Some txs \<Rightarrow> s\<lparr>Transactions := (Transactions s)(b := None),
          TransactionByContentHash := (\<lambda>c. if c \<in> ti_content_hash ` set txs
             \<and> points_at (TransactionByContentHash s) c b then None else TransactionByContentHash s c)\<rparr>)"

lemma on_initialize_state:
  "fst (snd (on_initialize cfg handler n (s, r))) =
     (if obsolete_block s n = 0 then s else drop_block (obsolete_block s n) s)"
  by (auto simp: on_initialize_def Let_def drop_block_def word_gt_0 case_prod_unfold sweep_index
      cong: if_cong split: option.split)

lemma on_initialize_consumer:
  assumes "tx_get s (obsolete_block s n) = Some txs" and "obsolete_block s n \<noteq> 0"
    and "length txs \<le> unat (MaxBlockTransactions cfg)"
  shows "snd (snd (on_initialize cfg handler n (s, r))) =
     handler (obsolete_block s n) (flag_latest (obsolete_block s n) txs (TransactionByContentHash s)) r"
  using assms sweep_pairs [of "[]" txs "MaxBlockTransactions cfg"]
  by (simp add: on_initialize_def Let_def word_gt_0 case_prod_unfold)

lemma on_initialize_idle:
  "obsolete_block s n = 0 \<or> tx_get s (obsolete_block s n) = None \<Longrightarrow>
   snd (on_initialize cfg handler n (s, r)) = (s, r)"
  by (auto simp: on_initialize_def Let_def word_gt_0)

lemma drop_block_frame [simp]:
  "BlockTransactions (drop_block b s) = BlockTransactions s"
  "RetentionPeriod (drop_block b s) = RetentionPeriod s"
  "block_number (drop_block b s) = block_number s"
  "now (drop_block b s) = now s"
  "Authorizations (drop_block b s) = Authorizations s"
  "AllowedAuthorizers (drop_block b s) = AllowedAuthorizers s"
  "host_calls (drop_block b s) = host_calls s"
  by (simp_all add: drop_block_def now_def split: option.split)

lemma drop_block_get: "tx_get (drop_block b s) b' = (if b' = b then None else tx_get s b')"
  by (auto simp: drop_block_def tx_get_def split: option.split StoredTxs.split)

lemma drop_block_index:
  "TransactionByContentHash (drop_block b s) c = Some (b', i) \<Longrightarrow>
   TransactionByContentHash s c = Some (b', i) \<and>
   (\<forall>txs. tx_get s b = Some txs \<longrightarrow> c \<in> ti_content_hash ` set txs \<longrightarrow> b' \<noteq> b)"
  by (auto simp: drop_block_def points_at_def split: option.splits if_splits)

text \<open>Dropping a block no older than which anything is stored keeps the index sound and
  complete.\<close>

lemma drop_block_sound:
  assumes "index_sound s" and "b \<noteq> now s \<or> BlockTransactions s = []"
  shows "index_sound (drop_block b s)"
  unfolding index_sound_def
proof (intro allI impI)
  fix c b' i
  assume "TransactionByContentHash (drop_block b s) c = Some (b', i)"
  note old = drop_block_index [OF this]
  with assms(1) have ok: "unat i < length (block_entries s b') \<and> ti_content_hash (block_entries s b' ! unat i) = c"
    by (auto simp: index_sound_def)
  have "block_entries (drop_block b s) b' = block_entries s b'"
  proof (cases "b' = b")
    case True
    then have "tx_get s b = None"
      using old ok by (cases "tx_get s b") (auto simp: block_entries_def)
    with True show ?thesis by (simp add: block_entries_def drop_block_get)
  next
    case False
    then show ?thesis by (simp add: block_entries_def drop_block_get cong: option.case_cong)
  qed
  with ok show "unat i < length (block_entries (drop_block b s) b')
      \<and> ti_content_hash (block_entries (drop_block b s) b' ! unat i) = c" by simp
qed

lemma drop_block_complete:
  assumes compl: "index_complete s" and oldest: "\<And>b'. block_entries s b' \<noteq> [] \<Longrightarrow> b \<le> b'"
    and cur: "b \<noteq> now s \<or> BlockTransactions s = []"
  shows "index_complete (drop_block b s)"
  unfolding index_complete_def
proof (intro allI impI)
  fix b' t
  assume "t \<in> set (block_entries (drop_block b s) b')"
  then have t: "t \<in> set (block_entries s b')" and b': "tx_get s b \<noteq> None \<longrightarrow> b' \<noteq> b"
    using cur by (auto simp: block_entries_def drop_block_get split: if_splits option.splits)
  obtain b'' i where p: "TransactionByContentHash s (ti_content_hash t) = Some (b'', i)" "b' \<le> b''"
    using compl t unfolding index_complete_def by blast
  have "b \<le> b'" using t by (intro oldest) (auto dest: length_pos_if_in_set)
  then have "b'' \<noteq> b" if "tx_get s b \<noteq> None" using b' p(2) that by (metis antisym)
  with p show "\<exists>b'' i. TransactionByContentHash (drop_block b s) (ti_content_hash t) = Some (b'', i) \<and> b' \<le> b''"
    by (auto simp: drop_block_def points_at_def split: option.split)
qed

lemma next_block_view:
  assumes "storage_inv cfg h False s" and "block_number s \<noteq> - 1"
  shows "block_entries (next_block p s) b = block_entries s b"
proof -
  have "tx_get s (block_number s + 1) = None"
    using assms(1) unat_plus_one [OF assms(2)]
    by (cases "tx_get s (block_number s + 1)") (fastforce simp: storage_inv_defs now_def word_nat)+
  with assms(1) show ?thesis
    by (auto simp: block_entries_def tx_get_def next_block_def now_def storage_inv_def
        split: option.splits StoredTxs.splits)
qed

lemma drop_block_view:
  assumes "BlockTransactions s = []"
  shows "block_entries (drop_block b s) b' = (if b' = b then [] else block_entries s b')"
  using assms by (simp add: block_entries_def drop_block_get cong: option.case_cong)

lemma next_block_inv:
  assumes inv: "storage_inv cfg h False s" and room: "block_number s \<noteq> - 1"
  shows "storage_inv cfg h True (fst (snd (on_initialize cfg handler (block_number s + 1) (next_block p s, r))))"
proof -
  let ?s = "next_block p s" and ?n = "block_number s + 1"
  let ?b = "obsolete_block ?s ?n"
  have nb: "now ?s = ?n" "RetentionPeriod ?s = RetentionPeriod s" "BlockTransactions ?s = []"
      "Transactions ?s = Transactions s" "TransactionByContentHash ?s = TransactionByContentHash s"
    using inv by (simp_all add: next_block_def now_def storage_inv_def)
  have n: "unat ?n = Suc (unat (block_number s))" using unat_plus_one [OF room] .
  have obs: "unat ?b = unat (block_number s) - unat (RetentionPeriod s)"
    using obsolete_block_next [OF room] by (simp add: obsolete_block_def retention_period_def nb)
  have get: "tx_get ?s b = tx_get s b" for b by (simp add: tx_get_def nb)
  have stored: "txs \<noteq> [] \<and> block_ok cfg h txs \<and> 0 < unat b \<and> unat ?b \<le> unat b \<and> unat b < unat ?n"
    if "tx_get s b = Some txs" for b txs
    using inv that n obs by (fastforce simp: storage_inv_defs now_def word_nat)
  note view = next_block_view [OF inv room]
  have idx: "index_sound ?s" "index_complete ?s"
    using inv by (simp_all add: storage_inv_def index_sound_def index_complete_def view nb)
  have old: "?b \<le> b" if "block_entries ?s b \<noteq> []" for b
    using that stored [of b] nb(3) by (auto simp: block_entries_def get word_nat split: option.splits if_splits)
  have fin: "stored_ok cfg h True (if ?b = 0 then ?s else drop_block ?b ?s)"
  proof -
    have "txs \<noteq> [] \<and> block_ok cfg h txs \<and> 0 < b \<and> sat_sub ?n (RetentionPeriod s) \<le> b \<and> b \<le> ?n \<and> b \<noteq> ?n"
      if "tx_get s b = Some txs" and "?b \<noteq> 0 \<longrightarrow> b \<noteq> ?b" for b txs
    proof -
      have "?b \<noteq> 0 \<longrightarrow> unat b \<noteq> unat ?b" "?b = 0 \<longrightarrow> unat ?b = 0" using that(2) by (auto simp: word_eq_unat)
      with stored [OF that(1)] n obs show ?thesis by (auto simp: word_nat)
    qed
    then show ?thesis by (auto simp: stored_ok_def drop_block_get get nb split: if_splits)
  qed
  show ?thesis
    unfolding on_initialize_state storage_inv_def current_block_ok_def
    using fin idx drop_block_sound [of ?s ?b] drop_block_complete [of ?s ?b] old nb n
    by (auto simp: word_gt_0 word_eq_unat)
qed

section \<open>The checks of try-state\<close>

lemma check_entries_cumulative: "check_entries h acc txs \<noteq> None \<longleftrightarrow> cumulative h acc txs"
  by (induction txs arbitrary: acc) (auto simp: Let_def)

lemma check_entries_total:
  "check_entries h acc txs = Some t \<Longrightarrow> t = (if txs = [] then acc else ti_block_chunks (last txs))"
  by (induction txs arbitrary: acc) (auto simp: Let_def split: if_splits)

lemma storage_inv_try_state:
  assumes "storage_inv cfg h opn s" and "caps_ok s" and "RetentionPeriod s \<noteq> 0"
  shows "do_try_state h (now s) s"
proof -
  have "check_entries h 0 txs = Some (total_chunks txs)" if "tx_get s b = Some txs" for b txs
  proof -
    have "cumulative h 0 txs" "txs \<noteq> []"
      using assms(1) that by (auto simp: storage_inv_defs block_ok_def)
    then show ?thesis
      using check_entries_cumulative [of h 0 txs] check_entries_total [of h 0 txs]
      by (auto simp: total_chunks_def)
  qed
  then show ?thesis
    using assms
    by (auto simp: do_try_state_def check_transactions_integrity_def check_no_stale_transactions_def
        check_authorizations_integrity_def caps_ok_def storage_inv_defs retention_period_def Let_def)
qed

end
