(* ===== verification/Renewal.thy ===== *)
theory Renewal
  imports Storage_Invariant
begin

text \<open>
  The data-renewal pallet (\<open>pallets/data-renewal/src/lib.rs\<close>, \<open>types.rs\<close>,
  \<open>extension.rs\<close>): registrations of renewals, the synchronous \<open>force_renew\<close>, the
  sweep callback that queues due registrations, the mandatory inherent that drains the queue,
  and the two hard caps on renewed bytes. It fixes the two payloads of the storage pallet to
  \<open>EntryKind\<close> and \<open>PermanentExtent\<close>, as the runtimes do. The state is the pair of
  the storage pallet's and this pallet's.
\<close>

section \<open>Data\<close>

definition RenewMeta_renew :: EntryKind where
  "RenewMeta_renew = Renew"

definition is_renew :: "EntryKind \<Rightarrow> bool" where
  "is_renew m = (case m of Renew \<Rightarrow> True | Store \<Rightarrow> False)"

record PermanentExtent =
  bytes_permanent :: u64

record RenewalData =
  rd_account :: AccountId
  rd_recurring :: bool
  rd_paid :: bool

definition RENEWED_NOT_FOUND :: InvalidTransaction where "RENEWED_NOT_FOUND = ITCustom 2"

definition PERMANENT_ALLOWANCE_EXCEEDED :: InvalidTransaction where
  "PERMANENT_ALLOWANCE_EXCEEDED = ITCustom 5"

definition CHAIN_PERMANENT_CAP_REACHED :: InvalidTransaction where
  "CHAIN_PERMANENT_CAP_REACHED = ITCustom 6"

definition AUTO_RENEWAL_NOT_ENABLED :: InvalidTransaction where "AUTO_RENEWAL_NOT_ENABLED = ITCustom 9"

definition NOT_AUTO_RENEWAL_OWNER :: InvalidTransaction where "NOT_AUTO_RENEWAL_OWNER = ITCustom 10"

definition RENEWAL_ALREADY_ENABLED :: InvalidTransaction where "RENEWAL_ALREADY_ENABLED = ITCustom 11"

definition CANNOT_DISABLE_PREPAID_AUTO_RENEWAL :: InvalidTransaction where
  "CANNOT_DISABLE_PREPAID_AUTO_RENEWAL = ITCustom 12"

definition PERMANENT_STORAGE_NEAR_CAP_PERCENT :: u64 where
  "PERMANENT_STORAGE_NEAR_CAP_PERCENT = 80"

datatype RenewalError =
    RE_BadContext | RE_RenewedNotFound | RE_TooManyTransactions | RE_RenewalAlreadyEnabled
  | RE_AutoRenewalNotEnabled | RE_NotAutoRenewalOwner | RE_CannotDisablePrepaidAutoRenewal
  | RE_BadDataSize

datatype RenewalEvent =
    EvRenewed u32 ContentHash
  | EvRenewalEnabled ContentHash AccountId bool
  | EvAutoRenewalDisabled ContentHash AccountId
  | EvDataRenewed u32 ContentHash AccountId
  | EvRenewalFailed ContentHash AccountId
  | EvPermanentStorageUsedUpdated u64
  | EvPermanentStorageNearCap u64 u64

type_synonym info = "EntryKind TransactionInfo"
type_synonym rts = "(EntryKind, PermanentExtent) ts"
type_synonym rconf = "(EntryKind, PermanentExtent) config"

record rn =
  Renewals :: "ContentHash \<rightharpoonup> RenewalData"
  PendingRenewals :: "(ContentHash \<times> info \<times> RenewalData) list"
  PermanentStorageUsed :: u64
  r_events :: "RenewalEvent list"

record renewal_config =
  MaxPermanentStorageSize :: u64
  RenewTxParams :: ValidTransactionParams
  process_pending_renewals_weight :: "u32 \<Rightarrow> Weight"

definition r_event :: "RenewalEvent \<Rightarrow> rn \<Rightarrow> rn" where
  "r_event e r = r\<lparr>r_events := r_events r @ [e]\<rparr>"

section \<open>The chain-wide counter and the caps\<close>

definition near_cap_threshold :: "u64 \<Rightarrow> u64" where
  "near_cap_threshold cap = sat_mul (cap div 100) PERMANENT_STORAGE_NEAR_CAP_PERCENT"

definition update_permanent_storage_used :: "renewal_config \<Rightarrow> (u64 \<Rightarrow> u64) \<Rightarrow> rn \<Rightarrow> rn" where
  "update_permanent_storage_used rc f r =
     (let old = PermanentStorageUsed r;
          new = f old;
          r1 = r_event (EvPermanentStorageUsedUpdated new) (r\<lparr>PermanentStorageUsed := new\<rparr>);
          cap = MaxPermanentStorageSize rc;
          threshold = near_cap_threshold cap
      in if old < threshold \<and> threshold \<le> new
         then r_event (EvPermanentStorageNearCap new cap) r1 else r1)"

definition check_renew_authorization ::
    "renewal_config \<Rightarrow> AuthorizationScope \<Rightarrow> u32 \<Rightarrow> bool \<Rightarrow> rts \<times> rn \<Rightarrow> InvalidTransaction + (rts \<times> rn)" where
  "check_renew_authorization rc scope sz consume sr =
     (let (s, r) = sr;
          size64 = u32_to_u64 sz;
          chain_used = PermanentStorageUsed r;
          chain_cap = MaxPermanentStorageSize rc in
      and_then (try_mutate_active_authorization scope consume (\<lambda>a.
          let used = bytes_permanent (ae_extra (aa_extent a)) in
          if ae_bytes_allowance (aa_extent a) < sat_add used size64 then Inl PERMANENT_ALLOWANCE_EXCEEDED
          else if chain_cap < sat_add chain_used size64 then Inl CHAIN_PERMANENT_CAP_REACHED
          else Inr ((), note_transaction
                 (set_extra (ae_extra (aa_extent a)\<lparr>bytes_permanent := sat_add used size64\<rparr>) a))) s)
        (\<lambda>(_, s1).
      Inr (s1, if consume then update_permanent_storage_used rc (\<lambda>used. sat_add used size64) r else r)))"

definition authorize_renew ::
    "rconf \<Rightarrow> renewal_config \<Rightarrow> AccountId \<Rightarrow> ContentHash \<Rightarrow> u32 \<Rightarrow> bool \<Rightarrow> rts \<times> rn
      \<Rightarrow> InvalidTransaction + (AuthorizationScope \<times> rts \<times> rn)" where
  "authorize_renew cfg rc who content_hash sz consume sr =
     (if \<not> data_size_ok cfg (unat sz) then Inl BAD_DATA_SIZE
      else if block_transactions_full cfg (fst sr) then Inl ITExhaustsResources
      else case check_renew_authorization rc (Preimage content_hash) sz consume sr of
        Inr sr1 \<Rightarrow> Inr (Preimage content_hash, sr1)
      | Inl _ \<Rightarrow>
          and_then (check_renew_authorization rc (Account who) sz consume sr)
            (\<lambda>sr1. Inr (Account who, sr1)))"

definition check_renew_unsigned ::
    "rconf \<Rightarrow> renewal_config \<Rightarrow> host \<Rightarrow> TransactionRef \<Rightarrow> CheckContext \<Rightarrow> rts \<times> rn
      \<Rightarrow> InvalidTransaction + (ValidTransaction option \<times> rts \<times> rn)" where
  "check_renew_unsigned cfg rc h entry ctx sr =
     and_then (map_err (\<lambda>_. RENEWED_NOT_FOUND) (resolve_transaction_ref (fst sr) entry)) (\<lambda>info.
     if \<not> data_size_ok cfg (unat (ti_size info)) then Inl BAD_DATA_SIZE
     else if block_transactions_full cfg (fst sr) then Inl ITExhaustsResources
     else and_then (check_renew_authorization rc (Preimage (ti_content_hash info)) (ti_size info)
                     (consume_authorization ctx) sr) (\<lambda>sr1.
       Inr (bool_then (want_valid_transaction ctx)
              (provides h (RenewTxParams rc) (ti_content_hash info)), sr1)))"

definition can_renew :: "rconf \<Rightarrow> renewal_config \<Rightarrow> AccountId \<Rightarrow> TransactionRef \<Rightarrow> rts \<times> rn \<Rightarrow> bool" where
  "can_renew cfg rc who entry sr =
     (case resolve_transaction_ref (fst sr) entry of
        Inl _ \<Rightarrow> False
      | Inr info \<Rightarrow>
          if \<not> data_size_ok cfg (unat (ti_size info)) then False
          else is_ok (check_renew_authorization rc (Account who) (ti_size info) False sr))"

section \<open>Dispatchables\<close>

definition do_renew ::
    "rconf \<Rightarrow> host \<Rightarrow> info \<Rightarrow> rts \<Rightarrow> RenewalError + (u32 \<times> rts)" where
  "do_renew cfg h info s =
     and_then (ok_or (extrinsic_index s) RE_BadContext) (\<lambda>ext.
     let (new_index, s1) = with_block_transactions (btm_renew cfg h info ext RenewMeta_renew) s in
     and_then (ok_or new_index RE_TooManyTransactions) (\<lambda>i. Inr (i, s1)))"

definition renew ::
    "RuntimeOrigin \<Rightarrow> TransactionRef \<Rightarrow> rts \<times> rn \<Rightarrow> RenewalError DispatchError + (rts \<times> rn)" where
  "renew orig entry sr =
     (let (s, r) = sr in
      and_then (ensure_authorized orig) (\<lambda>caller.
      case caller of
        CallerSigned who _ \<Rightarrow>
          and_then (map_err (\<lambda>_. Module RE_RenewedNotFound) (resolve_transaction_ref s entry)) (\<lambda>info.
          let content_hash = ti_content_hash info in
          and_then (ensure (Renewals r content_hash = None) (Module RE_RenewalAlreadyEnabled)) (\<lambda>_.
          Inr (s, r_event (EvRenewalEnabled content_hash who False)
                (r\<lparr>Renewals := (Renewals r)(content_hash \<mapsto>
                   \<lparr>rd_account = who, rd_recurring = False, rd_paid = True\<rparr>)\<rparr>))))
      | _ \<Rightarrow> Inl BadOrigin))"

definition force_renew ::
    "rconf \<Rightarrow> host \<Rightarrow> RuntimeOrigin \<Rightarrow> TransactionRef \<Rightarrow> rts \<times> rn
      \<Rightarrow> RenewalError DispatchError + (rts \<times> rn)" where
  "force_renew cfg h orig entry sr =
     (let (s, r) = sr in
      and_then (ensure_authorized orig) (\<lambda>_.
      and_then (map_err (\<lambda>_. Module RE_RenewedNotFound) (resolve_transaction_ref s entry)) (\<lambda>info.
      and_then (map_err (\<lambda>_. Module RE_BadDataSize) (ensure_data_size_ok cfg (unat (ti_size info)))) (\<lambda>_.
      and_then (map_err Module (do_renew cfg h info s)) (\<lambda>(new_index, s1).
      Inr (s1, r_event (EvRenewed new_index (ti_content_hash info)) r))))))"

definition enable_auto_renew ::
    "RuntimeOrigin \<Rightarrow> ContentHash \<Rightarrow> rts \<times> rn \<Rightarrow> RenewalError DispatchError + (rts \<times> rn)" where
  "enable_auto_renew orig content_hash sr =
     (let (s, r) = sr in
      and_then (ensure_authorized orig) (\<lambda>caller.
      case caller of
        CallerSigned who _ \<Rightarrow>
          and_then (ensure (Renewals r content_hash = None) (Module RE_RenewalAlreadyEnabled)) (\<lambda>_.
          and_then (ok_or (lookup_by_content_hash s content_hash) (Module RE_RenewedNotFound)) (\<lambda>(block, index).
          and_then (ok_or (transaction_info s block index) (Module RE_RenewedNotFound)) (\<lambda>_.
          Inr (s, r_event (EvRenewalEnabled content_hash who True)
                (r\<lparr>Renewals := (Renewals r)(content_hash \<mapsto>
                   \<lparr>rd_account = who, rd_recurring = True, rd_paid = True\<rparr>)\<rparr>)))))
      | _ \<Rightarrow> Inl BadOrigin))"

definition disable_auto_renew ::
    "RuntimeOrigin \<Rightarrow> ContentHash \<Rightarrow> rts \<times> rn \<Rightarrow> RenewalError DispatchError + (rts \<times> rn)" where
  "disable_auto_renew orig content_hash sr =
     (let (s, r) = sr in
      and_then (ensure_authorized orig) (\<lambda>caller.
      and_then (ok_or (Renewals r content_hash) (Module RE_AutoRenewalNotEnabled)) (\<lambda>data.
      and_then
        (case caller of
           CallerSigned who _ \<Rightarrow>
             and_then (ensure (rd_account data = who) (Module RE_NotAutoRenewalOwner)) (\<lambda>_.
             ensure (\<not> rd_paid data) (Module RE_CannotDisablePrepaidAutoRenewal))
         | CallerRoot \<Rightarrow> Inr ()
         | CallerUnsigned \<Rightarrow> Inl BadOrigin) (\<lambda>_.
      Inr (s, r_event (EvAutoRenewalDisabled content_hash (rd_account data))
            (r\<lparr>Renewals := (Renewals r)(content_hash := None)\<rparr>))))))"

section \<open>The drain\<close>

text \<open>One turn of the loop of \<open>do_process_pending_renewals\<close>. It runs inside the closure of
  \<open>with_block_transactions\<close>, with the block's entries borrowed.\<close>

definition drain_charge ::
    "renewal_config \<Rightarrow> info \<Rightarrow> RenewalData \<Rightarrow> rts \<times> rn \<Rightarrow> bool \<times> rts \<times> rn" where
  "drain_charge rc tx data sr =
     (if rd_paid data then (True, sr)
      else case check_renew_authorization rc (Account (rd_account data)) (ti_size tx) True sr of
        Inl _ \<Rightarrow> (False, sr)
      | Inr sr1 \<Rightarrow> (True, sr1))"

definition drain_renewed :: "ContentHash \<Rightarrow> RenewalData \<Rightarrow> u32 \<Rightarrow> rn \<Rightarrow> rn" where
  "drain_renewed hash data i r =
     r_event (EvDataRenewed i hash (rd_account data))
       (if \<not> rd_recurring data then r\<lparr>Renewals := (Renewals r)(hash := None)\<rparr>
        else if rd_paid data
          then r\<lparr>Renewals := (Renewals r)(hash := map_option (\<lambda>d. d\<lparr>rd_paid := False\<rparr>) (Renewals r hash))\<rparr>
          else r)"

definition drain_failed :: "renewal_config \<Rightarrow> ContentHash \<Rightarrow> info \<Rightarrow> RenewalData \<Rightarrow> bool \<Rightarrow> rn \<Rightarrow> rn" where
  "drain_failed rc hash tx data charged r =
     (let r1 = (if charged
                then update_permanent_storage_used rc (\<lambda>used. sat_sub used (u32_to_u64 (ti_size tx))) r
                else r)
      in r_event (EvRenewalFailed hash (rd_account data)) (r1\<lparr>Renewals := (Renewals r1)(hash := None)\<rparr>))"

definition drain_one ::
    "rconf \<Rightarrow> renewal_config \<Rightarrow> host \<Rightarrow> u32 \<Rightarrow> ContentHash \<times> info \<times> RenewalData
      \<Rightarrow> rn \<times> (EntryKind, PermanentExtent) btm \<Rightarrow> rn \<times> (EntryKind, PermanentExtent) btm" where
  "drain_one cfg rc h ext item st =
     (let (hash, tx, data) = item;
          (r, entries, s) = st;
          (charged, s1, r1) = drain_charge rc tx data (s, r);
          (new_index, entries2, s2) =
            (if charged then btm_renew cfg h tx ext RenewMeta_renew (entries, s1)
             else (None, entries, s1))
      in (case new_index of
            Some i \<Rightarrow> (drain_renewed hash data i r1, entries2, s2)
          | None \<Rightarrow> (drain_failed rc hash tx data charged r1, entries2, s2)))"

definition fail_one :: "ContentHash \<times> info \<times> RenewalData \<Rightarrow> rn \<Rightarrow> rn" where
  "fail_one item r =
     (let (hash, _, data) = item in
      r_event (EvRenewalFailed hash (rd_account data)) (r\<lparr>Renewals := (Renewals r)(hash := None)\<rparr>))"

definition do_process_pending_renewals ::
    "rconf \<Rightarrow> renewal_config \<Rightarrow> host \<Rightarrow> rts \<times> rn \<Rightarrow> u32 \<times> rts \<times> rn" where
  "do_process_pending_renewals cfg rc h sr =
     (let (s, r) = sr;
          pending = PendingRenewals r;
          r1 = r\<lparr>PendingRenewals := []\<rparr>;
          n_actual = of_nat (length pending) in
      if n_actual = 0 then (0, s, r1)
      else case extrinsic_index s of
        None \<Rightarrow> (n_actual, s, fold fail_one pending r1)
      | Some ext \<Rightarrow>
          let (r2, s2) = with_block_transactions
                (\<lambda>b. fold (drain_one cfg rc h ext) pending (r1, b)) s
          in (n_actual, s2, r2))"

definition process_pending_renewals ::
    "rconf \<Rightarrow> renewal_config \<Rightarrow> host \<Rightarrow> RuntimeOrigin \<Rightarrow> rts \<times> rn
      \<Rightarrow> RenewalError DispatchError + (Weight \<times> rts \<times> rn)" where
  "process_pending_renewals cfg rc h orig sr =
     and_then (ensure_none orig) (\<lambda>_.
     let (n_actual, sr1) = do_process_pending_renewals cfg rc h sr
     in Inr (process_pending_renewals_weight rc n_actual, sr1))"

section \<open>Sweep callback and hooks\<close>

definition renewed_bytes :: "(info \<times> bool) list \<Rightarrow> u64" where
  "renewed_bytes items =
     fold (\<lambda>(tx, _) acc. sat_add acc (u32_to_u64 (ti_size tx)))
       (filter (\<lambda>(tx, _). is_renew (ti_meta tx)) items) 0"

definition queue_item ::
    "u32 \<Rightarrow> (ContentHash \<rightharpoonup> RenewalData) \<Rightarrow> info \<times> bool
      \<Rightarrow> (ContentHash \<times> info \<times> RenewalData) list \<Rightarrow> (ContentHash \<times> info \<times> RenewalData) list" where
  "queue_item bound renewals item pending =
     (let (tx, is_latest) = item in
      if \<not> is_latest then pending
      else case renewals (ti_content_hash tx) of
        None \<Rightarrow> pending
      | Some data \<Rightarrow>
          (case try_push bound pending (ti_content_hash tx, tx, data) of
             None \<Rightarrow> pending
           | Some p \<Rightarrow> p))"

definition handle_obsolete ::
    "rconf \<Rightarrow> renewal_config \<Rightarrow> BlockNumber \<Rightarrow> (info \<times> bool) list \<Rightarrow> rn \<Rightarrow> rn" where
  "handle_obsolete cfg rc obsolete items r =
     (let renewed_sum = renewed_bytes items;
          r1 = (if 0 < renewed_sum
                then update_permanent_storage_used rc (\<lambda>used. sat_sub used renewed_sum) r else r);
          pending = fold (queue_item (MaxBlockTransactions cfg) (Renewals r1)) items (PendingRenewals r1)
      in if pending \<noteq> [] then r1\<lparr>PendingRenewals := pending\<rparr> else r1)"

definition renewal_on_finalize :: "rn \<Rightarrow> string + rn" where
  "renewal_on_finalize r =
     and_then (ensure (PendingRenewals r = [])
        ''All pending renewals must be processed by process_pending_renewals'') (\<lambda>_. Inr r)"

definition renewal_integrity_test :: "rconf \<Rightarrow> renewal_config \<Rightarrow> bool" where
  "renewal_integrity_test cfg rc =
     assert_pool_families_distinct cfg [(''RenewTxParams'', RenewTxParams rc)]"

section \<open>Try-state\<close>

text \<open>\<open>do_try_state\<close> as the tests build it, with the equality enforced. Iterating over a storage map
  visits its keys in an order of the storage's own: the two key lists are parameters.\<close>

definition renewed_in_block :: "info list \<Rightarrow> u64 \<Rightarrow> u64" where
  "renewed_in_block entries acc =
     fold (\<lambda>t inner. sat_add inner (u32_to_u64 (ti_size t))) (filter (\<lambda>t. is_renew (ti_meta t)) entries) acc"

definition renewed_on_chain :: "rts \<Rightarrow> BlockNumber list \<Rightarrow> u64" where
  "renewed_on_chain s blocks =
     fold (\<lambda>b acc. case tx_get s b of None \<Rightarrow> acc | Some entries \<Rightarrow> renewed_in_block entries acc) blocks 0"

fun prepaid_on_chain :: "rts \<times> rn \<Rightarrow> ContentHash list \<Rightarrow> u64 \<Rightarrow> string + u64" where
  "prepaid_on_chain sr [] acc = Inr acc"
| "prepaid_on_chain sr (content_hash # hashes) acc =
     (case Renewals (snd sr) content_hash of
        None \<Rightarrow> prepaid_on_chain sr hashes acc
      | Some registration \<Rightarrow>
          if \<not> rd_paid registration then prepaid_on_chain sr hashes acc
          else and_then (ok_or (lookup_by_content_hash (fst sr) content_hash)
                 ''paid Renewals registration has no on-chain target'') (\<lambda>(block, index).
               and_then (ok_or (transaction_info (fst sr) block index)
                 ''paid Renewals registration target has no TransactionInfo'') (\<lambda>info.
               prepaid_on_chain sr hashes (sat_add acc (u32_to_u64 (ti_size info))))))"

definition renewal_do_try_state ::
    "renewal_config \<Rightarrow> BlockNumber list \<Rightarrow> ContentHash list \<Rightarrow> rts \<times> rn \<Rightarrow> string + unit" where
  "renewal_do_try_state rc blocks hashes sr =
     (let used = PermanentStorageUsed (snd sr);
          renewed_sum = renewed_on_chain (fst sr) blocks in
      and_then (prepaid_on_chain sr hashes 0) (\<lambda>prepaid_sum.
      let expected = sat_add renewed_sum prepaid_sum in
      and_then (ensure (used = expected)
        ''PermanentStorageUsed != sum of renewed sizes + sum of paid registration sizes'') (\<lambda>_.
      ensure (used \<le> MaxPermanentStorageSize rc) ''PermanentStorageUsed exceeds MaxPermanentStorageSize'')))"

end
