(* ===== verification/Renewal_Calls.thy ===== *)
theory Renewal_Calls
  imports Renewal
begin

text \<open>
  The calls of the data-renewal pallet: dispatch, the inherent, unsigned and signed validation
  (\<open>pallets/data-renewal/src/lib.rs\<close>, \<open>extension.rs\<close>). The lemmas give the effect of
  the hard-cap check, show that the two caps are invariants of every call, and lift every
  \<open>storage_invariant\<close> of the storage pallet to the renewal pallet's operations, which
  change storage through that pallet's own entry points only.
\<close>

section \<open>Calls\<close>

datatype RenewalCall =
    RCall_renew TransactionRef
  | RCall_force_renew TransactionRef
  | RCall_enable_auto_renew ContentHash
  | RCall_disable_auto_renew ContentHash
  | RCall_process_pending_renewals

fun renewal_dispatch ::
    "rconf \<Rightarrow> renewal_config \<Rightarrow> host \<Rightarrow> RuntimeOrigin \<Rightarrow> RenewalCall \<Rightarrow> rts \<times> rn
      \<Rightarrow> RenewalError DispatchError + (rts \<times> rn)" where
  "renewal_dispatch cfg rc h orig (RCall_renew entry) sr = renew orig entry sr"
| "renewal_dispatch cfg rc h orig (RCall_force_renew entry) sr = force_renew cfg h orig entry sr"
| "renewal_dispatch cfg rc h orig (RCall_enable_auto_renew hash) sr = enable_auto_renew orig hash sr"
| "renewal_dispatch cfg rc h orig (RCall_disable_auto_renew hash) sr = disable_auto_renew orig hash sr"
| "renewal_dispatch cfg rc h orig RCall_process_pending_renewals sr =
     map_ok snd (process_pending_renewals cfg rc h orig sr)"

definition renewal_create_inherent :: "rn \<Rightarrow> RenewalCall option" where
  "renewal_create_inherent r =
     (if PendingRenewals r = [] then None else Some RCall_process_pending_renewals)"

fun renewal_is_inherent :: "RenewalCall \<Rightarrow> bool" where
  "renewal_is_inherent RCall_process_pending_renewals = True"
| "renewal_is_inherent _ = False"

definition renewal_validate_unsigned ::
    "rconf \<Rightarrow> renewal_config \<Rightarrow> host \<Rightarrow> TransactionSource \<Rightarrow> RenewalCall \<Rightarrow> rts \<times> rn
      \<Rightarrow> InvalidTransaction + ValidTransaction" where
  "renewal_validate_unsigned cfg rc h source call sr =
     (if renewal_is_inherent call then Inr (vt_default h)
      else case call of
        RCall_force_renew entry \<Rightarrow>
          and_then (check_renew_unsigned cfg rc h entry Validate sr) (\<lambda>(v, _). ok_or v ITCall)
      | _ \<Rightarrow> Inl ITCall)"

definition renewal_pre_dispatch ::
    "rconf \<Rightarrow> renewal_config \<Rightarrow> host \<Rightarrow> RenewalCall \<Rightarrow> rts \<times> rn \<Rightarrow> InvalidTransaction + (rts \<times> rn)" where
  "renewal_pre_dispatch cfg rc h call sr =
     (if renewal_is_inherent call then Inr sr
      else case call of
        RCall_force_renew entry \<Rightarrow> map_ok snd (check_renew_unsigned cfg rc h entry PreDispatch sr)
      | _ \<Rightarrow> Inl ITCall)"

section \<open>Signed validation\<close>

type_synonym renewal_check = "InvalidTransaction + ((ValidTransaction \<times> AuthorizationScope option) \<times> rts \<times> rn)"

definition valid_or_default :: "host \<Rightarrow> CheckContext \<Rightarrow> ValidTransaction \<Rightarrow> ValidTransaction" where
  "valid_or_default h ctx v = (if want_valid_transaction ctx then v else vt_default h)"

definition check_renew_signed ::
    "renewal_config \<Rightarrow> host \<Rightarrow> AccountId \<Rightarrow> TransactionRef \<Rightarrow> CheckContext \<Rightarrow> rts \<times> rn \<Rightarrow> renewal_check" where
  "check_renew_signed rc h who entry ctx sr =
     and_then (map_err (\<lambda>_. RENEWED_NOT_FOUND) (resolve_transaction_ref (fst sr) entry)) (\<lambda>info.
     if Renewals (snd sr) (ti_content_hash info) \<noteq> None then Inl RENEWAL_ALREADY_ENABLED
     else and_then (check_renew_authorization rc (Account who) (ti_size info)
                     (consume_authorization ctx) sr) (\<lambda>sr1.
       Inr ((valid_or_default h ctx (provides h (RenewTxParams rc) (who @ ti_content_hash info)),
             Some (Account who)), sr1)))"

definition check_force_renew_signed ::
    "rconf \<Rightarrow> renewal_config \<Rightarrow> host \<Rightarrow> AccountId \<Rightarrow> TransactionRef \<Rightarrow> CheckContext \<Rightarrow> rts \<times> rn \<Rightarrow> renewal_check" where
  "check_force_renew_signed cfg rc h who entry ctx sr =
     and_then (map_err (\<lambda>_. RENEWED_NOT_FOUND) (resolve_transaction_ref (fst sr) entry)) (\<lambda>info.
     and_then (authorize_renew cfg rc who (ti_content_hash info) (ti_size info)
                (consume_authorization ctx) sr) (\<lambda>(scope, sr1).
     Inr ((valid_or_default h ctx
            (case scope of
               Preimage hash \<Rightarrow> provides h (RenewTxParams rc) hash
             | _ \<Rightarrow> provides h (RenewTxParams rc) (who @ ti_content_hash info)),
           Some scope), sr1)))"

definition check_enable_auto_renew_signed ::
    "renewal_config \<Rightarrow> host \<Rightarrow> AccountId \<Rightarrow> ContentHash \<Rightarrow> CheckContext \<Rightarrow> rts \<times> rn \<Rightarrow> renewal_check" where
  "check_enable_auto_renew_signed rc h who content_hash ctx sr =
     (if Renewals (snd sr) content_hash \<noteq> None then Inl RENEWAL_ALREADY_ENABLED
      else and_then (ok_or (lookup_by_content_hash (fst sr) content_hash) RENEWED_NOT_FOUND) (\<lambda>(block, index).
      and_then (ok_or (transaction_info (fst sr) block index) RENEWED_NOT_FOUND) (\<lambda>info.
      and_then (check_renew_authorization rc (Account who) (ti_size info)
                 (consume_authorization ctx) sr) (\<lambda>sr1.
      Inr ((valid_or_default h ctx (provides h (RenewTxParams rc) (who @ ti_content_hash info)),
            Some (Account who)), sr1)))))"

definition check_disable_auto_renew_signed ::
    "renewal_config \<Rightarrow> host \<Rightarrow> AccountId \<Rightarrow> ContentHash \<Rightarrow> CheckContext \<Rightarrow> rts \<times> rn \<Rightarrow> renewal_check" where
  "check_disable_auto_renew_signed rc h who content_hash ctx sr =
     and_then (ok_or (Renewals (snd sr) content_hash) AUTO_RENEWAL_NOT_ENABLED) (\<lambda>data.
     if rd_account data \<noteq> who then Inl NOT_AUTO_RENEWAL_OWNER
     else if rd_paid data then Inl CANNOT_DISABLE_PREPAID_AUTO_RENEWAL
     else Inr ((valid_or_default h ctx (untagged h (RenewTxParams rc)), Some (Account who)), sr))"

fun check_renewal_signed ::
    "rconf \<Rightarrow> renewal_config \<Rightarrow> host \<Rightarrow> AccountId \<Rightarrow> RenewalCall \<Rightarrow> CheckContext \<Rightarrow> rts \<times> rn \<Rightarrow> renewal_check" where
  "check_renewal_signed cfg rc h who (RCall_renew entry) ctx sr =
     check_renew_signed rc h who entry ctx sr"
| "check_renewal_signed cfg rc h who (RCall_force_renew entry) ctx sr =
     check_force_renew_signed cfg rc h who entry ctx sr"
| "check_renewal_signed cfg rc h who (RCall_enable_auto_renew hash) ctx sr =
     check_enable_auto_renew_signed rc h who hash ctx sr"
| "check_renewal_signed cfg rc h who (RCall_disable_auto_renew hash) ctx sr =
     check_disable_auto_renew_signed rc h who hash ctx sr"
| "check_renewal_signed cfg rc h who RCall_process_pending_renewals ctx sr = Inl ITCall"

definition validate_renewal_signed ::
    "rconf \<Rightarrow> renewal_config \<Rightarrow> host \<Rightarrow> AccountId \<Rightarrow> RenewalCall \<Rightarrow> rts \<times> rn
      \<Rightarrow> InvalidTransaction + (ValidTransaction \<times> AuthorizationScope option)" where
  "validate_renewal_signed cfg rc h who call sr =
     map_ok fst (check_renewal_signed cfg rc h who call Validate sr)"

definition pre_dispatch_renewal_signed ::
    "rconf \<Rightarrow> renewal_config \<Rightarrow> host \<Rightarrow> AccountId \<Rightarrow> RenewalCall \<Rightarrow> rts \<times> rn
      \<Rightarrow> InvalidTransaction + (rts \<times> rn)" where
  "pre_dispatch_renewal_signed cfg rc h who call sr =
     map_ok snd (check_renewal_signed cfg rc h who call PreDispatch sr)"

section \<open>The hard-cap check\<close>

definition charged :: "u32 \<Rightarrow> PermanentExtent Authorization \<Rightarrow> PermanentExtent Authorization" where
  "charged sz a = note_transaction (set_extra
     (ae_extra (au_extent a)\<lparr>bytes_permanent := sat_add (bytes_permanent (ae_extra (au_extent a))) (u32_to_u64 sz)\<rparr>) a)"

lemma check_renew_authorization_eq:
  "check_renew_authorization rc scope sz consume (s, r) =
     (case get_active_authorization scope s of
        None \<Rightarrow> Inl ITPayment
      | Some a \<Rightarrow>
          if ae_bytes_allowance (au_extent a) < sat_add (bytes_permanent (ae_extra (au_extent a))) (u32_to_u64 sz)
          then Inl PERMANENT_ALLOWANCE_EXCEEDED
          else if MaxPermanentStorageSize rc < sat_add (PermanentStorageUsed r) (u32_to_u64 sz)
          then Inl CHAIN_PERMANENT_CAP_REACHED
          else if consume
          then Inr (s\<lparr>Authorizations := (Authorizations s)(scope \<mapsto> charged sz a)\<rparr>,
                    update_permanent_storage_used rc (\<lambda>u. sat_add u (u32_to_u64 sz)) r)
          else Inr (s, r))"
  by (cases "Authorizations s scope")
    (simp_all add: check_renew_authorization_def try_mutate_active_authorization_def charged_def
      get_active_authorization_def aa_extent_def Let_def)

lemma charged_frame [simp]:
  "ae_bytes_allowance (au_extent (charged sz a)) = ae_bytes_allowance (au_extent a)"
  "bytes_permanent (ae_extra (au_extent (charged sz a)))
     = sat_add (bytes_permanent (ae_extra (au_extent a))) (u32_to_u64 sz)"
  "ae_bytes (au_extent (charged sz a)) = ae_bytes (au_extent a)"
  "ae_transactions (au_extent (charged sz a)) = sat_add (ae_transactions (au_extent a)) 1"
  "au_expiration (charged sz a) = au_expiration a"
  by (simp_all add: charged_def)

lemma update_used [simp]:
  "PermanentStorageUsed (update_permanent_storage_used rc f r) = f (PermanentStorageUsed r)"
  "Renewals (update_permanent_storage_used rc f r) = Renewals r"
  "PendingRenewals (update_permanent_storage_used rc f r) = PendingRenewals r"
  by (simp_all add: update_permanent_storage_used_def r_event_def Let_def)

lemma r_event_frame [simp]:
  "Renewals (r_event e r) = Renewals r" "PendingRenewals (r_event e r) = PendingRenewals r"
  "PermanentStorageUsed (r_event e r) = PermanentStorageUsed r"
  by (simp_all add: r_event_def)

lemma active_is_stored:
  "get_active_authorization sc s = Some a \<Longrightarrow> Authorizations s sc = Some a \<and> \<not> expired a (now s)"
  by (auto simp: get_active_authorization_def split: option.splits if_splits)

section \<open>Effects of the registration calls\<close>

lemma ensure_authorized_simps [simp]:
  "ensure_authorized (StorageAuthorized who sc) = Inr (CallerSigned who sc)"
  "ensure_authorized Root = Inr CallerRoot"
  "ensure_authorized NoneOrigin = Inr CallerUnsigned"
  "ensure_authorized (Signed who) = Inl BadOrigin"
  "ensure_authorized GeneralAuthorized = Inl BadOrigin"
  "ensure_authorized (XcmOrigin l) = Inl BadOrigin"
  by (simp_all add: ensure_authorized_def ensure_root_def ensure_none_def)

definition registration :: "AccountId \<Rightarrow> bool \<Rightarrow> RenewalData" where
  "registration who recurring = \<lparr>rd_account = who, rd_recurring = recurring, rd_paid = True\<rparr>"

lemma renew_Inr:
  "renew orig entry (s, r) = Inr sr' \<longleftrightarrow>
     (\<exists>who sc info. orig = StorageAuthorized who sc \<and> resolve_transaction_ref s entry = Inr info
       \<and> Renewals r (ti_content_hash info) = None
       \<and> sr' = (s, r_event (EvRenewalEnabled (ti_content_hash info) who False)
           (r\<lparr>Renewals := (Renewals r)(ti_content_hash info \<mapsto> registration who False)\<rparr>)))"
  by (cases orig) (auto simp: renew_def res_simps registration_def Let_def)

lemma enable_auto_renew_Inr:
  "enable_auto_renew orig hash (s, r) = Inr sr' \<longleftrightarrow>
     (\<exists>who sc b i info. orig = StorageAuthorized who sc \<and> Renewals r hash = None
       \<and> lookup_by_content_hash s hash = Some (b, i) \<and> transaction_info s b i = Some info
       \<and> sr' = (s, r_event (EvRenewalEnabled hash who True)
           (r\<lparr>Renewals := (Renewals r)(hash \<mapsto> registration who True)\<rparr>)))"
  by (cases orig) (auto simp: enable_auto_renew_def res_simps registration_def Let_def)

lemma disable_auto_renew_Inr:
  "disable_auto_renew orig hash (s, r) = Inr sr' \<longleftrightarrow>
     (\<exists>data. Renewals r hash = Some data
       \<and> (orig = Root \<or> (\<exists>sc. orig = StorageAuthorized (rd_account data) sc \<and> \<not> rd_paid data))
       \<and> sr' = (s, r_event (EvAutoRenewalDisabled hash (rd_account data))
           (r\<lparr>Renewals := (Renewals r)(hash := None)\<rparr>)))"
  by (cases orig) (auto simp: disable_auto_renew_def res_simps Let_def)

lemma force_renew_Inr:
  "force_renew cfg h orig entry (s, r) = Inr sr' \<longleftrightarrow>
     (\<exists>info ext caller. ensure_authorized orig = (Inr caller :: RenewalError DispatchError + AuthorizedCaller)
       \<and> resolve_transaction_ref s entry = Inr info
       \<and> data_size_ok cfg (unat (ti_size info)) \<and> extrinsic_index s = Some ext
       \<and> length (BlockTransactions s) < unat (MaxBlockTransactions cfg)
       \<and> sr' = (host_call (HcRenew ext (ti_content_hash info))
             (append_entry h (info\<lparr>ti_extrinsic_index := ext, ti_meta := Renew\<rparr>) s),
           r_event (EvRenewed (of_nat (length (BlockTransactions s))) (ti_content_hash info)) r))"
  by (cases "ensure_authorized orig :: RenewalError DispatchError + AuthorizedCaller")
    (auto simp: force_renew_def do_renew_def Let_def res_simps with_renew_eq ensure_data_size_ok_def
      RenewMeta_renew_def split: if_splits)

lemmas registration_calls_Inr = renew_Inr enable_auto_renew_Inr disable_auto_renew_Inr force_renew_Inr

section \<open>The storage pallet's invariants, kept\<close>

text \<open>The state seen from outside the closure of \<open>with_block_transactions\<close>.\<close>

definition plain :: "('m, 'x) btm \<Rightarrow> ('m, 'x) ts" where
  "plain b = (snd b)\<lparr>BlockTransactions := fst b\<rparr>"

lemma with_block_transactions_plain:
  "with_block_transactions f s = (fst (f (BlockTransactions s, s)), plain (snd (f (BlockTransactions s, s))))"
  by (simp add: with_block_transactions_def plain_def case_prod_unfold Let_def)

lemma plain_borrow [simp]: "plain (BlockTransactions s, s) = s"
  by (simp add: plain_def)

lemma plain_renew_full:
  "unat (MaxBlockTransactions cfg) \<le> length (fst b) \<Longrightarrow> btm_renew cfg h tx ext m b = (None, b)"
  by (cases b) (simp add: btm_renew_def btm_push_eq)

lemma plain_renew:
  "length (fst b) < unat (MaxBlockTransactions cfg) \<Longrightarrow>
   fst (btm_renew cfg h tx ext m b) = Some (of_nat (length (fst b))) \<and>
   plain (snd (btm_renew cfg h tx ext m b)) =
     host_call (HcRenew ext (ti_content_hash tx))
       (append_entry h (tx\<lparr>ti_extrinsic_index := ext, ti_meta := m\<rparr>) (plain b))"
  by (cases b) (simp add: btm_renew_def btm_push_eq plain_def append_entry_eq host_call_def now_def)

lemma check_renew_plain:
  "check_renew_authorization rc sc sz c (s, r) = Inr (s1, r1) \<Longrightarrow>
   check_renew_authorization rc sc sz c (plain (es, s), r) = Inr (plain (es, s1), r1)"
  by (auto simp: check_renew_authorization_eq plain_def get_active_authorization_def now_def
      split: option.splits if_splits)

definition pending_ok :: "rconf \<Rightarrow> rn \<Rightarrow> bool" where
  "pending_ok cfg r \<longleftrightarrow> (\<forall>(hash, tx, data) \<in> set (PendingRenewals r).
     data_size_ok cfg (unat (ti_size tx)) \<and> ti_content_hash tx = hash)"

text \<open>Storage changes through this pallet in two ways: an authorization is charged for a renewal,
  and an entry is appended by a renewal.\<close>

locale renewal_keeps =
  fixes I :: "rts \<Rightarrow> bool" and cfg :: rconf and h :: host and rc :: renewal_config
  assumes renew_charge: "I s \<Longrightarrow> check_renew_authorization rc sc sz True (s, r) = Inr (s', r') \<Longrightarrow> I s'"
    and renew_append: "I s \<Longrightarrow> length (BlockTransactions s) < unat (MaxBlockTransactions cfg) \<Longrightarrow>
      data_size_ok cfg (unat (ti_size e)) \<Longrightarrow> I (host_call (HcRenew ext c) (append_entry h e s))"
begin

lemma check_renew_keeps:
  "I s \<Longrightarrow> check_renew_authorization rc sc sz c (s, r) = Inr (s', r') \<Longrightarrow> I s'"
  using renew_charge
  by (cases c) (auto simp: check_renew_authorization_eq split: option.splits if_splits)

lemma renew_append_keeps:
  "I (plain b) \<Longrightarrow> data_size_ok cfg (unat (ti_size tx)) \<Longrightarrow> I (plain (snd (btm_renew cfg h tx ext m b)))"
  using plain_renew [of b cfg h tx ext m] plain_renew_full [of cfg b h tx ext m]
  by (cases "length (fst b) < unat (MaxBlockTransactions cfg)")
    (auto simp: plain_def intro!: renew_append)

lemma drain_one_keeps:
  assumes I: "I (plain b)" and ok: "data_size_ok cfg (unat (ti_size tx))"
  shows "I (plain (snd (drain_one cfg rc h ext (hash, tx, data) (r, b))))"
proof -
  obtain es s where b: "b = (es, s)" by (cases b)
  obtain c s1 r1 where c: "drain_charge rc tx data (s, r) = (c, s1, r1)" by (metis prod_cases3)
  have I1: "I (plain (es, s1))"
  proof (cases "s1 = s")
    case False
    with c have "check_renew_authorization rc (Account (rd_account data)) (ti_size tx) True (s, r) = Inr (s1, r1)"
      by (auto simp: drain_charge_def split: if_splits sum.splits)
    from check_renew_keeps [OF _ check_renew_plain [OF this]] I show ?thesis by (simp add: b)
  qed (use I in \<open>simp add: b\<close>)
  have "snd (drain_one cfg rc h ext (hash, tx, data) (r, b))
      = (if c then snd (btm_renew cfg h tx ext RenewMeta_renew (es, s1)) else (es, s1))"
    by (auto simp: drain_one_def b c case_prod_unfold Let_def split: option.split)
  then show ?thesis using I1 renew_append_keeps [OF I1 ok] by simp
qed

lemma drain_keeps:
  "I (plain b) \<Longrightarrow> \<forall>(hash, tx, data) \<in> set items. data_size_ok cfg (unat (ti_size tx)) \<Longrightarrow>
   I (plain (snd (fold (drain_one cfg rc h ext) items (r, b))))"
proof (induction items arbitrary: r b)
  case Nil
  then show ?case by simp
next
  case (Cons item items)
  obtain hash tx data where item: "item = (hash, tx, data)" by (cases item)
  obtain r1 b1 where d: "drain_one cfg rc h ext item (r, b) = (r1, b1)" by (metis surj_pair)
  have "I (plain b1)" using drain_one_keeps [of b tx ext hash data r] Cons.prems d by (simp add: item)
  with Cons d show ?case by auto
qed

lemma process_pending_keeps:
  assumes "I s" and "pending_ok cfg r"
  shows "I (fst (snd (do_process_pending_renewals cfg rc h (s, r))))"
proof -
  have "I (plain (snd (fold (drain_one cfg rc h ext) (PendingRenewals r) (r1, BlockTransactions s, s))))" for ext r1
    using assms by (intro drain_keeps) (auto simp: pending_ok_def)
  with assms(1) show ?thesis
    by (auto simp: do_process_pending_renewals_def Let_def with_block_transactions_plain split: option.split)
qed

lemma renewal_dispatch_keeps:
  assumes "I s" and "pending_ok cfg r" and "renewal_dispatch cfg rc h orig call (s, r) = Inr (s', r')"
  shows "I s'"
proof (cases call)
  case RCall_process_pending_renewals
  with assms process_pending_keeps [OF assms(1,2)] show ?thesis
    by (auto simp: process_pending_renewals_def res_simps Let_def case_prod_unfold dest!: sym [of "(s', r')"])
qed (use assms in \<open>auto simp: registration_calls_Inr intro!: renew_append\<close>)

lemma check_renewal_signed_keeps:
  "I s \<Longrightarrow> check_renewal_signed cfg rc h who call ctx (s, r) = Inr (v, s', r') \<Longrightarrow> I s'"
  by (cases call) (auto simp: check_renew_signed_def check_force_renew_signed_def authorize_renew_def
      check_enable_auto_renew_signed_def check_disable_auto_renew_signed_def res_simps
      intro: check_renew_keeps split: if_splits sum.splits)

lemma renewal_pre_dispatch_keeps:
  "I s \<Longrightarrow> renewal_pre_dispatch cfg rc h call (s, r) = Inr (s', r') \<Longrightarrow> I s'"
  by (cases call) (auto simp: renewal_pre_dispatch_def check_renew_unsigned_def res_simps
      intro: check_renew_keeps split: if_splits)

end

text \<open>Every invariant of the storage pallet is one.\<close>

locale renewal_invariant = storage_invariant I cfg h
  for I :: "rts \<Rightarrow> bool" and cfg :: rconf and h :: host + fixes rc :: renewal_config

sublocale renewal_invariant \<subseteq> keeps: renewal_keeps I cfg h rc
proof
  fix s r s' r' sc sz
  assume "I s" "check_renew_authorization rc sc sz True (s, r) = Inr (s', r')"
  then show "I s'"
    by (auto simp: check_renew_authorization_eq intro!: amend dest!: active_is_stored
        split: option.splits if_splits)
qed (auto intro: append)

interpretation rprov: renewal_invariant providers_balanced cfg h rc for cfg h rc by unfold_locales

interpretation rcaps: renewal_invariant caps_ok cfg h rc for cfg h rc by unfold_locales

interpretation rinv: renewal_invariant "storage_inv cfg h True" cfg h rc for cfg h rc by unfold_locales

end
