(* ===== verification/Auth_Predicate.thy ===== *)
theory Auth_Predicate
  imports Storage_Calls
begin

text \<open>
  Properties of single authorizations that every call keeps. The locale asks for them on the
  four ways an authorization comes about or changes (fresh grant, repeated grant, refresh,
  consumption), and gives them for whole calls and checks. One interpretation: no authorization
  runs past one authorization period from now. The renewal pallet adds another.
\<close>

definition all_auth :: "(BlockNumber \<Rightarrow> AuthorizationScope \<Rightarrow> 'x Authorization \<Rightarrow> bool) \<Rightarrow> ('m, 'x) ts \<Rightarrow> bool" where
  "all_auth P s \<longleftrightarrow> (\<forall>sc a. Authorizations s sc = Some a \<longrightarrow> P (now s) sc a)"

lemma all_auth_update:
  "all_auth P s \<Longrightarrow> Authorizations s' = (Authorizations s)(sc \<mapsto> a) \<Longrightarrow> block_number s' = block_number s \<Longrightarrow>
   P (now s) sc a \<Longrightarrow> all_auth P s'"
  by (simp add: all_auth_def now_def)

lemma all_auth_frame:
  "all_auth P s \<Longrightarrow> Authorizations s' = Authorizations s \<Longrightarrow> block_number s' = block_number s \<Longrightarrow> all_auth P s'"
  by (simp add: all_auth_def now_def)

locale authorization_predicate =
  fixes P :: "BlockNumber \<Rightarrow> AuthorizationScope \<Rightarrow> 'x Authorization \<Rightarrow> bool" and cfg :: "('m, 'x) config"
  assumes P_fresh: "e \<le> sat_add n (AuthorizationPeriod cfg) \<Longrightarrow>
      P n sc \<lparr>au_extent = fresh_extent (AuthorizationExtra_default cfg) t bytes, au_expiration = e\<rparr>"
    and P_again: "e \<le> sat_add n (AuthorizationPeriod cfg) \<Longrightarrow> P n sc a \<Longrightarrow>
      P n sc (regrant (AuthorizationExtra_default cfg) n e sc t bytes a)"
    and P_refreshed: "e \<le> sat_add n (AuthorizationPeriod cfg) \<Longrightarrow> P n sc a \<Longrightarrow> P n sc (a\<lparr>au_expiration := e\<rparr>)"
    and P_consumed: "P n sc a \<Longrightarrow> P n sc (consume_extent sz a)"
begin

lemma clamp_le: "clamp auth e \<le> e"
  by (simp add: clamp_def split: option.split)

lemma authorize_all:
  assumes all: "all_auth P s" and ok: "authorize cfg sc t bytes auth s = Inr s'"
  shows "all_auth P s'"
  using ok
proof (cases rule: authorize_cases)
  case (fresh s1)
  then show ?thesis
    using all charge_frame [OF fresh(1)]
    by (intro all_auth_update [of P s s' sc]) (auto intro!: P_fresh clamp_le simp: now_def)
next
  case (again s1 a)
  then have "P (now s) sc a" using all charge_frame(1) [OF again(1)] by (simp add: all_auth_def)
  note grant = P_again [OF clamp_le this]
  show ?thesis
    using charge_frame [OF again(1)] again(3) by (intro all_auth_update [OF all _ _ grant]) auto
qed

lemma refresh_all:
  assumes "all_auth P s" and "refresh_authorization cfg sc auth s = Inr s'"
  shows "all_auth P s'"
  using assms
  by (auto simp: refresh_authorization_def all_auth_def now_def Let_def
      intro!: P_refreshed clamp_le split: option.splits if_splits)

lemma remove_all: "all_auth P s \<Longrightarrow> remove_expired_authorization sc s = Inr s' \<Longrightarrow> all_auth P s'"
  by (auto simp: remove_expired_authorization_def res_simps all_auth_def now_def split: if_splits)

lemma check_authorization_all: "all_auth P s \<Longrightarrow> check_authorization sc n c s = Inr s' \<Longrightarrow> all_auth P s'"
  by (auto simp: check_authorization_def all_auth_def now_def P_consumed split: option.splits if_splits)

lemma event_all [simp]: "all_auth P (deposit_event e s) = all_auth P s"
  by (simp add: all_auth_def now_def)

lemma do_store_all: "all_auth P s \<Longrightarrow> do_store cfg h data hashing codec s = Inr s' \<Longrightarrow> all_auth P s'"
  by (auto dest!: do_store_Inr elim!: all_auth_frame)

lemma pre_dispatch_signed_all: "all_auth P s \<Longrightarrow> pre_dispatch_signed cfg h who call s = Inr s' \<Longrightarrow> all_auth P s'"
  by (cases call) (auto simp: pre_dispatch_signed_def check_signed_store_def check_authorizer_def Let_def
      res_simps intro: check_authorization_all split: if_splits)

lemma pre_dispatch_all: "all_auth P s \<Longrightarrow> pre_dispatch cfg h call s = Inr s' \<Longrightarrow> all_auth P s'"
  by (cases call) (auto simp: pre_dispatch_def check_store_unsigned_def res_simps
      intro: check_authorization_all split: if_splits)

lemma dispatch_all:
  assumes all: "all_auth P s" and ok: "dispatch cfg h orig call s = Inr s'"
  shows "all_auth P s'"
proof (cases call)
  case (Call_apply_block_inherents p)
  then show ?thesis
    using assms by (auto simp: apply_block_inherents_def do_check_proof_Inr res_simps
        elim!: all_auth_frame split: option.splits)
next
  case (Call_add_authorizer who b)
  then show ?thesis
    using assms by (auto simp: add_authorizer_def Let_def res_simps provider_op_defs elim!: all_auth_frame)
next
  case (Call_remove_authorizer who)
  then show ?thesis
    using assms by (auto simp: remove_authorizer_def res_simps provider_op_defs elim!: all_auth_frame
        split: if_splits)
next
  case (Call_remove_exhausted_authorizer who)
  then show ?thesis
    using assms by (auto simp: remove_exhausted_authorizer_def res_simps provider_op_defs elim!: all_auth_frame)
qed (use assms in \<open>auto simp: store_def store_with_cid_config_def authorize_account_def authorize_preimage_def
      remove_expired_account_authorization_def remove_expired_preimage_authorization_def
      refresh_account_authorization_def refresh_preimage_authorization_def res_simps
      intro: authorize_all refresh_all remove_all do_store_all\<close>)

end

definition expiry_bounded :: "('m, 'x) config \<Rightarrow> BlockNumber \<Rightarrow> AuthorizationScope \<Rightarrow> 'x Authorization \<Rightarrow> bool" where
  "expiry_bounded cfg n sc a \<longleftrightarrow> au_expiration a \<le> sat_add n (AuthorizationPeriod cfg)"

interpretation expiry: authorization_predicate "expiry_bounded cfg" cfg for cfg :: "('m, 'x) config"
  by unfold_locales
    (auto simp: expiry_bounded_def regrant_def consume_extent_def Let_def split: AuthorizationScope.split)

end
