(* ===== verification/Renewal_Invariant.thy ===== *)
theory Renewal_Invariant
  imports Renewal_Calls Auth_Predicate
begin

text \<open>
  What the data-renewal pallet guarantees: the chain-wide counter of renewed bytes never
  exceeds its cap, no account renews more bytes in a window than it was granted, the queue of
  due renewals holds admissible entries only and is empty after the drain, and the sweep
  queues exactly the registered entries that are about to leave storage.
\<close>

section \<open>The chain-wide cap\<close>

definition used_ok :: "renewal_config \<Rightarrow> rn \<Rightarrow> bool" where
  "used_ok rc r \<longleftrightarrow> PermanentStorageUsed r \<le> MaxPermanentStorageSize rc"

lemma check_renew_used:
  assumes "check_renew_authorization rc sc sz c (s, r) = Inr (s', r')"
  shows "PermanentStorageUsed r' = (if c then sat_add (PermanentStorageUsed r) (u32_to_u64 sz)
      else PermanentStorageUsed r)"
    and "used_ok rc r \<Longrightarrow> used_ok rc r'"
    and "Renewals r' = Renewals r" and "PendingRenewals r' = PendingRenewals r"
  using assms by (auto simp: check_renew_authorization_eq used_ok_def split: option.splits if_splits)

lemma check_renew_frame:
  assumes "check_renew_authorization rc sc sz c (s, r) = Inr (s1, r1)"
  shows "resolve_transaction_ref s1 e = resolve_transaction_ref s e"
    and "lookup_by_content_hash s1 = lookup_by_content_hash s" and "transaction_info s1 = transaction_info s"
    and "Renewals r1 = Renewals r" and "extrinsic_index s1 = extrinsic_index s"
    and "BlockTransactions s1 = BlockTransactions s"
proof -
  have "s1 = s\<lparr>Authorizations := Authorizations s1\<rparr>" "Renewals r1 = Renewals r"
    using assms by (auto simp: check_renew_authorization_eq split: option.splits if_splits)
  then obtain A where "s1 = s\<lparr>Authorizations := A\<rparr>" "Renewals r1 = Renewals r" by blast
  then show "resolve_transaction_ref s1 e = resolve_transaction_ref s e"
    "lookup_by_content_hash s1 = lookup_by_content_hash s" "transaction_info s1 = transaction_info s"
    "Renewals r1 = Renewals r" "extrinsic_index s1 = extrinsic_index s" "BlockTransactions s1 = BlockTransactions s"
    by (auto simp: resolve_transaction_ref_def lookup_by_content_hash_def transaction_info_def tx_get_def fun_eq_iff
        split: TransactionRef.split)
qed

lemma drain_charge_used:
  assumes "drain_charge rc tx data (s, r) = (c, s1, r1)"
  shows "used_ok rc r \<Longrightarrow> used_ok rc r1" and "Renewals r1 = Renewals r"
    and "PendingRenewals r1 = PendingRenewals r"
  using assms check_renew_used [of rc _ _ True s r]
  by (auto simp: drain_charge_def split: if_splits sum.splits)

lemma used_ok_mono: "used_ok rc r \<Longrightarrow> PermanentStorageUsed r' \<le> PermanentStorageUsed r \<Longrightarrow> used_ok rc r'"
  by (auto simp: used_ok_def)

lemma drain_renewed_frame [simp]:
  "PermanentStorageUsed (drain_renewed hash data i r) = PermanentStorageUsed r"
  "PendingRenewals (drain_renewed hash data i r) = PendingRenewals r"
  by (simp_all add: drain_renewed_def)

lemma drain_failed_frame [simp]:
  "PermanentStorageUsed (drain_failed rc hash tx data c r) =
     (if c then sat_sub (PermanentStorageUsed r) (u32_to_u64 (ti_size tx)) else PermanentStorageUsed r)"
  "PendingRenewals (drain_failed rc hash tx data c r) = PendingRenewals r"
  by (simp_all add: drain_failed_def Let_def)

lemma drain_one_registry:
  assumes "drain_charge rc tx data (s, r) = (c, s1, r1)"
  obtains i where "fst (drain_one cfg rc h ext (hash, tx, data) (r, es, s)) = drain_renewed hash data i r1"
  | "fst (drain_one cfg rc h ext (hash, tx, data) (r, es, s)) = drain_failed rc hash tx data c r1"
proof -
  obtain ni es2 s2 where
    "(if c then btm_renew cfg h tx ext RenewMeta_renew (es, s1) else (None, es, s1)) = (ni, es2, s2)"
    by (metis prod_cases3)
  then show thesis using that assms by (cases ni) (simp_all add: drain_one_def)
qed

lemma drain_one_pending:
  "PendingRenewals (fst (drain_one cfg rc h ext item (r, b))) = PendingRenewals r"
proof -
  obtain hash tx data es s where eq: "item = (hash, tx, data)" "b = (es, s)" by (metis prod_cases3 surj_pair)
  obtain c s1 r1 where c: "drain_charge rc tx data (s, r) = (c, s1, r1)" by (metis prod_cases3)
  show ?thesis
    using drain_charge_used(3) [OF c]
    by (cases rule: drain_one_registry [OF c, of cfg h ext hash es]) (simp_all add: eq)
qed

lemma drain_one_used:
  assumes "used_ok rc r"
  shows "used_ok rc (fst (drain_one cfg rc h ext item (r, b)))"
proof -
  obtain hash tx data es s where eq: "item = (hash, tx, data)" "b = (es, s)" by (metis prod_cases3 surj_pair)
  obtain c s1 r1 where c: "drain_charge rc tx data (s, r) = (c, s1, r1)" by (metis prod_cases3)
  have "used_ok rc (drain_failed rc hash tx data c r1)" "used_ok rc (drain_renewed hash data i r1)" for i
    using drain_charge_used(1) [OF c assms] by (auto elim!: used_ok_mono simp: sat_sub_le_left)
  then show ?thesis
    by (cases rule: drain_one_registry [OF c, of cfg h ext hash es]) (simp_all add: eq)
qed

lemma drain_pending:
  "PendingRenewals (fst (fold (drain_one cfg rc h ext) items rb)) = PendingRenewals (fst rb)"
proof (induction items arbitrary: rb)
  case (Cons item items)
  then show ?case using drain_one_pending [of cfg rc h ext item "fst rb" "snd rb"] by simp
qed simp

lemma drain_used:
  "used_ok rc (fst rb) \<Longrightarrow> used_ok rc (fst (fold (drain_one cfg rc h ext) items rb))"
proof (induction items arbitrary: rb)
  case (Cons item items)
  then show ?case using drain_one_used [of rc "fst rb" cfg h ext item "snd rb"] by simp
qed simp

lemma fail_used:
  "PermanentStorageUsed (fold fail_one items r) = PermanentStorageUsed r
     \<and> PendingRenewals (fold fail_one items r) = PendingRenewals r"
  by (induction items arbitrary: r) (auto simp: fail_one_def case_prod_unfold Let_def)

lemma process_pending_used:
  assumes "used_ok rc r"
  shows "used_ok rc (snd (snd (do_process_pending_renewals cfg rc h (s, r))))"
proof -
  have r1: "used_ok rc (r\<lparr>PendingRenewals := []\<rparr>)" using assms by (simp add: used_ok_def)
  show ?thesis
    using drain_used [of rc "(r\<lparr>PendingRenewals := []\<rparr>, _)"] r1
      fail_used [of "PendingRenewals r" "r\<lparr>PendingRenewals := []\<rparr>"]
    by (auto simp: do_process_pending_renewals_def Let_def with_block_transactions_plain
        used_ok_def split: option.split)
qed

text \<open>The inherent empties the queue, whatever happens to its items.\<close>

lemma process_pending_drains:
  "PendingRenewals (snd (snd (do_process_pending_renewals cfg rc h (s, r)))) = []"
  using fail_used [of "PendingRenewals r" "r\<lparr>PendingRenewals := []\<rparr>"]
  by (auto simp: do_process_pending_renewals_def Let_def with_block_transactions_plain drain_pending
      split: option.split)

lemma handle_obsolete_used: "used_ok rc r \<Longrightarrow> used_ok rc (handle_obsolete cfg rc b items r)"
  by (auto simp: handle_obsolete_def Let_def elim!: used_ok_mono intro: sat_sub_le_left)

lemma renewal_dispatch_used:
  assumes "used_ok rc r" and "renewal_dispatch cfg rc h orig call (s, r) = Inr (s', r')"
  shows "used_ok rc r'"
proof (cases call)
  case RCall_process_pending_renewals
  with assms process_pending_used [OF assms(1), of cfg h s] show ?thesis
    by (auto simp: process_pending_renewals_def res_simps Let_def case_prod_unfold dest!: sym [of "(s', r')"])
qed (use assms in \<open>auto simp: registration_calls_Inr used_ok_def\<close>)

lemma check_renewal_signed_used:
  "used_ok rc r \<Longrightarrow> check_renewal_signed cfg rc h who call ctx (s, r) = Inr (v, s', r') \<Longrightarrow> used_ok rc r'"
  by (cases call) (auto simp: check_renew_signed_def check_force_renew_signed_def authorize_renew_def
      check_enable_auto_renew_signed_def check_disable_auto_renew_signed_def res_simps
      intro: check_renew_used(2) split: if_splits sum.splits)

lemma renewal_pre_dispatch_used:
  "used_ok rc r \<Longrightarrow> renewal_pre_dispatch cfg rc h call (s, r) = Inr (s', r') \<Longrightarrow> used_ok rc r'"
  by (cases call) (auto simp: renewal_pre_dispatch_def check_renew_unsigned_def res_simps
      intro: check_renew_used(2) split: if_splits)

section \<open>The per-account cap\<close>

definition permanent_within :: "BlockNumber \<Rightarrow> AuthorizationScope \<Rightarrow> PermanentExtent Authorization \<Rightarrow> bool" where
  "permanent_within n sc a \<longleftrightarrow> (case sc of
     Account _ \<Rightarrow> bytes_permanent (ae_extra (au_extent a)) \<le> ae_bytes_allowance (au_extent a)
   | Preimage _ \<Rightarrow> True)"

text \<open>\<open>PermanentExtent::default()\<close>.\<close>

definition PermanentExtent_default :: PermanentExtent where
  "PermanentExtent_default = \<lparr>bytes_permanent = 0\<rparr>"

definition renewal_wired :: "rconf \<Rightarrow> rconf" where
  "renewal_wired cfg = cfg\<lparr>AuthorizationExtra_default := PermanentExtent_default\<rparr>"

lemma renewal_wired_id: "AuthorizationExtra_default cfg = PermanentExtent_default \<Longrightarrow> renewal_wired cfg = cfg"
  unfolding renewal_wired_def by (metis config.surjective config.update_convs(12))

interpretation perm: authorization_predicate permanent_within "renewal_wired cfg" for cfg
proof
  fix e n sc t bytes and a :: "PermanentExtent Authorization"
  assume "permanent_within n sc a"
  moreover have "ae_bytes_allowance (au_extent a) \<le> sat_add (ae_bytes_allowance (au_extent a)) bytes"
    by (rule sat_add_ge_left)
  ultimately show "permanent_within n sc (regrant (AuthorizationExtra_default (renewal_wired cfg)) n e sc t bytes a)"
    by (auto simp: permanent_within_def regrant_def Let_def renewal_wired_def PermanentExtent_default_def
        split: AuthorizationScope.splits)
qed (auto simp: permanent_within_def fresh_extent_def consume_extent_def Let_def renewal_wired_def
    PermanentExtent_default_def split: AuthorizationScope.splits)

lemma check_renew_permanent:
  assumes "all_auth permanent_within s" and "check_renew_authorization rc sc sz c (s, r) = Inr (s', r')"
  shows "all_auth permanent_within s'"
proof (cases "get_active_authorization sc s")
  case None
  with assms(2) show ?thesis by (simp add: check_renew_authorization_eq)
next
  case (Some a)
  then have "s' = s \<or> s' = s\<lparr>Authorizations := (Authorizations s)(sc \<mapsto> charged sz a)\<rparr>"
    and "permanent_within (now s) sc (charged sz a)"
    using assms(2) by (auto simp: check_renew_authorization_eq permanent_within_def not_less
        split: if_splits AuthorizationScope.split)
  with assms(1) show ?thesis by (auto intro!: all_auth_update [of permanent_within s _ sc "charged sz a"])
qed

interpretation rperm: renewal_keeps "all_auth permanent_within" cfg h rc for cfg h rc
  by unfold_locales (auto intro: check_renew_permanent elim: all_auth_frame)

lemma check_renew_expiry:
  "all_auth (expiry_bounded cfg) s \<Longrightarrow> check_renew_authorization rc sc sz c (s, r) = Inr (s', r') \<Longrightarrow>
   all_auth (expiry_bounded cfg) s'"
  by (auto simp: check_renew_authorization_eq all_auth_def expiry_bounded_def now_def
      dest!: active_is_stored split: option.splits if_splits)

interpretation rexp: renewal_keeps "all_auth (expiry_bounded cfg')" cfg h rc for cfg' cfg h rc
  by unfold_locales (auto intro: check_renew_expiry elim: all_auth_frame)

section \<open>The queue\<close>

fun due :: "(ContentHash \<rightharpoonup> RenewalData) \<Rightarrow> (info \<times> bool) list \<Rightarrow> (ContentHash \<times> info \<times> RenewalData) list" where
  "due renewals [] = []"
| "due renewals ((tx, is_latest) # items) =
     (case (if is_latest then renewals (ti_content_hash tx) else None) of
        None \<Rightarrow> due renewals items
      | Some data \<Rightarrow> (ti_content_hash tx, tx, data) # due renewals items)"

lemma length_due: "length (due renewals items) \<le> length items"
  by (induction items) (auto split: option.split intro: le_SucI)

lemma set_due:
  "(c, t, d) \<in> set (due renewals items) \<longleftrightarrow>
     (t, True) \<in> set items \<and> ti_content_hash t = c \<and> renewals c = Some d"
  by (induction renewals items rule: due.induct) (auto split: option.split)

lemma queue_items:
  "length pending + length items \<le> unat bound \<Longrightarrow>
   fold (queue_item bound renewals) items pending = pending @ due renewals items"
proof (induction items arbitrary: pending)
  case Nil
  then show ?case by simp
next
  case (Cons item items)
  then show ?case
    by (cases item) (auto simp: queue_item_def Let_def try_push_def split: option.split)
qed

lemma handle_obsolete_queue:
  assumes "PendingRenewals r = []" and "length items \<le> unat (MaxBlockTransactions cfg)"
  shows "PendingRenewals (handle_obsolete cfg rc b items r) = due (Renewals r) items"
    and "Renewals (handle_obsolete cfg rc b items r) = Renewals r"
    and "PermanentStorageUsed (handle_obsolete cfg rc b items r)
      = sat_sub (PermanentStorageUsed r) (renewed_bytes items)"
  using assms queue_items [of "[]" items "MaxBlockTransactions cfg" "Renewals r"]
  by (auto simp: handle_obsolete_def Let_def word_gt_0 sat_sub_def)

lemma due_pending_ok:
  assumes "\<forall>t\<in>set txs. data_size_ok cfg (unat (ti_size t))"
    and "PendingRenewals r = due renewals (flag_latest b txs index)"
  shows "pending_ok cfg r"
  using assms flag_latest_hash
  by (fastforce simp: pending_ok_def set_due)

section \<open>Prepaid renewals are delivered\<close>

text \<open>With room for every queued item, each prepaid one is stored again in the current block.\<close>

lemma drain_charge_paid [simp]: "rd_paid data \<Longrightarrow> drain_charge rc tx data sr = (True, sr)"
  by (simp add: drain_charge_def)

lemma drain_charge_state:
  assumes "drain_charge rc tx data (s, r) = (c, s1, r1)"
  shows "TransactionByContentHash s1 = TransactionByContentHash s \<and> block_number s1 = block_number s"
  using assms by (auto simp: drain_charge_def check_renew_authorization_eq
      split: if_splits sum.splits option.splits)

lemma drain_one_state:
  assumes "length (fst b) < unat (MaxBlockTransactions cfg)"
    and st_def: "st = snd (drain_one cfg rc h ext (hash, tx, data) (r, b))"
  shows "length (fst st) \<le> Suc (length (fst b))" and "block_number (snd st) = block_number (snd b)"
    and "points_at (TransactionByContentHash (snd b)) c (block_number (snd b)) \<Longrightarrow>
      points_at (TransactionByContentHash (snd st)) c (block_number (snd b))"
    and "rd_paid data \<Longrightarrow> points_at (TransactionByContentHash (snd st)) (ti_content_hash tx) (block_number (snd b))"
proof -
  obtain es s where b: "b = (es, s)" by (cases b)
  obtain ch s1 r1 where c: "drain_charge rc tx data (s, r) = (ch, s1, r1)" by (metis prod_cases3)
  have st: "st = (if ch then snd (btm_renew cfg h tx ext RenewMeta_renew (es, s1)) else (es, s1))"
    unfolding st_def using c assms(1)
    by (auto simp: drain_one_def b btm_renew_def btm_push_eq)
  note s1 = drain_charge_state [OF c]
  show "length (fst st) \<le> Suc (length (fst b))" "block_number (snd st) = block_number (snd b)"
    using s1 assms(1) by (simp_all add: st b btm_renew_def btm_push_eq)
  show "points_at (TransactionByContentHash (snd st)) c (block_number (snd b))"
    if "points_at (TransactionByContentHash (snd b)) c (block_number (snd b))"
    using that s1 assms(1) by (auto simp: st b btm_renew_def btm_push_eq points_at_def now_def)
  show "points_at (TransactionByContentHash (snd st)) (ti_content_hash tx) (block_number (snd b))"
    if "rd_paid data"
    using that s1 c assms(1) by (auto simp: st b btm_renew_def btm_push_eq points_at_def now_def)
qed

lemma drain_delivers:
  assumes "length (fst b) + length items \<le> unat (MaxBlockTransactions cfg)"
    and "(\<exists>hash tx data. (hash, tx, data) \<in> set items \<and> rd_paid data \<and> ti_content_hash tx = c)
      \<or> points_at (TransactionByContentHash (snd b)) c (block_number (snd b))"
  shows "points_at (TransactionByContentHash (snd (snd (fold (drain_one cfg rc h ext) items (r, b)))))
      c (block_number (snd b))"
  using assms
proof (induction items arbitrary: r b)
  case Nil
  then show ?case by simp
next
  case (Cons item items)
  obtain hash tx data where item: "item = (hash, tx, data)" by (cases item)
  obtain r1 b1 where d: "drain_one cfg rc h ext item (r, b) = (r1, b1)" by (metis surj_pair)
  have room: "length (fst b) < unat (MaxBlockTransactions cfg)" using Cons.prems(1) by simp
  note step = drain_one_state [OF room, of b1 rc h ext hash tx data r, folded item, unfolded d, simplified]
  have "points_at (TransactionByContentHash (snd (snd (fold (drain_one cfg rc h ext) items (r1, b1)))))
      c (block_number (snd b1))"
  proof (rule Cons.IH)
    show "length (fst b1) + length items \<le> unat (MaxBlockTransactions cfg)"
      using Cons.prems(1) step(1) by simp
    show "(\<exists>hash tx data. (hash, tx, data) \<in> set items \<and> rd_paid data \<and> ti_content_hash tx = c)
        \<or> points_at (TransactionByContentHash (snd b1)) c (block_number (snd b1))"
      using Cons.prems(2) step(2,3,4) by (auto simp: item)
  qed
  then show ?case using d step(2) by simp
qed

end
