(* ===== verification/Extension.thy ===== *)
theory Extension
  imports Renewal_Invariant
begin

text \<open>
  The transaction extensions of \<open>pallets/transaction-storage/src/extension.rs\<close>, the renewal
  leaves of \<open>pallets/data-renewal/src/extension.rs\<close>, the wrapper inspection of
  \<open>pallets/common/src/lib.rs\<close> and \<open>StorageCallInspector\<close> of the runtimes. A signed
  extrinsic is walked through the utility wrappers; leaf validators claim the calls they know.
  \<open>leaf_validator\<close> is the contract of a leaf validator, met by both pallets and by their
  tuple; \<open>boost_strategy\<close> is the contract of a priority boost, met by both strategies.
\<close>

section \<open>Runtime calls and wrappers\<close>

datatype RuntimeCall =
    RC_TransactionStorage Call
  | RC_DataRenewal RenewalCall
  | RC_Utility UtilityCall
  | RC_Sudo RuntimeCall
  | RC_Other nat
and UtilityCall =
    U_batch "RuntimeCall list"
  | U_batch_all "RuntimeCall list"
  | U_force_batch "RuntimeCall list"
  | U_as_derivative RuntimeCall
  | U_dispatch_as RuntimeCall
  | U_with_weight RuntimeCall
  | U_dispatch_as_fallible RuntimeCall
  | U_if_else RuntimeCall RuntimeCall

fun utility_inner_calls :: "UtilityCall \<Rightarrow> RuntimeCall list" where
  "utility_inner_calls (U_batch calls) = calls"
| "utility_inner_calls (U_batch_all calls) = calls"
| "utility_inner_calls (U_force_batch calls) = calls"
| "utility_inner_calls (U_as_derivative call) = [call]"
| "utility_inner_calls (U_dispatch_as call) = [call]"
| "utility_inner_calls (U_with_weight call) = [call]"
| "utility_inner_calls (U_dispatch_as_fallible call) = [call]"
| "utility_inner_calls (U_if_else main fallback) = [main, fallback]"

definition inspect_utility_wrapper :: "UtilityCall \<Rightarrow> RuntimeCall list option" where
  "inspect_utility_wrapper call =
     (let inner = utility_inner_calls call in if inner = [] then None else Some inner)"

text \<open>\<open>StorageCallInspector::inspect_wrapper\<close>: sudo is not inspected.\<close>

fun inspect_wrapper :: "RuntimeCall \<Rightarrow> RuntimeCall list option" where
  "inspect_wrapper (RC_Utility c) = inspect_utility_wrapper c"
| "inspect_wrapper _ = None"

definition MAX_WRAPPER_DEPTH :: nat where
  "MAX_WRAPPER_DEPTH = 8"

fun is_sub_type :: "RuntimeCall \<Rightarrow> Call option" where
  "is_sub_type (RC_TransactionStorage c) = Some c"
| "is_sub_type _ = None"

fun is_store_call :: "Call \<Rightarrow> bool" where
  "is_store_call (Call_store _) = True"
| "is_store_call (Call_store_with_cid_config _ _) = True"
| "is_store_call _ = False"

function is_storage_mutating_call :: "RuntimeCall \<Rightarrow> nat \<Rightarrow> bool" where
  "is_storage_mutating_call call depth =
     (case is_sub_type call of
        Some inner_call \<Rightarrow> is_store_call inner_call
      | None \<Rightarrow>
          if MAX_WRAPPER_DEPTH \<le> depth then True
          else case inspect_wrapper call of
            Some inner_calls \<Rightarrow> list_ex (\<lambda>inner. is_storage_mutating_call inner (depth + 1)) inner_calls
          | None \<Rightarrow> False)"
  by pat_completeness auto
termination
  by (relation "measure (\<lambda>(c, d). MAX_WRAPPER_DEPTH - d)") auto

declare is_storage_mutating_call.simps [simp del]

text \<open>\<open>Contains<RuntimeCall> for StorageCallInspector\<close>, negated by the XCM call filter.\<close>

definition inspector_contains :: "RuntimeCall \<Rightarrow> bool" where
  "inspector_contains call = is_storage_mutating_call call 0"

section \<open>Leaf validators\<close>

type_synonym LeafValidation = "(ValidTransaction \<times> AuthorizationScope option) option"

record 's LeafValidator =
  validate_leaf :: "AccountId \<Rightarrow> RuntimeCall \<Rightarrow> nat \<Rightarrow> 's \<Rightarrow> InvalidTransaction + LeafValidation"
  prepare_leaf :: "AccountId \<Rightarrow> RuntimeCall \<Rightarrow> nat \<Rightarrow> 's \<Rightarrow> InvalidTransaction + (bool \<times> 's)"
  leaf_weight :: "RuntimeCall \<Rightarrow> Weight"

definition weight_add :: "Weight \<Rightarrow> Weight \<Rightarrow> Weight" where
  "weight_add a b = (sat_add (fst a) (fst b), sat_add (snd a) (snd b))"

text \<open>\<open>LeafValidator for Tuple\<close>: the first member that claims the call decides.\<close>

fun tuple_validate ::
    "'s LeafValidator list \<Rightarrow> AccountId \<Rightarrow> RuntimeCall \<Rightarrow> nat \<Rightarrow> 's \<Rightarrow> InvalidTransaction + LeafValidation" where
  "tuple_validate [] who call depth s = Inr None"
| "tuple_validate (l # ls) who call depth s =
     (case validate_leaf l who call depth s of
        Inl e \<Rightarrow> Inl e
      | Inr (Some r) \<Rightarrow> Inr (Some r)
      | Inr None \<Rightarrow> tuple_validate ls who call depth s)"

fun tuple_prepare ::
    "'s LeafValidator list \<Rightarrow> AccountId \<Rightarrow> RuntimeCall \<Rightarrow> nat \<Rightarrow> 's \<Rightarrow> InvalidTransaction + (bool \<times> 's)" where
  "tuple_prepare [] who call depth s = Inr (False, s)"
| "tuple_prepare (l # ls) who call depth s =
     (case prepare_leaf l who call depth s of
        Inl e \<Rightarrow> Inl e
      | Inr (True, s1) \<Rightarrow> Inr (True, s1)
      | Inr (False, s1) \<Rightarrow> tuple_prepare ls who call depth s1)"

definition LeafTuple :: "'s LeafValidator list \<Rightarrow> 's LeafValidator" where
  "LeafTuple ls = \<lparr>validate_leaf = tuple_validate ls, prepare_leaf = tuple_prepare ls,
     leaf_weight = (\<lambda>call. fold (\<lambda>l w. weight_add w (leaf_weight l call)) ls (0, 0))\<rparr>"

text \<open>The leaves of the storage pallet; the state also carries the renewal pallet's.\<close>

definition StorageLeaves :: "(u32 \<Rightarrow> Weight) \<Rightarrow> rconf \<Rightarrow> host \<Rightarrow> (rts \<times> rn) LeafValidator" where
  "StorageLeaves validate_store_weight cfg h = \<lparr>
     validate_leaf = (\<lambda>who call depth sr.
       case is_sub_type call of
         None \<Rightarrow> Inr None
       | Some inner_call \<Rightarrow>
           if 0 < depth \<and> is_store_call inner_call then Inl ITCall
           else map_ok Some (validate_signed cfg h who inner_call (fst sr))),
     prepare_leaf = (\<lambda>who call depth sr.
       case is_sub_type call of
         None \<Rightarrow> Inr (False, sr)
       | Some inner_call \<Rightarrow>
           if 0 < depth \<and> is_store_call inner_call then Inl ITCall
           else map_ok (\<lambda>s1. (True, s1, snd sr)) (pre_dispatch_signed cfg h who inner_call (fst sr))),
     leaf_weight = (\<lambda>call.
       case is_sub_type call of
         Some (Call_store data) \<Rightarrow> validate_store_weight (of_nat (length data))
       | Some (Call_store_with_cid_config _ data) \<Rightarrow> validate_store_weight (of_nat (length data))
       | _ \<Rightarrow> (0, 0))\<rparr>"

fun is_renewal_sub_type :: "RuntimeCall \<Rightarrow> RenewalCall option" where
  "is_renewal_sub_type (RC_DataRenewal c) = Some c"
| "is_renewal_sub_type _ = None"

definition RenewalLeaves :: "Weight \<Rightarrow> rconf \<Rightarrow> renewal_config \<Rightarrow> host \<Rightarrow> (rts \<times> rn) LeafValidator" where
  "RenewalLeaves validate_renew_weight cfg rc h = \<lparr>
     validate_leaf = (\<lambda>who call depth sr.
       case is_renewal_sub_type call of
         None \<Rightarrow> Inr None
       | Some inner_call \<Rightarrow>
           if 0 < depth then Inl ITCall
           else map_ok Some (validate_renewal_signed cfg rc h who inner_call sr)),
     prepare_leaf = (\<lambda>who call depth sr.
       case is_renewal_sub_type call of
         None \<Rightarrow> Inr (False, sr)
       | Some inner_call \<Rightarrow>
           if 0 < depth then Inl ITCall
           else map_ok (\<lambda>sr1. (True, sr1)) (pre_dispatch_renewal_signed cfg rc h who inner_call sr)),
     leaf_weight = (\<lambda>call.
       case is_renewal_sub_type call of
         Some RCall_process_pending_renewals \<Rightarrow> (0, 0)
       | Some _ \<Rightarrow> validate_renew_weight
       | None \<Rightarrow> (0, 0))\<rparr>"

section \<open>The walk\<close>

text \<open>\<open>walk\<close> with the visitor's captured variables as the threaded state \<open>'t\<close>.\<close>

type_synonym 't visitor = "RuntimeCall \<Rightarrow> nat \<Rightarrow> 't \<Rightarrow> InvalidTransaction + (bool \<times> 't)"

function walk :: "'t visitor \<Rightarrow> RuntimeCall \<Rightarrow> nat \<Rightarrow> 't \<Rightarrow> InvalidTransaction + 't"
  and walk_all :: "'t visitor \<Rightarrow> RuntimeCall list \<Rightarrow> nat \<Rightarrow> 't \<Rightarrow> InvalidTransaction + 't" where
  "walk visit call depth t =
     (case visit call depth t of
        Inl e \<Rightarrow> Inl e
      | Inr (True, t1) \<Rightarrow> Inr t1
      | Inr (False, t1) \<Rightarrow>
          if MAX_WRAPPER_DEPTH \<le> depth then Inl ITCall
          else case inspect_wrapper call of
            Some inner_calls \<Rightarrow> walk_all visit inner_calls (depth + 1) t1
          | None \<Rightarrow> Inr t1)"
| "walk_all visit [] depth t = Inr t"
| "walk_all visit (c # cs) depth t =
     (case walk visit c depth t of
        Inl e \<Rightarrow> Inl e
      | Inr t1 \<Rightarrow> walk_all visit cs depth t1)"
  by pat_completeness auto
termination
  by (relation "inv_image (less_than <*lex*> less_than)
      (\<lambda>x. case x of Inl (v, c, d, t) \<Rightarrow> (MAX_WRAPPER_DEPTH - d, 0)
                   | Inr (v, cs, d, t) \<Rightarrow> (MAX_WRAPPER_DEPTH - d, Suc (length cs)))") auto

declare walk.simps [simp del]

text \<open>\<open>ValidateAuthorizedCalls::validate\<close>. A non-signed origin passes unchanged.\<close>

definition validate_visitor ::
    "host \<Rightarrow> 's LeafValidator \<Rightarrow> AccountId \<Rightarrow> 's
      \<Rightarrow> (ValidTransaction \<times> AuthorizationScope option \<times> bool) visitor" where
  "validate_visitor h l who s call depth t =
     (case validate_leaf l who call depth s of
        Inl e \<Rightarrow> Inl e
      | Inr None \<Rightarrow> Inr (False, t)
      | Inr (Some (valid_tx, maybe_scope)) \<Rightarrow>
          let (combined, last_scope, _) = t in
          Inr (True, combine_with h combined valid_tx,
                 (case maybe_scope of Some scope \<Rightarrow> Some scope | None \<Rightarrow> last_scope), True))"

definition ext_validate ::
    "host \<Rightarrow> 's LeafValidator \<Rightarrow> RuntimeOrigin \<Rightarrow> RuntimeCall \<Rightarrow> 's
      \<Rightarrow> InvalidTransaction + (ValidTransaction \<times> AccountId option \<times> RuntimeOrigin)" where
  "ext_validate h l orig call s =
     (case orig of
        Signed who \<Rightarrow>
          map_ok (\<lambda>(combined, last_scope, visited_any).
              (combined, if visited_any then Some who else None,
               case last_scope of Some scope \<Rightarrow> StorageAuthorized who scope | None \<Rightarrow> orig))
            (walk (validate_visitor h l who s) call 0 (vt_default h, None, False))
      | _ \<Rightarrow> Inr (vt_default h, None, orig))"

definition ext_prepare ::
    "'s LeafValidator \<Rightarrow> AccountId option \<Rightarrow> RuntimeCall \<Rightarrow> 's \<Rightarrow> InvalidTransaction + 's" where
  "ext_prepare l val call s =
     (case val of
        None \<Rightarrow> Inr s
      | Some who \<Rightarrow> walk (prepare_leaf l who) call 0 s)"

section \<open>Priority boosts\<close>

definition ALLOWANCE_PRIORITY_BOOST :: u64 where
  "ALLOWANCE_PRIORITY_BOOST = 1000000000"

definition in_budget :: "'x AuthorizationExtent \<Rightarrow> bool" where
  "in_budget e =
     (if ae_bytes_allowance e = 0 then False
      else ae_bytes e \<le> ae_bytes_allowance e \<and> ae_transactions e \<le> ae_transactions_allowance e)"

text \<open>The shares are computed in \<open>u128\<close>, where the product cannot overflow.\<close>

definition ProportionalBoost :: "'x AuthorizationExtent \<Rightarrow> u64" where
  "ProportionalBoost e =
     (if \<not> in_budget e then 0
      else
        let bytes_rem = sat_sub (ae_bytes_allowance e) (ae_bytes e);
            bytes_share = unat ALLOWANCE_PRIORITY_BOOST * unat bytes_rem div unat (ae_bytes_allowance e);
            tx_share =
              (if ae_transactions_allowance e = 0 then 0
               else unat ALLOWANCE_PRIORITY_BOOST
                 * unat (sat_sub (ae_transactions_allowance e) (ae_transactions e))
                 div unat (ae_transactions_allowance e))
        in of_nat (min bytes_share tx_share))"

definition FlatBoost :: "'x AuthorizationExtent \<Rightarrow> u64" where
  "FlatBoost e = (if in_budget e then ALLOWANCE_PRIORITY_BOOST else 0)"

definition allowance_based_priority ::
    "rconf \<Rightarrow> host \<Rightarrow> (PermanentExtent AuthorizationExtent \<Rightarrow> u64) \<Rightarrow> RuntimeOrigin \<Rightarrow> RuntimeCall \<Rightarrow> rts
      \<Rightarrow> ValidTransaction" where
  "allowance_based_priority cfg h boost orig call s =
     (case (case is_sub_type call of
              Some (Call_store data) \<Rightarrow> Some data
            | Some (Call_store_with_cid_config _ data) \<Rightarrow> Some data
            | _ \<Rightarrow> None) of
        None \<Rightarrow> vt_default h
      | Some data \<Rightarrow>
          let priority =
            (case orig of
               StorageAuthorized who (Account _) \<Rightarrow>
                 let extent = account_authorization_extent cfg who s;
                     extent' = extent\<lparr>ae_bytes := sat_add (ae_bytes extent) (of_nat (length data)),
                                      ae_transactions := sat_add (ae_transactions extent) 1\<rparr>
                 in boost extent'
             | _ \<Rightarrow> 0)
          in (vt_default h)\<lparr>vt_priority := priority\<rparr>)"

section \<open>Nested calls\<close>

inductive nested :: "RuntimeCall \<Rightarrow> RuntimeCall \<Rightarrow> bool" where
  inner: "inspect_wrapper c = Some cs \<Longrightarrow> x \<in> set cs \<Longrightarrow> nested c x"
| deeper: "inspect_wrapper c = Some cs \<Longrightarrow> y \<in> set cs \<Longrightarrow> nested y x \<Longrightarrow> nested c x"

inductive_cases nestedE: "nested c x"

lemma nested_children:
  "nested c x \<Longrightarrow> \<exists>cs y. inspect_wrapper c = Some cs \<and> y \<in> set cs \<and> (x = y \<or> nested y x)"
  by (erule nestedE) auto

text \<open>A walk that succeeds has visited every nested call, at a positive depth.\<close>

lemma walk_visits:
  assumes claims: "\<And>c d t t'. visit c d t = Inr (True, t') \<Longrightarrow> inspect_wrapper c = None"
  shows "walk visit c d t = Inr t' \<Longrightarrow> nested c x \<Longrightarrow> \<exists>d' t1 r. d < d' \<and> visit x d' t1 = Inr r"
    and "walk_all visit cs d t = Inr t' \<Longrightarrow> \<exists>c \<in> set cs. x = c \<or> nested c x \<Longrightarrow>
      \<exists>d' t1 r. d \<le> d' \<and> visit x d' t1 = Inr r"
  using claims
proof (induction visit c d t and visit cs d t arbitrary: t' and t' rule: walk_walk_all.induct)
  case (1 visit call depth t)
  obtain cs y where cs: "inspect_wrapper call = Some cs" "y \<in> set cs" "x = y \<or> nested y x"
    using nested_children [OF "1.prems"(2)] by blast
  obtain t1 where v: "visit call depth t = Inr (False, t1)"
  proof (cases "visit call depth t")
    case (Inl e)
    with "1.prems"(1) show thesis by (simp add: walk.simps)
  next
    case (Inr r)
    then obtain b t1 where r: "visit call depth t = Inr (b, t1)" by (cases r) simp
    with "1.prems"(3) [of call depth t t1] cs(1) have "\<not> b" by auto
    with r that show thesis by simp
  qed
  then have deep: "\<not> MAX_WRAPPER_DEPTH \<le> depth"
    and all: "walk_all visit cs (depth + 1) t1 = Inr t'"
    using "1.prems"(1) cs(1) by (auto simp: walk.simps [of visit call] split: if_splits)
  have "\<exists>d' t2 r. depth + 1 \<le> d' \<and> visit x d' t2 = Inr r"
    using "1.IH" [OF v _ _ deep cs(1), of False t1 t'] all cs(2,3) "1.prems"(3) by blast
  then obtain d' t2 r where "depth + 1 \<le> d'" "visit x d' t2 = Inr r" by blast
  then show ?case by (intro exI [of _ d'] exI [of _ t2] exI [of _ r]) simp
next
  case (2 visit depth t)
  then show ?case by simp
next
  case (3 visit c cs depth t)
  obtain t1 where w: "walk visit c depth t = Inr t1" and ws: "walk_all visit cs depth t1 = Inr t'"
    using "3.prems"(1) by (cases "walk visit c depth t") auto
  consider "x = c" | "nested c x" | "\<exists>c \<in> set cs. x = c \<or> nested c x" using "3.prems"(2) by auto
  then show ?case
  proof cases
    case 1
    from w have "\<exists>r. visit c depth t = Inr r" by (cases "visit c depth t") (auto simp: walk.simps [of visit c])
    with 1 show ?thesis by blast
  next
    case 2
    from "3.IH"(1) [OF w 2 "3.prems"(3)] show ?thesis by (meson less_imp_le)
  next
    case cs: 3
    from "3.IH"(2) [OF w ws cs "3.prems"(3)] show ?thesis .
  qed
qed

text \<open>The call filter sees through every wrapper it is told about.\<close>

lemma not_mutating_nested:
  "nested c x \<Longrightarrow> \<not> is_storage_mutating_call c d \<Longrightarrow> is_sub_type c = None \<Longrightarrow>
   is_sub_type x = Some k \<Longrightarrow> \<not> is_store_call k"
proof (induction arbitrary: d rule: nested.induct)
  case (inner c cs x)
  then have "\<not> is_storage_mutating_call x (d + 1)"
    by (auto simp: is_storage_mutating_call.simps [of c] list_ex_iff split: if_splits)
  with inner.prems(3) show ?case by (simp add: is_storage_mutating_call.simps [of x])
next
  case (deeper c cs y x)
  then have "\<not> is_storage_mutating_call y (d + 1)"
    by (auto simp: is_storage_mutating_call.simps [of c] list_ex_iff split: if_splits)
  moreover have "is_sub_type y = None"
    using nested_children [OF deeper.hyps(3)] by (cases y) auto
  ultimately show ?case using deeper.IH deeper.prems(3) by blast
qed

section \<open>The contract of leaf validators\<close>

locale leaf_validator =
  fixes l :: "'s LeafValidator"
  assumes unclaimed: "validate_leaf l who call depth s = Inr None \<Longrightarrow> prepare_leaf l who call depth s = Inr (False, s)"
    and claimed: "validate_leaf l who call depth s = Inr (Some r) \<Longrightarrow>
      inspect_wrapper call = None \<and> (\<exists>s'. prepare_leaf l who call depth s = Inr (True, s'))"
    and refused: "validate_leaf l who call depth s = Inl e \<Longrightarrow> prepare_leaf l who call depth s = Inl e"
begin

lemma prepare_claims:
  assumes "prepare_leaf l who call depth s = Inr (True, s')"
  shows "inspect_wrapper call = None"
proof (cases "validate_leaf l who call depth s")
  case (Inl e)
  with refused [OF Inl] assms show ?thesis by simp
next
  case (Inr r)
  then show ?thesis
    using assms unclaimed [of who call depth s] claimed [of who call depth s] by (cases r) auto
qed

text \<open>An unwrapped call that passes validation passes preparation in the same state.\<close>

lemma validate_then_prepare:
  assumes "ext_validate h l (Signed who) call s = Inr (v, val, orig)" and "inspect_wrapper call = None"
  shows "\<exists>s'. ext_prepare l val call s = Inr s'"
proof -
  consider e where "validate_leaf l who call 0 s = Inl e" | "validate_leaf l who call 0 s = Inr None"
    | r where "validate_leaf l who call 0 s = Inr (Some r)"
    by (metis not_Some_eq sum.exhaust)
  then show ?thesis
  proof cases
    case 1
    with assms show ?thesis by (simp add: ext_validate_def walk.simps validate_visitor_def)
  next
    case 2
    with assms have "val = None"
      by (auto simp: ext_validate_def walk.simps validate_visitor_def MAX_WRAPPER_DEPTH_def)
    then show ?thesis by (simp add: ext_prepare_def)
  next
    case 3
    with assms have "val = Some who"
      by (auto simp: ext_validate_def walk.simps validate_visitor_def case_prod_unfold)
    with claimed [OF 3] show ?thesis by (auto simp: ext_prepare_def walk.simps)
  qed
qed

lemma validated_nested:
  assumes "ext_validate h l (Signed who) call s = Inr r" and "nested call x"
  shows "\<exists>d. 0 < d \<and> (\<exists>v. validate_leaf l who x d s = Inr v)"
proof -
  obtain t where w: "walk (validate_visitor h l who s) call 0 (vt_default h, None, False) = Inr t"
    using assms(1) by (auto simp: ext_validate_def map_ok_def split: sum.splits)
  have claims: "inspect_wrapper c = None" if "validate_visitor h l who s c d t = Inr (True, t')" for c d t t'
    using that claimed [of who c d s] by (auto simp: validate_visitor_def split: sum.splits option.splits)
  have "\<exists>d t1 r. 0 < d \<and> validate_visitor h l who s x d t1 = Inr r"
    by (rule walk_visits(1) [OF _ w assms(2)]) (rule claims)
  then obtain d t1 r where "0 < d" "validate_visitor h l who s x d t1 = Inr r" by blast
  then have "0 < d \<and> (\<exists>v. validate_leaf l who x d s = Inr v)"
    by (cases "validate_leaf l who x d s") (simp_all add: validate_visitor_def)
  then show ?thesis by blast
qed

end

lemma map_ok_unit_eq:
  "map_ok (\<lambda>_. ()) a = map_ok (\<lambda>_. ()) b \<Longrightarrow> (a = Inl e \<longleftrightarrow> b = Inl e) \<and> ((\<exists>x. a = Inr x) \<longleftrightarrow> (\<exists>y. b = Inr y))"
  by (cases a; cases b) auto

lemma validate_signed_pre_dispatch:
  "map_ok (\<lambda>_. ()) (validate_signed cfg h who call s) = map_ok (\<lambda>_. ()) (pre_dispatch_signed cfg h who call s)"
proof (cases "check_signed cfg h who call Validate s")
  case (Inl e)
  with check_signed_contexts [of cfg h who call s] show ?thesis
    by (cases "check_signed cfg h who call PreDispatch s") (simp_all add: validate_signed_def pre_dispatch_signed_def)
next
  case (Inr r)
  obtain v sc where "r = ((Some v, sc), s)" using check_signed_Validate [OF Inr] .
  with Inr check_signed_contexts [of cfg h who call s] show ?thesis
    by (cases "check_signed cfg h who call PreDispatch s") (simp_all add: validate_signed_def pre_dispatch_signed_def)
qed

interpretation storage_leaves: leaf_validator "StorageLeaves w cfg h" for w cfg h
proof
  fix who call depth and s :: "rts \<times> rn" and r e
  note agree = map_ok_unit_eq [OF validate_signed_pre_dispatch, of cfg h who _ "fst s"]
  show "prepare_leaf (StorageLeaves w cfg h) who call depth s = Inr (False, s)"
    if "validate_leaf (StorageLeaves w cfg h) who call depth s = Inr None"
    using that by (auto simp: StorageLeaves_def res_simps split: option.splits if_splits)
  show "inspect_wrapper call = None \<and> (\<exists>s'. prepare_leaf (StorageLeaves w cfg h) who call depth s = Inr (True, s'))"
    if "validate_leaf (StorageLeaves w cfg h) who call depth s = Inr (Some r)"
    using that agree by (cases call) (fastforce simp: StorageLeaves_def res_simps split: if_splits)+
  show "prepare_leaf (StorageLeaves w cfg h) who call depth s = Inl e"
    if "validate_leaf (StorageLeaves w cfg h) who call depth s = Inl e"
    using that agree by (cases call) (auto simp: StorageLeaves_def res_simps split: if_splits)
qed

lemma check_renew_modes:
  "map_ok (\<lambda>_. ()) (check_renew_authorization rc sc sz c sr) = map_ok (\<lambda>_. ()) (check_renew_authorization rc sc sz c' sr)"
  by (cases sr) (simp add: check_renew_authorization_eq split: option.split)

lemma authorize_renew_modes:
  "map_ok (\<lambda>_. ()) (authorize_renew cfg rc who hash sz c sr) = map_ok (\<lambda>_. ()) (authorize_renew cfg rc who hash sz c' sr)"
  using check_renew_modes [of rc "Preimage hash" sz c sr c'] check_renew_modes [of rc "Account who" sz c sr c']
  by (cases "check_renew_authorization rc (Preimage hash) sz c sr";
      cases "check_renew_authorization rc (Preimage hash) sz c' sr";
      cases "check_renew_authorization rc (Account who) sz c sr";
      cases "check_renew_authorization rc (Account who) sz c' sr")
    (simp_all add: authorize_renew_def)

lemma map_ok_and_then:
  "map_ok (\<lambda>_. ()) a = map_ok (\<lambda>_. ()) b \<Longrightarrow>
   map_ok (\<lambda>_. ()) (and_then a (\<lambda>x. Inr (f x))) = map_ok (\<lambda>_. ()) (and_then b (\<lambda>y. Inr (g y)))"
  by (cases a; cases b) auto

lemma check_renewal_contexts:
  "map_ok (\<lambda>_. ()) (check_renewal_signed cfg rc h who call Validate sr)
     = map_ok (\<lambda>_. ()) (check_renewal_signed cfg rc h who call PreDispatch sr)"
proof (cases call)
  case (RCall_renew entry)
  then show ?thesis
    by (cases "resolve_transaction_ref (fst sr) entry")
      (auto simp: check_renew_signed_def intro: map_ok_and_then check_renew_modes)
next
  case (RCall_force_renew entry)
  then show ?thesis
    by (cases "resolve_transaction_ref (fst sr) entry")
      (auto simp: check_force_renew_signed_def case_prod_unfold intro: map_ok_and_then authorize_renew_modes)
next
  case (RCall_enable_auto_renew hash)
  then show ?thesis
    by (auto simp: check_enable_auto_renew_signed_def ok_or_def intro: map_ok_and_then check_renew_modes
        split: option.split)
qed (auto simp: check_disable_auto_renew_signed_def ok_or_def split: option.split)

interpretation renewal_leaves: leaf_validator "RenewalLeaves w cfg rc h" for w cfg rc h
proof
  fix who call depth and s :: "rts \<times> rn" and r e
  note agree = map_ok_unit_eq [OF check_renewal_contexts, of cfg rc h who _ s]
  show "prepare_leaf (RenewalLeaves w cfg rc h) who call depth s = Inr (False, s)"
    if "validate_leaf (RenewalLeaves w cfg rc h) who call depth s = Inr None"
    using that by (auto simp: RenewalLeaves_def res_simps split: option.splits if_splits)
  show "inspect_wrapper call = None \<and> (\<exists>s'. prepare_leaf (RenewalLeaves w cfg rc h) who call depth s = Inr (True, s'))"
    if "validate_leaf (RenewalLeaves w cfg rc h) who call depth s = Inr (Some r)"
    using that agree
    by (cases call) (fastforce simp: RenewalLeaves_def validate_renewal_signed_def pre_dispatch_renewal_signed_def
        res_simps split: if_splits)+
  show "prepare_leaf (RenewalLeaves w cfg rc h) who call depth s = Inl e"
    if "validate_leaf (RenewalLeaves w cfg rc h) who call depth s = Inl e"
    using that agree
    by (cases call) (auto simp: RenewalLeaves_def validate_renewal_signed_def pre_dispatch_renewal_signed_def
        res_simps split: if_splits)
qed

lemma tuple_contract:
  "\<forall>l \<in> set ls. leaf_validator l \<Longrightarrow> leaf_validator (LeafTuple ls)"
proof (induction ls)
  case Nil
  show ?case by unfold_locales (simp_all add: LeafTuple_def)
next
  case (Cons l ls)
  then have head: "leaf_validator l" and tail: "leaf_validator (LeafTuple ls)" by auto
  note laws = leaf_validator.unclaimed [OF head] leaf_validator.refused [OF head]
    leaf_validator.unclaimed [OF tail] leaf_validator.refused [OF tail]
  show ?case
  proof
    fix who call depth s r e
    show "prepare_leaf (LeafTuple (l # ls)) who call depth s = Inr (False, s)"
      if "validate_leaf (LeafTuple (l # ls)) who call depth s = Inr None"
      using that laws(1) [of who call depth s] laws(3) [of who call depth s]
      by (auto simp: LeafTuple_def split: sum.splits option.splits)
    show "inspect_wrapper call = None \<and> (\<exists>s'. prepare_leaf (LeafTuple (l # ls)) who call depth s = Inr (True, s'))"
      if "validate_leaf (LeafTuple (l # ls)) who call depth s = Inr (Some r)"
      using that laws(1) [of who call depth s] leaf_validator.claimed [OF head, of who call depth s]
        leaf_validator.claimed [OF tail, of who call depth s]
      by (auto simp: LeafTuple_def split: sum.splits option.splits)
    show "prepare_leaf (LeafTuple (l # ls)) who call depth s = Inl e"
      if "validate_leaf (LeafTuple (l # ls)) who call depth s = Inl e"
      using that laws(1,2) [of who call depth s] laws(4) [of who call depth s]
      by (auto simp: LeafTuple_def split: sum.splits option.splits)
  qed
qed

text \<open>The leaves the runtimes wire.\<close>

definition runtime_leaves ::
    "(u32 \<Rightarrow> Weight) \<Rightarrow> Weight \<Rightarrow> rconf \<Rightarrow> renewal_config \<Rightarrow> host \<Rightarrow> (rts \<times> rn) LeafValidator" where
  "runtime_leaves sw rw cfg rc h = LeafTuple [StorageLeaves sw cfg h, RenewalLeaves rw cfg rc h]"

interpretation runtime_leaves: leaf_validator "runtime_leaves sw rw cfg rc h" for sw rw cfg rc h
  unfolding runtime_leaves_def
  by (rule tuple_contract) (auto intro: storage_leaves.leaf_validator_axioms renewal_leaves.leaf_validator_axioms)

section \<open>The contract of a boost\<close>

locale boost_strategy =
  fixes boost :: "'x AuthorizationExtent \<Rightarrow> u64"
  assumes bounded: "boost e \<le> ALLOWANCE_PRIORITY_BOOST"
    and out_of_budget: "\<not> in_budget e \<Longrightarrow> boost e = 0"
begin

text \<open>A boost on top of a base priority that leaves room for it never saturates, so boosted and
  unboosted transactions stay ordered by their boosts.\<close>

lemma no_saturation:
  assumes "unat base + unat ALLOWANCE_PRIORITY_BOOST < 2 ^ 64"
  shows "unat (sat_add base (boost e)) = unat base + unat (boost e)"
  using assms bounded [of e] by (simp add: word_nat)

end

lemma share_le: "unat (b :: 'a::len word) \<noteq> 0 \<Longrightarrow> unat c \<le> unat b \<Longrightarrow> n * unat c div unat b \<le> n"
  by (metis div_le_mono mult_le_mono2 nonzero_mult_div_cancel_right)

interpretation flat: boost_strategy FlatBoost
  by unfold_locales (auto simp: FlatBoost_def)

interpretation proportional: boost_strategy ProportionalBoost
proof
  fix e :: "'a AuthorizationExtent"
  show "ProportionalBoost e = 0" if "\<not> in_budget e" using that by (simp add: ProportionalBoost_def)
  show "ProportionalBoost e \<le> ALLOWANCE_PRIORITY_BOOST"
  proof (cases "in_budget e")
    case True
    let ?share = "unat ALLOWANCE_PRIORITY_BOOST * unat (sat_sub (ae_bytes_allowance e) (ae_bytes e))
        div unat (ae_bytes_allowance e)"
    have "?share \<le> unat ALLOWANCE_PRIORITY_BOOST"
      using True by (intro share_le) (auto simp: in_budget_def word_nat word_eq_unat split: if_splits)
    moreover have "unat (of_nat n :: u64) \<le> n" for n
      by (simp add: unsigned_of_nat take_bit_nat_less_eq_self)
    ultimately show ?thesis
      by (auto simp: ProportionalBoost_def Let_def True word_le_nat_alt intro: order_trans min.coboundedI1)
  qed (simp add: ProportionalBoost_def)
qed

end
