(* ===== verification/Hop.thy ===== *)
theory Hop
  imports Storage_Invariant
begin

text \<open>
  The HOP promotion pallet (\<open>pallets/hop-promotion/src/lib.rs\<close>): the two signing payloads,
  the authorize hooks of \<open>promote\<close> and \<open>promote_v2\<close>, and the dispatchables, which
  store through \<open>do_store\<close>. Signers and signatures are byte strings; turning a signer into
  an account and verifying a signature are parameters, as is the block time. The lemmas show
  that the payload bytes determine what was signed, that the two versions cannot be confused,
  and what an accepted promotion has been checked for.
\<close>

section \<open>Payloads\<close>

definition ascii_bytes :: "string \<Rightarrow> u8 list" where
  "ascii_bytes = map byte_of_char"

definition HOP_SUBMIT_CONTEXT :: "u8 list" where
  "HOP_SUBMIT_CONTEXT = ascii_bytes ''hop-submit-v1:''"

definition HOP_SUBMIT_CONTEXT_V2 :: "u8 list" where
  "HOP_SUBMIT_CONTEXT_V2 = ascii_bytes ''hop-submit-v2:''"

definition EMPTY_RECIPIENTS_HASH :: "u8 list" where
  "EMPTY_RECIPIENTS_HASH = [
     0x03, 0x17, 0x0a, 0x2e, 0x75, 0x97, 0xb7, 0xb7, 0xe3, 0xd8, 0x4c, 0x05, 0x39, 0x1d, 0x13, 0x9a,
     0x62, 0xb1, 0x57, 0xe7, 0x87, 0x86, 0xd8, 0xc0, 0x82, 0xf2, 0x9d, 0xcf, 0x4c, 0x11, 0x13, 0x14]"

definition NO_RECIPIENTS :: InvalidTransaction where
  "NO_RECIPIENTS = ITCustom 100"

text \<open>\<open>u64::to_le_bytes\<close>.\<close>

definition to_le_bytes :: "u64 \<Rightarrow> u8 list" where
  "to_le_bytes w = map (\<lambda>i. ucast (drop_bit (8 * i) w)) [0..<8]"

text \<open>The buffer each payload hashes.\<close>

definition payload_bytes :: "u8 list \<Rightarrow> u64 \<Rightarrow> u8 list" where
  "payload_bytes data_hash submit_timestamp =
     HOP_SUBMIT_CONTEXT @ data_hash @ to_le_bytes submit_timestamp"

definition signing_payload :: "host \<Rightarrow> u8 list \<Rightarrow> u64 \<Rightarrow> u8 list" where
  "signing_payload h data_hash submit_timestamp = blake2_256 h (payload_bytes data_hash submit_timestamp)"

definition payload_bytes_v2 :: "u8 list \<Rightarrow> u64 \<Rightarrow> u8 list \<Rightarrow> u8 list \<Rightarrow> u8 list" where
  "payload_bytes_v2 data_hash submit_timestamp genesis_hash recipients_hash =
     HOP_SUBMIT_CONTEXT_V2 @ data_hash @ to_le_bytes submit_timestamp @ genesis_hash @ recipients_hash"

definition signing_payload_v2 :: "host \<Rightarrow> u8 list \<Rightarrow> u64 \<Rightarrow> u8 list \<Rightarrow> u8 list \<Rightarrow> u8 list" where
  "signing_payload_v2 h data_hash submit_timestamp genesis_hash recipients_hash =
     blake2_256 h (payload_bytes_v2 data_hash submit_timestamp genesis_hash recipients_hash)"

section \<open>Configuration and hooks\<close>

record hop_config =
  SubmitTimestampTolerance :: u64
  PromoteTxParams :: ValidTransactionParams
  into_account :: "u8 list \<Rightarrow> AccountId"
  sig_verify :: "u8 list \<Rightarrow> u8 list \<Rightarrow> AccountId \<Rightarrow> bool"
  genesis_block_hash :: H256

definition hop_integrity_test :: "('m, 'x) config \<Rightarrow> hop_config \<Rightarrow> bool" where
  "hop_integrity_test cfg hc \<longleftrightarrow>
     vp_priority (PromoteTxParams hc) < vp_priority (StoreTxParams cfg)
     \<and> assert_pool_families_distinct cfg [(''PromoteTxParams'', PromoteTxParams hc)]"

definition can_account_promote :: "AccountId \<Rightarrow> u32 \<Rightarrow> ('m, 'x) ts \<Rightarrow> bool" where
  "can_account_promote who data_len s = account_has_active_authorization who s"

definition is_promoted_on_chain :: "ContentHash \<Rightarrow> ('m, 'x) ts \<Rightarrow> bool" where
  "is_promoted_on_chain content_hash s = contains_transaction s content_hash"

definition promoted_validity :: "host \<Rightarrow> hop_config \<Rightarrow> u8 list \<Rightarrow> ValidTransaction" where
  "promoted_validity h hc data_hash = (provides h (PromoteTxParams hc) data_hash)\<lparr>vt_propagate := False\<rparr>"

definition authorize_promote ::
    "('m, 'x) config \<Rightarrow> hop_config \<Rightarrow> host \<Rightarrow> u64 \<Rightarrow> TransactionSource \<Rightarrow> u8 list \<Rightarrow> u8 list \<Rightarrow> u64
      \<Rightarrow> u8 list \<Rightarrow> ('m, 'x) ts \<Rightarrow> InvalidTransaction + (ValidTransaction \<times> Weight)" where
  "authorize_promote cfg hc h now_ms source signer signature submit_timestamp data s =
     (if source = External then Inl ITCall
      else if \<not> data_size_ok cfg (length data) then Inl BAD_DATA_SIZE
      else if block_transactions_full cfg s then Inl ITExhaustsResources
      else if SubmitTimestampTolerance hc < abs_diff now_ms submit_timestamp then Inl ITStale
      else
        let account_id = into_account hc signer in
        if \<not> can_account_promote account_id (of_nat (length data)) s then Inl ITBadSigner
        else
          let data_hash = blake2_256 h data;
              payload = signing_payload h data_hash submit_timestamp in
          if \<not> sig_verify hc signature payload account_id then Inl ITBadProof
          else Inr (promoted_validity h hc data_hash, (0, 0)))"

definition authorize_promote_v2 ::
    "('m, 'x) config \<Rightarrow> hop_config \<Rightarrow> host \<Rightarrow> u64 \<Rightarrow> TransactionSource \<Rightarrow> u8 list \<Rightarrow> u8 list \<Rightarrow> u64
      \<Rightarrow> H256 \<Rightarrow> u8 list \<Rightarrow> ('m, 'x) ts \<Rightarrow> InvalidTransaction + (ValidTransaction \<times> Weight)" where
  "authorize_promote_v2 cfg hc h now_ms source signer signature submit_timestamp recipients_hash data s =
     (if source = External then Inl ITCall
      else if \<not> data_size_ok cfg (length data) then Inl BAD_DATA_SIZE
      else if block_transactions_full cfg s then Inl ITExhaustsResources
      else if SubmitTimestampTolerance hc < abs_diff now_ms submit_timestamp then Inl ITStale
      else if recipients_hash = EMPTY_RECIPIENTS_HASH then Inl NO_RECIPIENTS
      else
        let account_id = into_account hc signer in
        if \<not> can_account_promote account_id (of_nat (length data)) s then Inl ITBadSigner
        else
          let data_hash = blake2_256 h data;
              payload = signing_payload_v2 h data_hash submit_timestamp (genesis_block_hash hc) recipients_hash in
          if \<not> sig_verify hc signature payload account_id then Inl ITBadProof
          else Inr (promoted_validity h hc data_hash, (0, 0)))"

text \<open>\<open>frame_system::ensure_authorized\<close> accepts the general-transaction origin only.\<close>

definition ensure_general_authorized :: "RuntimeOrigin \<Rightarrow> Error DispatchError + unit" where
  "ensure_general_authorized orig = ensure (orig = GeneralAuthorized) BadOrigin"

definition promote ::
    "('m, 'x) config \<Rightarrow> host \<Rightarrow> RuntimeOrigin \<Rightarrow> u8 list \<Rightarrow> u8 list \<Rightarrow> u64 \<Rightarrow> u8 list \<Rightarrow> ('m, 'x) ts
      \<Rightarrow> Error DispatchError + ('m, 'x) ts" where
  "promote cfg h orig signer signature submit_timestamp data s =
     and_then (ensure_general_authorized orig) (\<lambda>_. do_store cfg h data Blake2b256 RAW_CODEC s)"

definition promote_v2 ::
    "('m, 'x) config \<Rightarrow> host \<Rightarrow> RuntimeOrigin \<Rightarrow> u8 list \<Rightarrow> u8 list \<Rightarrow> u64 \<Rightarrow> H256 \<Rightarrow> u8 list \<Rightarrow> ('m, 'x) ts
      \<Rightarrow> Error DispatchError + ('m, 'x) ts" where
  "promote_v2 cfg h orig signer signature submit_timestamp recipients_hash data s =
     and_then (ensure_general_authorized orig) (\<lambda>_. do_store cfg h data Blake2b256 RAW_CODEC s)"

section \<open>Lemmas\<close>

lemma length_le_bytes [simp]: "length (to_le_bytes w) = 8"
  by (simp add: to_le_bytes_def)

lemma to_le_bytes_inj: "to_le_bytes v = to_le_bytes w \<Longrightarrow> v = w"
proof (rule bit_word_eqI)
  fix n
  assume eq: "to_le_bytes v = to_le_bytes w" and "n < LENGTH(64)"
  then have n: "n div 8 < 8" by simp
  from eq n have "ucast (drop_bit (8 * (n div 8)) v) = (ucast (drop_bit (8 * (n div 8)) w) :: u8)"
    unfolding to_le_bytes_def by (metis (no_types, lifting) diff_zero length_upt nth_map nth_upt add_0)
  then have "bit (ucast (drop_bit (8 * (n div 8)) v) :: u8) (n mod 8) = bit (ucast (drop_bit (8 * (n div 8)) w) :: u8) (n mod 8)"
    by simp
  then show "bit v n = bit w n"
    by (simp add: bit_simps)
qed

lemma payload_bytes_inj:
  assumes "length d = length d'" and "payload_bytes d t = payload_bytes d' t'"
  shows "d = d' \<and> t = t'"
  using assms to_le_bytes_inj [of t t'] by (auto simp: payload_bytes_def)

lemma payload_bytes_v2_inj:
  assumes "length d = 32" "length d' = 32" "length g = 32" "length g' = 32"
    and "payload_bytes_v2 d t g r = payload_bytes_v2 d' t' g' r'"
  shows "d = d' \<and> t = t' \<and> g = g' \<and> r = r'"
  using assms to_le_bytes_inj [of t t'] by (auto simp: payload_bytes_v2_def)

lemma contexts_differ: "HOP_SUBMIT_CONTEXT \<noteq> HOP_SUBMIT_CONTEXT_V2"
  and contexts_length: "length HOP_SUBMIT_CONTEXT = length HOP_SUBMIT_CONTEXT_V2"
  by (simp_all add: HOP_SUBMIT_CONTEXT_def HOP_SUBMIT_CONTEXT_V2_def ascii_bytes_def byte_of_char_def)

lemma payload_versions_disjoint: "payload_bytes d t \<noteq> payload_bytes_v2 d' t' g r"
  using contexts_differ contexts_length by (simp add: payload_bytes_def payload_bytes_v2_def)

lemma authorize_promote_Inr:
  "authorize_promote cfg hc h now_ms source signer signature ts data s = Inr r \<longleftrightarrow>
     source \<noteq> External \<and> data_size_ok cfg (length data) \<and> \<not> block_transactions_full cfg s
     \<and> abs_diff now_ms ts \<le> SubmitTimestampTolerance hc
     \<and> account_has_active_authorization (into_account hc signer) s
     \<and> sig_verify hc signature (signing_payload h (blake2_256 h data) ts) (into_account hc signer)
     \<and> r = (promoted_validity h hc (blake2_256 h data), (0, 0))"
  by (auto simp: authorize_promote_def can_account_promote_def Let_def not_less)

lemma authorize_promote_v2_Inr:
  "authorize_promote_v2 cfg hc h now_ms source signer signature ts rh data s = Inr r \<longleftrightarrow>
     source \<noteq> External \<and> data_size_ok cfg (length data) \<and> \<not> block_transactions_full cfg s
     \<and> abs_diff now_ms ts \<le> SubmitTimestampTolerance hc \<and> rh \<noteq> EMPTY_RECIPIENTS_HASH
     \<and> account_has_active_authorization (into_account hc signer) s
     \<and> sig_verify hc signature (signing_payload_v2 h (blake2_256 h data) ts (genesis_block_hash hc) rh)
         (into_account hc signer)
     \<and> r = (promoted_validity h hc (blake2_256 h data), (0, 0))"
  by (auto simp: authorize_promote_v2_def can_account_promote_def Let_def not_less)

text \<open>Past the origin check, a promotion does what a root \<open>store\<close> of the same data does.\<close>

lemma promote_as_store:
  "promote cfg h orig signer sig t data s = Inr s' \<longleftrightarrow>
     orig = GeneralAuthorized \<and> dispatch cfg h Root (Call_store data) s = Inr s'"
  "promote_v2 cfg h orig signer sig t rh data s = Inr s' \<longleftrightarrow>
     orig = GeneralAuthorized \<and> dispatch cfg h Root (Call_store data) s = Inr s'"
  by (auto simp: promote_def promote_v2_def ensure_general_authorized_def store_def res_simps
      ensure_authorized_def ensure_root_def)

end
