(* ===== verification/Runtime.thy ===== *)
theory Runtime
  imports Extension Hop "HOL-Library.List_Lexorder"
begin

text \<open>
  How the two runtimes wire the pallets: \<open>runtimes/bulletin-westend\<close> and
  \<open>runtimes/bulletin-paseo\<close>, \<open>src/storage.rs\<close> (parameters, authorizer origins,
  call filter), the location filters of \<open>src/xcm_config.rs\<close>, and the storage runtime APIs
  of \<open>src/lib.rs\<close>. What the runtimes take from other crates (the development accounts, the
  number of Westend blocks in a day, the generated weights) is the record
  \<open>runtime_params\<close>; values that governance may overwrite in storage are arguments, with the
  values they are seeded with as constants.
\<close>

section \<open>Origins\<close>

text \<open>\<open>EnsureRoot\<close>, \<open>EnsureXcm\<close>, \<open>EnsureSignedBy\<close> and \<open>EitherOf\<close>; an error
  hands the origin back.\<close>

definition EnsureRoot :: "RuntimeOrigin \<Rightarrow> RuntimeOrigin + unit" where
  "EnsureRoot orig = ensure (orig = Root) orig"

definition EnsureXcm :: "(Location \<Rightarrow> bool) \<Rightarrow> RuntimeOrigin \<Rightarrow> RuntimeOrigin + Location" where
  "EnsureXcm f orig = (case orig of XcmOrigin l \<Rightarrow> if f l then Inr l else Inl orig | _ \<Rightarrow> Inl orig)"

definition EnsureSignedBy :: "(AccountId \<Rightarrow> bool) \<Rightarrow> RuntimeOrigin \<Rightarrow> RuntimeOrigin + AccountId" where
  "EnsureSignedBy members orig =
     (case orig of Signed who \<Rightarrow> if members who then Inr who else Inl orig | _ \<Rightarrow> Inl orig)"

definition EitherOf :: "('o \<Rightarrow> 'o + 'a) \<Rightarrow> ('o \<Rightarrow> 'o + 'a) \<Rightarrow> 'o \<Rightarrow> 'o + 'a" where
  "EitherOf l r orig = (case l orig of Inr x \<Rightarrow> Inr x | Inl orig' \<Rightarrow> r orig')"

section \<open>Location filters\<close>

definition ParentOrParentsPlurality :: "Location \<Rightarrow> bool" where
  "ParentOrParentsPlurality l =
     (case l of (p, js) \<Rightarrow> p = 1 \<and> (case js of [] \<Rightarrow> True | [Plurality _ _] \<Rightarrow> True | _ \<Rightarrow> False))"

definition IsSiblingParachain :: "Location \<Rightarrow> bool" where
  "IsSiblingParachain l = (case l of (p, js) \<Rightarrow> p = 1 \<and> (case js of [Parachain _] \<Rightarrow> True | _ \<Rightarrow> False))"

definition FellowsPlurality :: "u32 \<Rightarrow> Location \<Rightarrow> bool" where
  "FellowsPlurality collectives_id l =
     (case l of (p, js) \<Rightarrow> p = 1 \<and>
        (case js of [Parachain i, Plurality Technical _] \<Rightarrow> i = collectives_id | _ \<Rightarrow> False))"

definition AllowedParachainIds :: "u32 list" where
  "AllowedParachainIds = [1502, 5140]"

definition GovernanceParachainIds :: "u32 list" where
  "GovernanceParachainIds = [1500]"

definition IsAuthorizerParachain :: "u32 list \<Rightarrow> Location \<Rightarrow> bool" where
  "IsAuthorizerParachain allowed l =
     (case l of (p, js) \<Rightarrow> p = 1 \<and> (case js of [Parachain i] \<Rightarrow> i \<in> set allowed | _ \<Rightarrow> False))"

definition IsGovernanceLocation :: "u32 list \<Rightarrow> Location \<Rightarrow> bool" where
  "IsGovernanceLocation governance l =
     (case l of (p, js) \<Rightarrow> p = 1 \<and> (case js of [Parachain i] \<Rightarrow> i \<in> set governance | _ \<Rightarrow> False))"

definition IsGovernanceVoiceOfBody :: "BodyId \<Rightarrow> u32 list \<Rightarrow> Location \<Rightarrow> bool" where
  "IsGovernanceVoiceOfBody body governance l =
     (case l of (p, js) \<Rightarrow> p = 1 \<and>
        (case js of [Parachain i, Plurality b Voice] \<Rightarrow> b = body \<and> i \<in> set governance | _ \<Rightarrow> False))"

text \<open>\<open>EverythingBut<StorageCallInspector>\<close>.\<close>

definition SafeCallFilter :: "RuntimeCall \<Rightarrow> bool" where
  "SafeCallFilter call \<longleftrightarrow> \<not> inspector_contains call"

section \<open>Parameters\<close>

record runtime_params =
  rp_days :: BlockNumber
  rp_alice :: AccountId
  rp_on_initialize_with_expiry :: "u32 \<Rightarrow> Weight"
  rp_process_pending_renewals :: "u32 \<Rightarrow> Weight"

definition MINUTES :: BlockNumber where "MINUTES = 60000 div 6000"

definition HOURS :: BlockNumber where "HOURS = MINUTES * 60"

definition DAYS :: BlockNumber where "DAYS = HOURS * 24"

definition MAX_PERMANENT_STORAGE_SIZE :: u64 where
  "MAX_PERMANENT_STORAGE_SIZE = 17 * 1024 * 1024 * 1024 * 1024 div 10"

definition EXTRA_AUTHORIZER :: AccountId where
  "EXTRA_AUTHORIZER =
    [0xb6, 0x45, 0x5b, 0xc5, 0x38, 0x36, 0x5d, 0x32, 0xd3, 0x29, 0x67, 0xb6, 0xf2, 0x1a, 0x0c, 0x9b,
     0x07, 0x15, 0x65, 0xe8, 0x78, 0xfe, 0x98, 0x5f, 0x88, 0xd1, 0x54, 0x3c, 0xb1, 0x99, 0x1a, 0x7d]"

definition sorted_members :: "AccountId \<Rightarrow> AccountId list" where
  "sorted_members alice = sort [alice, EXTRA_AUTHORIZER]"

text \<open>\<open>SortedMembers::contains\<close> searches the sorted vector.\<close>

definition TestAccounts :: "AccountId \<Rightarrow> AccountId \<Rightarrow> bool" where
  "TestAccounts alice who = is_ok (binary_search_by_key id who (sorted_members alice))"

definition CLEANUP_PRIORITY :: u64 where "CLEANUP_PRIORITY = - 1"

definition STORE_PRIORITY :: u64 where "STORE_PRIORITY = - 1 div 4"

definition tx_params :: "string \<Rightarrow> u64 \<Rightarrow> BlockNumber \<Rightarrow> ValidTransactionParams" where
  "tx_params prefix priority longevity =
     \<lparr>vp_tag_prefix = prefix, vp_priority = priority, vp_longevity = u32_to_u64 longevity\<rparr>"

section \<open>The runtimes\<close>

definition westend_authorizer ::
    "AccountId \<Rightarrow> rts \<Rightarrow> RuntimeOrigin \<Rightarrow> RuntimeOrigin + AuthorizationOrigin option" where
  "westend_authorizer alice s =
     EitherOf
       (EitherOf
         (EitherOf (as_authorizer EnsureRoot) (as_authorizer (EnsureXcm IsSiblingParachain)))
         (as_authorizer (EnsureSignedBy (TestAccounts alice))))
       (ensure_allowed_authorizers (AllowedAuthorizers s) (now s))"

definition paseo_authorizer ::
    "u32 list \<Rightarrow> rts \<Rightarrow> RuntimeOrigin \<Rightarrow> RuntimeOrigin + AuthorizationOrigin option" where
  "paseo_authorizer allowed s =
     EitherOf
       (EitherOf (as_authorizer EnsureRoot) (as_authorizer (EnsureXcm (IsAuthorizerParachain allowed))))
       (ensure_allowed_authorizers (AllowedAuthorizers s) (now s))"

text \<open>The part of the storage configuration the two runtimes share.\<close>

definition storage_config ::
    "BlockNumber \<Rightarrow> (u32 \<Rightarrow> Weight)
      \<Rightarrow> (rts \<Rightarrow> RuntimeOrigin \<Rightarrow> RuntimeOrigin + AuthorizationOrigin option) \<Rightarrow> rconf" where
  "storage_config days weight authorizer = \<lparr>
     MaxBlockTransactions = DEFAULT_MAX_BLOCK_TRANSACTIONS,
     MaxTransactionSize = DEFAULT_MAX_TRANSACTION_SIZE,
     AuthorizationPeriod = 14 * days,
     AuthorizerRegistrarOrigin = (\<lambda>orig. is_ok (EnsureRoot orig)),
     Authorizer = authorizer,
     StoreTxParams = tx_params ''TransactionStorageStore'' STORE_PRIORITY days,
     AuthorizeTxParams = tx_params ''TransactionStorageAuthorize'' STORE_PRIORITY days,
     RemoveExpiredAccountAuthorizationTxParams =
       tx_params ''TransactionStorageRemoveExpiredAccountAuthorization'' CLEANUP_PRIORITY days,
     RemoveExpiredPreimageAuthorizationTxParams =
       tx_params ''TransactionStorageRemoveExpiredPreimageAuthorization'' CLEANUP_PRIORITY days,
     RemoveExhaustedAuthorizerTxParams =
       tx_params ''TransactionStorageRemoveExhaustedAuthorizer'' CLEANUP_PRIORITY days,
     EntryMeta_default = EntryKind_default,
     AuthorizationExtra_default = PermanentExtent_default,
     on_initialize_with_expiry = weight\<rparr>"

definition westend_config :: "runtime_params \<Rightarrow> rconf" where
  "westend_config rp =
     storage_config (rp_days rp) (rp_on_initialize_with_expiry rp) (westend_authorizer (rp_alice rp))"

definition paseo_config :: "u32 list \<Rightarrow> runtime_params \<Rightarrow> rconf" where
  "paseo_config allowed rp =
     storage_config DAYS (rp_on_initialize_with_expiry rp) (paseo_authorizer allowed)"

definition westend_renewal_config :: "runtime_params \<Rightarrow> renewal_config" where
  "westend_renewal_config rp = \<lparr>MaxPermanentStorageSize = MAX_PERMANENT_STORAGE_SIZE,
     RenewTxParams = tx_params ''TransactionStorageRenew'' STORE_PRIORITY (rp_days rp),
     process_pending_renewals_weight = rp_process_pending_renewals rp\<rparr>"

definition paseo_renewal_config :: "u64 \<Rightarrow> runtime_params \<Rightarrow> renewal_config" where
  "paseo_renewal_config cap rp = \<lparr>MaxPermanentStorageSize = cap,
     RenewTxParams = tx_params ''TransactionStorageRenew'' STORE_PRIORITY DAYS,
     process_pending_renewals_weight = rp_process_pending_renewals rp\<rparr>"

definition runtime_hop_config ::
    "(u8 list \<Rightarrow> AccountId) \<Rightarrow> (u8 list \<Rightarrow> u8 list \<Rightarrow> AccountId \<Rightarrow> bool) \<Rightarrow> H256 \<Rightarrow> hop_config" where
  "runtime_hop_config into verify genesis_hash = \<lparr>
     SubmitTimestampTolerance = 48 * 60 * 60 * 1000,
     PromoteTxParams = tx_params ''HopPromotion'' 0 5,
     into_account = into, sig_verify = verify, genesis_block_hash = genesis_hash\<rparr>"

section \<open>Runtime APIs\<close>

record IndexedTransactionInfo =
  it_content_hash :: ContentHash
  it_size :: u32
  it_hashing :: HashingAlgorithm
  it_cid_codec :: CidCodec
  it_extrinsic_index :: u32

definition indexed_transactions :: "rconf \<Rightarrow> rts \<Rightarrow> BlockNumber \<Rightarrow> IndexedTransactionInfo list" where
  "indexed_transactions cfg s block =
     (case transactions_at cfg s block of
        None \<Rightarrow> []
      | Some txs \<Rightarrow> map (\<lambda>tx. \<lparr>it_content_hash = ti_content_hash tx, it_size = ti_size tx,
          it_hashing = ti_hashing tx, it_cid_codec = ti_cid_codec tx,
          it_extrinsic_index = ti_extrinsic_index tx\<rparr>) txs)"

definition api_account_authorization :: "AccountId \<Rightarrow> rts \<Rightarrow> AccountAuthorization option" where
  "api_account_authorization account s =
     map_option (\<lambda>auth. to_account_authorization auth (bytes_permanent (ae_extra (au_extent auth))))
       (get_active_authorization (Account account) s)"

definition max_promotion_size :: "rconf \<Rightarrow> u32" where
  "max_promotion_size cfg = MaxTransactionSize cfg"

section \<open>Lemmas\<close>

lemma TestAccounts_iff: "TestAccounts alice who \<longleftrightarrow> who = alice \<or> who = EXTRA_AUTHORIZER"
  using bs.membership [of id "sorted_members alice" who]
  by (auto simp: TestAccounts_def sorted_members_def)

lemma EitherOf_Inr: "EitherOf l r orig = Inr x \<longleftrightarrow> l orig = Inr x \<or> (\<exists>orig'. l orig = Inl orig' \<and> r orig' = Inr x)"
  by (auto simp: EitherOf_def split: sum.splits)

lemma authorizer_parts:
  "as_authorizer EnsureRoot orig = (if orig = Root then Inr None else Inl orig)"
  "as_authorizer (EnsureXcm f) orig = (if \<exists>l. orig = XcmOrigin l \<and> f l then Inr None else Inl orig)"
  "as_authorizer (EnsureSignedBy m) orig = (if \<exists>who. orig = Signed who \<and> m who then Inr None else Inl orig)"
  by (cases orig; simp add: as_authorizer_def EnsureRoot_def EnsureXcm_def EnsureSignedBy_def ensure_def)+

lemma sibling_locations:
  "IsSiblingParachain l \<longleftrightarrow> (\<exists>i. l = (1, [Parachain i]))"
  "IsAuthorizerParachain ids l \<longleftrightarrow> (\<exists>i. l = (1, [Parachain i]) \<and> i \<in> set ids)"
proof -
  obtain p js where l: "l = (p, js)" by (cases l)
  show "IsSiblingParachain l \<longleftrightarrow> (\<exists>i. l = (1, [Parachain i]))"
    "IsAuthorizerParachain ids l \<longleftrightarrow> (\<exists>i. l = (1, [Parachain i]) \<and> i \<in> set ids)"
    unfolding l IsSiblingParachain_def IsAuthorizerParachain_def prod.case
    by (auto simp: neq_Nil_conv split: list.split Junction.split intro: list.exhaust)
qed

lemma storage_config_simps [simp]:
  "MaxBlockTransactions (storage_config d w a) = 512"
  "MaxTransactionSize (storage_config d w a) = 2097152"
  "AuthorizationPeriod (storage_config d w a) = 14 * d"
  "Authorizer (storage_config d w a) = a"
  "EntryMeta_default (storage_config d w a) = Store"
  "AuthorizationExtra_default (storage_config d w a) = PermanentExtent_default"
  by (simp_all add: storage_config_def DEFAULT_MAX_BLOCK_TRANSACTIONS_def
      DEFAULT_MAX_TRANSACTION_SIZE_def EntryKind_default_def)

lemma DAYS_eq: "DAYS = 14400"
  by (simp add: DAYS_def HOURS_def MINUTES_def)

lemma STORE_PRIORITY_eq: "STORE_PRIORITY = 4611686018427387903"
  by (simp add: STORE_PRIORITY_def)

end
