(* ===== verification/Chain.thy ===== *)
theory Chain
  imports Renewal_Invariant Hop
begin

text \<open>
  The three pallets over a chain of blocks, as a step relation. A step opens the next block
  (\<open>frame_system\<close> advances the number, \<open>on_initialize\<close> runs with the renewal pallet as
  the consumer), sets the extrinsic context, runs a pre-dispatch check, dispatches a call with
  any origin, or finalises the block with both \<open>on_finalize\<close> hooks. Which of the steps
  between opening and finalising happen, and in which order, is left open: the invariants hold
  for every order. A dispatch or check that fails changes nothing and is no step; a block whose
  finalisation panics has no successor.
\<close>

type_synonym chain = "bool \<times> rts \<times> rn"

inductive step :: "rconf \<Rightarrow> renewal_config \<Rightarrow> host \<Rightarrow> chain \<Rightarrow> chain \<Rightarrow> bool"
  for cfg rc h where
  open_block: "block_number s \<noteq> - 1 \<Longrightarrow>
    on_initialize cfg (handle_obsolete cfg rc) (block_number s + 1) (next_block parent s, r) = (w, s', r') \<Longrightarrow>
    step cfg rc h (False, s, r) (True, s', r')"
| extrinsic: "step cfg rc h (True, s, r) (True, s\<lparr>extrinsic_index := Some i\<rparr>, r)"
| unsigned: "pre_dispatch cfg h call s = Inr s' \<Longrightarrow> step cfg rc h (True, s, r) (True, s', r)"
| signed: "pre_dispatch_signed cfg h who call s = Inr s' \<Longrightarrow> step cfg rc h (True, s, r) (True, s', r)"
| call: "dispatch cfg h orig call s = Inr s' \<Longrightarrow> step cfg rc h (True, s, r) (True, s', r)"
| renewal_unsigned: "renewal_pre_dispatch cfg rc h rcall (s, r) = Inr (s', r') \<Longrightarrow>
    step cfg rc h (True, s, r) (True, s', r')"
| renewal_signed: "pre_dispatch_renewal_signed cfg rc h who rcall (s, r) = Inr (s', r') \<Longrightarrow>
    step cfg rc h (True, s, r) (True, s', r')"
| renewal_call: "renewal_dispatch cfg rc h orig rcall (s, r) = Inr (s', r') \<Longrightarrow>
    step cfg rc h (True, s, r) (True, s', r')"
| promoted: "promote cfg h orig signer sig t data s = Inr s' \<Longrightarrow> step cfg rc h (True, s, r) (True, s', r)"
| promoted_v2: "promote_v2 cfg h orig signer sig t rh data s = Inr s' \<Longrightarrow> step cfg rc h (True, s, r) (True, s', r)"
| finalize: "on_finalize (block_number s) s = Inr s' \<Longrightarrow> renewal_on_finalize r = Inr r' \<Longrightarrow>
    step cfg rc h (True, s, r) (False, s', r')"

inductive_cases stepE: "step cfg rc h (opn, s, r) (opn', s', r')"

definition empty_rn :: rn where
  "empty_rn = \<lparr>Renewals = (\<lambda>_. None), PendingRenewals = [], PermanentStorageUsed = 0, r_events = []\<rparr>"

definition genesis :: "rconf \<Rightarrow> GenesisConfig \<Rightarrow> chain" where
  "genesis cfg g = (False, genesis_build cfg g empty_ts, empty_rn)"

definition reachable :: "rconf \<Rightarrow> renewal_config \<Rightarrow> host \<Rightarrow> GenesisConfig \<Rightarrow> chain \<Rightarrow> bool" where
  "reachable cfg rc h g c \<longleftrightarrow> (step cfg rc h)\<^sup>*\<^sup>* (genesis cfg g) c"

text \<open>A genesis configuration in order: positive caps, no account twice.\<close>

definition genesis_ok :: "GenesisConfig \<Rightarrow> bool" where
  "genesis_ok g \<longleftrightarrow>
     distinct (map fst (gc_account_authorizations g))
     \<and> (\<forall>(who, txs, bytes) \<in> set (gc_account_authorizations g). 0 < bytes)
     \<and> (\<forall>(hash, bytes) \<in> set (gc_preimage_authorizations g). 0 < bytes)"

section \<open>Genesis\<close>

text \<open>Genesis writes no entry, index or block.\<close>

definition untouched :: "('m, 'x) ts \<Rightarrow> bool" where
  "untouched s \<longleftrightarrow> Transactions s = (\<lambda>_. None) \<and> BlockTransactions s = []
     \<and> TransactionByContentHash s = (\<lambda>_. None) \<and> block_number s = 0"

lemma fold_keeps: "I s \<Longrightarrow> (\<And>x s. x \<in> set xs \<Longrightarrow> I s \<Longrightarrow> I (f x s)) \<Longrightarrow> I (fold f xs s)"
  by (induction xs arbitrary: s) auto

lemma genesis_build_keeps:
  assumes "I (fold (genesis_account cfg) (gc_account_authorizations g)
      (s\<lparr>ByteFee := Some (gc_byte_fee g), EntryFee := Some (gc_entry_fee g),
         RetentionPeriod := gc_retention_period g\<rparr>))"
    and "\<And>x s. x \<in> set (gc_preimage_authorizations g) \<Longrightarrow> I s \<Longrightarrow> I (genesis_preimage cfg x s)"
    and "\<And>x s. I s \<Longrightarrow> I (genesis_authorizer x s)"
  shows "I (genesis_build cfg g s)"
  unfolding genesis_build_def
  by (rule fold_keeps [of I], rule fold_keeps [of I], rule assms(1)) (auto intro: assms(2,3))

lemmas genesis_defs = genesis_account_def genesis_preimage_def genesis_authorizer_def provider_op_defs

lemma genesis_untouched: "untouched (genesis_build cfg g empty_ts)"
  by (rule genesis_build_keeps [of untouched], rule fold_keeps [of untouched])
    (auto simp: untouched_def empty_ts_def genesis_defs Let_def)

lemma untouched_inv: "untouched s \<Longrightarrow> storage_inv cfg h False s"
  by (simp add: untouched_def storage_inv_defs index_sound_def index_complete_def block_entries_def
      tx_get_def now_def)

lemma genesis_caps:
  assumes "genesis_ok g"
  shows "caps_ok (genesis_build cfg g empty_ts)"
proof (rule genesis_build_keeps [of caps_ok], rule fold_keeps [of caps_ok])
  fix x and s :: "('a, 'b) ts"
  assume "x \<in> set (gc_account_authorizations g)" "caps_ok s"
  then show "caps_ok (genesis_account cfg x s)"
    using assms
    by (auto simp: genesis_ok_def caps_ok_def genesis_defs fresh_extent_def split: if_splits prod.splits)
next
  fix x and s :: "('a, 'b) ts"
  assume "x \<in> set (gc_preimage_authorizations g)" "caps_ok s"
  then show "caps_ok (genesis_preimage cfg x s)"
    using assms
    by (auto simp: genesis_ok_def caps_ok_def genesis_defs fresh_extent_def split: if_splits prod.splits)
qed (auto simp: caps_ok_def empty_ts_def genesis_defs Let_def split: if_splits)

lemma genesis_auth:
  fixes cfg :: "('m, 'x) config"
  assumes "\<And>sc t bytes. P 0 sc \<lparr>au_extent = fresh_extent (AuthorizationExtra_default cfg) t bytes,
      au_expiration = AuthorizationPeriod cfg\<rparr>"
  shows "all_auth P (genesis_build cfg g empty_ts)"
proof -
  let ?I = "\<lambda>s :: ('m, 'x) ts. block_number s = 0 \<and> all_auth P s"
  have "?I (genesis_build cfg g empty_ts)"
  proof (rule genesis_build_keeps [of ?I], rule fold_keeps [of ?I])
    fix s
    assume I: "?I s"
    from I assms show "?I (genesis_account cfg x s)" for x
      by (cases x) (auto simp: genesis_defs all_auth_def now_def split: if_splits)
    from I assms show "?I (genesis_preimage cfg x s)" for x
      by (cases x) (auto simp: genesis_defs all_auth_def now_def split: if_splits)
    from I show "?I (genesis_authorizer x s)" for x
      by (cases x) (auto simp: genesis_defs all_auth_def now_def Let_def)
  qed (simp add: all_auth_def empty_ts_def)
  then show ?thesis ..
qed

text \<open>Provider references balance when no account is granted twice: the genesis code adds a
  reference for every listed account, present or not.\<close>

lemma genesis_accounts_balanced:
  assumes "distinct (map fst xs)" and "providers_balanced s"
    and "\<forall>who \<in> fst ` set xs. Authorizations s (Account who) = None"
  shows "providers_balanced (fold (genesis_account cfg) xs s)"
  using assms
proof (induction xs arbitrary: s)
  case Nil
  then show ?case by simp
next
  case (Cons x xs)
  obtain who t n where x: "x = (who, t, n)" by (cases x)
  have "providers_balanced (genesis_account cfg x s)"
    using Cons.prems(2,3) by (auto simp: x genesis_account_def providers_balanced_def entries_of_def)
  moreover have "\<forall>who' \<in> fst ` set xs. Authorizations (genesis_account cfg x s) (Account who') = None"
    using Cons.prems(1,3) by (auto simp: x genesis_account_def image_iff)
  ultimately show ?case using Cons.IH [of "genesis_account cfg x s"] Cons.prems(1) by simp
qed

lemma genesis_balanced:
  assumes "genesis_ok g"
  shows "providers_balanced (genesis_build cfg g empty_ts)"
proof (rule genesis_build_keeps [of providers_balanced])
  show "providers_balanced (fold (genesis_account cfg) (gc_account_authorizations g)
      (empty_ts\<lparr>ByteFee := Some (gc_byte_fee g), EntryFee := Some (gc_entry_fee g),
        RetentionPeriod := gc_retention_period g\<rparr>))"
    using assms by (intro genesis_accounts_balanced)
      (auto simp: genesis_ok_def providers_balanced_def entries_of_def empty_ts_def)
qed (auto simp: providers_balanced_def entries_of_def genesis_defs Let_def split: prod.splits)

section \<open>The invariant of the chain\<close>

definition chain_inv :: "rconf \<Rightarrow> renewal_config \<Rightarrow> host \<Rightarrow> chain \<Rightarrow> bool" where
  "chain_inv cfg rc h c \<longleftrightarrow> (case c of (opn, s, r) \<Rightarrow>
     storage_inv cfg h opn s \<and> caps_ok s \<and> providers_balanced s
     \<and> all_auth permanent_within s \<and> all_auth (expiry_bounded cfg) s
     \<and> used_ok rc r \<and> pending_ok cfg r \<and> (\<not> opn \<longrightarrow> PendingRenewals r = []))"

text \<open>What the constants of a runtime have to satisfy.\<close>

definition wired :: "rconf \<Rightarrow> host \<Rightarrow> bool" where
  "wired cfg h \<longleftrightarrow> chunks_fit cfg h \<and> num_chunks_spec h
     \<and> AuthorizationExtra_default cfg = PermanentExtent_default"

lemma next_block_frame [simp]:
  "Authorizations (next_block p s) = Authorizations s"
  "AllowedAuthorizers (next_block p s) = AllowedAuthorizers s"
  "host_calls (next_block p s) = host_calls s"
  "Transactions (next_block p s) = Transactions s"
  "RetentionPeriod (next_block p s) = RetentionPeriod s"
  "TransactionByContentHash (next_block p s) = TransactionByContentHash s"
  "block_number (next_block p s) = block_number s + 1"
  by (simp_all add: next_block_def)

lemma on_initialize_frame:
  "Authorizations (fst (snd (on_initialize cfg f n (s, r)))) = Authorizations s"
  "AllowedAuthorizers (fst (snd (on_initialize cfg f n (s, r)))) = AllowedAuthorizers s"
  "host_calls (fst (snd (on_initialize cfg f n (s, r)))) = host_calls s"
  "block_number (fst (snd (on_initialize cfg f n (s, r)))) = block_number s"
  by (simp_all add: on_initialize_state)

lemma auth_frame:
  assumes "Authorizations s' = Authorizations s" and "AllowedAuthorizers s' = AllowedAuthorizers s"
    and "host_calls s' = host_calls s"
  shows "caps_ok s' = caps_ok s" and "providers_balanced s' = providers_balanced s"
  using assms by (simp_all add: caps_ok_def providers_balanced_def entries_of_def)

lemma expiry_next:
  assumes "all_auth (expiry_bounded cfg) s" and "block_number s \<noteq> - 1"
    and "Authorizations s' = Authorizations s" and "block_number s' = block_number s + 1"
  shows "all_auth (expiry_bounded cfg) s'"
proof -
  have "sat_add (block_number s) (AuthorizationPeriod cfg) \<le> sat_add (block_number s + 1) (AuthorizationPeriod cfg)"
    using unat_plus_one [OF assms(2)] by (simp add: word_nat)
  with assms show ?thesis by (auto simp: all_auth_def expiry_bounded_def now_def intro: order_trans)
qed

lemma permanent_next:
  "all_auth permanent_within s \<Longrightarrow> Authorizations s' = Authorizations s \<Longrightarrow> all_auth permanent_within s'"
  by (simp add: all_auth_def permanent_within_def)

text \<open>The queue after the sweep.\<close>

lemma open_block_queue:
  assumes inv: "storage_inv cfg h False s" and empty: "PendingRenewals r = []"
    and init: "on_initialize cfg (handle_obsolete cfg rc) n (next_block p s, r) = (w, s', r')"
  shows "pending_ok cfg r'" and "used_ok rc r \<Longrightarrow> used_ok rc r'"
proof -
  let ?s = "next_block p s"
  let ?b = "obsolete_block ?s n"
  show "pending_ok cfg r'" and "used_ok rc r \<Longrightarrow> used_ok rc r'"
  proof (atomize (full), cases "?b \<noteq> 0 \<and> tx_get ?s ?b \<noteq> None")
    case False
    then have "r' = r"
      using on_initialize_idle [of ?s n cfg "handle_obsolete cfg rc" r] init by auto
    then show "pending_ok cfg r' \<and> (used_ok rc r \<longrightarrow> used_ok rc r')"
      using empty by (simp add: pending_ok_def)
  next
    case True
    then obtain txs where txs: "tx_get ?s ?b = Some txs" by auto
    then have "tx_get s ?b = Some txs" by (simp add: tx_get_def)
    then have ok: "block_ok cfg h txs" using inv by (auto simp: storage_inv_defs)
    then have len: "length txs \<le> unat (MaxBlockTransactions cfg)" by (simp add: block_ok_def)
    let ?items = "flag_latest ?b txs (TransactionByContentHash ?s)"
    have r': "r' = handle_obsolete cfg rc ?b ?items r"
      using on_initialize_consumer [OF txs _ len, of "handle_obsolete cfg rc" r] True init by simp
    have "length ?items = length txs" by (metis length_map map_fst_flag_latest)
    then have "PendingRenewals r' = due (Renewals r) ?items"
      using handle_obsolete_queue(1) [OF empty, of ?items cfg] len by (simp add: r')
    then have "pending_ok cfg r'"
      using ok by (intro due_pending_ok [of txs]) (auto simp: block_ok_def)
    then show "pending_ok cfg r' \<and> (used_ok rc r \<longrightarrow> used_ok rc r')"
      by (simp add: r' handle_obsolete_used)
  qed
qed

lemma open_block_keeps:
  assumes inv: "chain_inv cfg rc h (False, s, r)" and room: "block_number s \<noteq> - 1"
    and init: "on_initialize cfg (handle_obsolete cfg rc) (block_number s + 1) (next_block p s, r) = (w, s', r')"
  shows "chain_inv cfg rc h (True, s', r')"
proof -
  have s': "s' = fst (snd (on_initialize cfg (handle_obsolete cfg rc) (block_number s + 1) (next_block p s, r)))"
    using init by simp
  have frame: "Authorizations s' = Authorizations s" "AllowedAuthorizers s' = AllowedAuthorizers s"
    "host_calls s' = host_calls s" "block_number s' = block_number s + 1"
    by (simp_all add: s' on_initialize_frame)
  have st: "storage_inv cfg h False s" and empty: "PendingRenewals r = []"
    using inv by (simp_all add: chain_inv_def)
  have "storage_inv cfg h True s'"
    unfolding s' by (rule next_block_inv [OF st room])
  moreover have "all_auth (expiry_bounded cfg) s'" "all_auth permanent_within s'"
    using inv by (auto simp: chain_inv_def intro: expiry_next [OF _ room frame(1,4)] permanent_next [OF _ frame(1)])
  ultimately show ?thesis
    using inv open_block_queue [OF st empty init] auth_frame [OF frame(1-3)] by (simp add: chain_inv_def)
qed

lemma seal_frame [simp]:
  "Authorizations (seal_block n s) = Authorizations s" "AllowedAuthorizers (seal_block n s) = AllowedAuthorizers s"
  "host_calls (seal_block n s) = host_calls s" "block_number (seal_block n s) = block_number s"
  by (simp_all add: seal_block_def Let_def)

lemma finalize_keeps:
  assumes "wired cfg h" and inv: "chain_inv cfg rc h (True, s, r)"
    and "on_finalize (block_number s) s = Inr s'" and "renewal_on_finalize r = Inr r'"
  shows "chain_inv cfg rc h (False, s', r')"
proof -
  let ?s = "s\<lparr>ProofChecked := False\<rparr>"
  have s': "s' = seal_block (now ?s) ?s" using assms(3) by (simp add: on_finalize_Inr now_def)
  have r': "r' = r" "PendingRenewals r = []" using assms(4) by (auto simp: renewal_on_finalize_def res_simps)
  have "storage_inv cfg h True ?s" using inv by (simp add: chain_inv_def inv.proof_mark)
  then have "storage_inv cfg h False s'"
    using assms(1) unfolding s' by (auto simp: wired_def intro: seal_inv)
  moreover have frame: "Authorizations s' = Authorizations s" "AllowedAuthorizers s' = AllowedAuthorizers s"
    "host_calls s' = host_calls s" "block_number s' = block_number s" by (simp_all add: s')
  ultimately show ?thesis
    using inv r' auth_frame [OF frame(1-3)] all_auth_frame [OF _ frame(1,4)] by (auto simp: chain_inv_def)
qed

lemma renewal_pending:
  "renewal_dispatch cfg rc h orig call (s, r) = Inr (s', r') \<Longrightarrow>
   PendingRenewals r' = PendingRenewals r \<or> PendingRenewals r' = []"
  using process_pending_drains [of cfg rc h s r]
  by (cases call) (auto simp: registration_calls_Inr process_pending_renewals_def res_simps Let_def
      case_prod_unfold dest!: sym [of "(s', r')"])

lemma check_renewal_signed_pending:
  "check_renewal_signed cfg rc h who call ctx (s, r) = Inr (v, s', r') \<Longrightarrow> PendingRenewals r' = PendingRenewals r"
  by (cases call) (auto simp: check_renew_signed_def check_force_renew_signed_def authorize_renew_def
      check_enable_auto_renew_signed_def check_disable_auto_renew_signed_def res_simps
      dest: check_renew_used(4) split: if_splits sum.splits)

lemma renewal_pre_dispatch_pending:
  "renewal_pre_dispatch cfg rc h call (s, r) = Inr (s', r') \<Longrightarrow> PendingRenewals r' = PendingRenewals r"
  by (cases call) (auto simp: renewal_pre_dispatch_def check_renew_unsigned_def res_simps
      dest: check_renew_used(4) split: if_splits)

lemma storage_call_keeps:
  assumes "wired cfg h" and "chain_inv cfg rc h (True, s, r)"
    and "dispatch cfg h orig call s = Inr s' \<or> pre_dispatch cfg h call s = Inr s'
      \<or> pre_dispatch_signed cfg h who call s = Inr s'"
  shows "chain_inv cfg rc h (True, s', r)"
proof -
  have w: "renewal_wired cfg = cfg" using assms(1) by (simp add: wired_def renewal_wired_id)
  note perm = perm.dispatch_all [of s cfg, unfolded w] perm.pre_dispatch_all [of s cfg, unfolded w]
    perm.pre_dispatch_signed_all [of s cfg, unfolded w]
  note keeps = inv.dispatch_keeps inv.pre_dispatch_keeps inv.pre_dispatch_signed_keeps
    caps.dispatch_keeps caps.pre_dispatch_keeps caps.pre_dispatch_signed_keeps
    prov.dispatch_keeps prov.pre_dispatch_keeps prov.pre_dispatch_signed_keeps
    expiry.dispatch_all expiry.pre_dispatch_all expiry.pre_dispatch_signed_all perm
  from assms(2,3) show ?thesis by (auto simp: chain_inv_def intro: keeps)
qed

lemma renewal_call_keeps:
  assumes "chain_inv cfg rc h (True, s, r)" and "renewal_dispatch cfg rc h orig call (s, r) = Inr (s', r')"
  shows "chain_inv cfg rc h (True, s', r')"
proof -
  have p: "pending_ok cfg r" using assms(1) by (simp add: chain_inv_def)
  note keeps = rinv.keeps.renewal_dispatch_keeps [OF _ p assms(2)] rcaps.keeps.renewal_dispatch_keeps [OF _ p assms(2)]
    rprov.keeps.renewal_dispatch_keeps [OF _ p assms(2)] rperm.renewal_dispatch_keeps [OF _ p assms(2)]
    rexp.renewal_dispatch_keeps [OF _ p assms(2)] renewal_dispatch_used [OF _ assms(2)]
  show ?thesis
    using assms(1) keeps renewal_pending [OF assms(2)] by (auto simp: chain_inv_def pending_ok_def)
qed

lemma renewal_check_keeps:
  assumes "chain_inv cfg rc h (True, s, r)"
    and "check_renewal_signed cfg rc h who call ctx (s, r) = Inr (v, s', r')
      \<or> renewal_pre_dispatch cfg rc h call (s, r) = Inr (s', r')"
  shows "chain_inv cfg rc h (True, s', r')"
proof -
  note keeps = rinv.keeps.check_renewal_signed_keeps rinv.keeps.renewal_pre_dispatch_keeps
    rcaps.keeps.check_renewal_signed_keeps rcaps.keeps.renewal_pre_dispatch_keeps
    rprov.keeps.check_renewal_signed_keeps rprov.keeps.renewal_pre_dispatch_keeps
    rperm.check_renewal_signed_keeps rperm.renewal_pre_dispatch_keeps
    rexp.check_renewal_signed_keeps rexp.renewal_pre_dispatch_keeps
    check_renewal_signed_used renewal_pre_dispatch_used
  have "PendingRenewals r' = PendingRenewals r"
    using assms(2) check_renewal_signed_pending renewal_pre_dispatch_pending by blast
  then have "pending_ok cfg r'" using assms(1) by (simp add: chain_inv_def pending_ok_def)
  with assms show ?thesis by (auto simp: chain_inv_def intro: keeps)
qed

lemma step_keeps:
  assumes "wired cfg h" and "step cfg rc h c c'" and "chain_inv cfg rc h c"
  shows "chain_inv cfg rc h c'"
  using assms(2,3)
proof (cases rule: step.cases)
  case (extrinsic s r i)
  have "storage_inv cfg h True (s\<lparr>extrinsic_index := Some i\<rparr>) = storage_inv cfg h True s"
    by (rule storage_inv_frame) simp_all
  with extrinsic assms(3) show ?thesis
    by (simp add: chain_inv_def caps_ok_def providers_balanced_def entries_of_def all_auth_def now_def)
qed (use assms in \<open>auto simp: pre_dispatch_renewal_signed_def res_simps promote_as_store simp del: dispatch.simps
      intro: open_block_keeps finalize_keeps storage_call_keeps renewal_call_keeps renewal_check_keeps\<close>)

lemma genesis_inv:
  assumes "wired cfg h" and "genesis_ok g"
  shows "chain_inv cfg rc h (genesis cfg g)"
proof -
  have "expiry_bounded cfg 0 sc \<lparr>au_extent = fresh_extent (AuthorizationExtra_default cfg) t bytes,
      au_expiration = AuthorizationPeriod cfg\<rparr>" for sc t bytes
    using unat_le_max [of "AuthorizationPeriod cfg"] by (simp add: expiry_bounded_def word_nat)
  moreover have "permanent_within 0 sc \<lparr>au_extent = fresh_extent (AuthorizationExtra_default cfg) t bytes,
      au_expiration = AuthorizationPeriod cfg\<rparr>" for sc t bytes
    using assms(1) by (simp add: permanent_within_def wired_def fresh_extent_def PermanentExtent_default_def
        split: AuthorizationScope.split)
  ultimately show ?thesis
    using genesis_auth [of "expiry_bounded cfg" cfg g] genesis_auth [of permanent_within cfg g]
    by (simp add: genesis_def chain_inv_def used_ok_def pending_ok_def empty_rn_def
        untouched_inv genesis_untouched genesis_caps [OF assms(2)] genesis_balanced [OF assms(2)])
qed

lemma reachable_inv:
  assumes "wired cfg h" and "genesis_ok g" and "reachable cfg rc h g c"
  shows "chain_inv cfg rc h c"
  using assms(3) unfolding reachable_def
  by (induction rule: rtranclp_induct) (auto intro: genesis_inv [OF assms(1,2)] step_keeps [OF assms(1)])

section \<open>Retention\<close>

text \<open>Within a block, no call touches what earlier blocks stored.\<close>

definition fixed_history ::
    "(BlockNumber \<rightharpoonup> 'm StoredTxs) \<Rightarrow> BlockNumber \<Rightarrow> BlockNumber \<Rightarrow> ('m, 'x) ts \<Rightarrow> bool" where
  "fixed_history T p n s \<longleftrightarrow> Transactions s = T \<and> RetentionPeriod s = p \<and> block_number s = n"

interpretation hist: storage_invariant "fixed_history T p n" cfg h
  for T p n and cfg :: "('m, 'x) config" and h
  by unfold_locales (auto simp: fixed_history_def provider_op_defs)

interpretation rhist: renewal_invariant "fixed_history T p n" cfg h rc for T p n cfg h rc by unfold_locales

lemma in_block_history:
  assumes "step cfg rc h (True, s, r) (True, s', r')" and "pending_ok cfg r"
  shows "Transactions s' = Transactions s \<and> RetentionPeriod s' = RetentionPeriod s \<and> block_number s' = block_number s"
proof -
  let ?F = "fixed_history (Transactions s) (RetentionPeriod s) (block_number s)"
  have F: "?F s" by (simp add: fixed_history_def)
  have "?F s'"
    using assms(1)
  proof (cases rule: step.cases)
    case (extrinsic i)
    then show ?thesis by (simp add: fixed_history_def)
  qed (use F assms(2) in \<open>auto simp: pre_dispatch_renewal_signed_def res_simps promote_as_store simp del: dispatch.simps
        intro: hist.dispatch_keeps hist.pre_dispatch_keeps hist.pre_dispatch_signed_keeps
          rhist.keeps.renewal_dispatch_keeps rhist.keeps.renewal_pre_dispatch_keeps
          rhist.keeps.check_renewal_signed_keeps\<close>)
  then show ?thesis by (simp add: fixed_history_def)
qed

lemma step_history:
  assumes "wired cfg h" and "chain_inv cfg rc h (opn, s, r)" and "step cfg rc h (opn, s, r) (opn', s', r')"
  shows "RetentionPeriod s' = RetentionPeriod s" and "unat (block_number s) \<le> unat (block_number s')"
    and "tx_get s b = Some txs \<Longrightarrow> unat (block_number s') \<le> unat b + unat (RetentionPeriod s) \<Longrightarrow>
      tx_get s' b = Some txs"
proof -
  have "RetentionPeriod s' = RetentionPeriod s \<and> unat (block_number s) \<le> unat (block_number s')
      \<and> (tx_get s b = Some txs \<longrightarrow> unat (block_number s') \<le> unat b + unat (RetentionPeriod s) \<longrightarrow>
        tx_get s' b = Some txs)"
  proof (cases "opn \<and> opn'")
    case True
    then show ?thesis
      using in_block_history [of cfg rc h s r s' r'] assms(2,3) by (auto simp: chain_inv_def tx_get_def)
  next
    case False
    with assms(3) show ?thesis
    proof (cases rule: step.cases)
      case (open_block parent w)
      let ?b = "obsolete_block (next_block parent s) (block_number s + 1)"
      have s': "s' = (if ?b = 0 then next_block parent s else drop_block ?b (next_block parent s))"
        using open_block on_initialize_state [of cfg "handle_obsolete cfg rc" "block_number s + 1" "next_block parent s" r]
        by simp
      have n: "unat (block_number s + 1) = Suc (unat (block_number s))"
        using open_block unat_plus_one by blast
      have obs: "unat ?b = unat (block_number s) - unat (RetentionPeriod s)"
        using obsolete_block_next [of s] open_block by (simp add: obsolete_block_def retention_period_def)
      have get: "tx_get (next_block parent s) b = tx_get s b" by (simp add: tx_get_def)
      have "0 < unat b" if "tx_get s b = Some txs"
        using assms(2) that by (auto simp: chain_inv_def storage_inv_defs word_gt_0 unat_gt_0)
      then have "b \<noteq> ?b" if "tx_get s b = Some txs" "Suc (unat (block_number s)) \<le> unat b + unat (RetentionPeriod s)"
        using obs that by (auto simp: word_eq_unat)
      then show ?thesis using n by (auto simp: s' drop_block_get get)
    next
      case finalize
      then have s': "s' = seal_block (now (s\<lparr>ProofChecked := False\<rparr>)) (s\<lparr>ProofChecked := False\<rparr>)"
        by (simp add: on_finalize_Inr now_def)
      have "storage_inv cfg h True (s\<lparr>ProofChecked := False\<rparr>)"
        using assms(2) finalize by (simp add: chain_inv_def inv.proof_mark)
      note eq = seal_block_entries [OF this]
      have "b \<noteq> now s" if "tx_get s b = Some txs"
        using assms(2) finalize that by (auto simp: chain_inv_def storage_inv_defs)
      then show ?thesis
        using assms(1) eq unfolding s' by (auto simp: wired_def tx_get_def now_def)
    qed (use False in auto)
  qed
  then show "RetentionPeriod s' = RetentionPeriod s" and "unat (block_number s) \<le> unat (block_number s')"
    and "tx_get s b = Some txs \<Longrightarrow> unat (block_number s') \<le> unat b + unat (RetentionPeriod s) \<Longrightarrow>
      tx_get s' b = Some txs"
    by blast+
qed

lemma retained_steps:
  assumes "wired cfg h" and "(step cfg rc h)\<^sup>*\<^sup>* (opn, s, r) (opn', s', r')" and "chain_inv cfg rc h (opn, s, r)"
    and "tx_get s b = Some txs"
  shows "chain_inv cfg rc h (opn', s', r') \<and> RetentionPeriod s' = RetentionPeriod s \<and>
    (unat (block_number s') \<le> unat b + unat (RetentionPeriod s) \<longrightarrow> tx_get s' b = Some txs)"
proof -
  let ?Q = "\<lambda>(_, s', _). RetentionPeriod s' = RetentionPeriod s \<and>
    (unat (block_number s') \<le> unat b + unat (RetentionPeriod s) \<longrightarrow> tx_get s' b = Some txs)"
  have "chain_inv cfg rc h c \<and> ?Q c" if "(step cfg rc h)\<^sup>*\<^sup>* (opn, s, r) c" for c
    using that
  proof (induction rule: rtranclp_induct)
    case base
    then show ?case using assms(3,4) by simp
  next
    case (step c1 c2)
    obtain opn1 s1 r1 opn2 s2 r2 where c: "c1 = (opn1, s1, r1)" "c2 = (opn2, s2, r2)"
      by (metis prod_cases3)
    have inv: "chain_inv cfg rc h (opn1, s1, r1)" and st: "step cfg rc h (opn1, s1, r1) (opn2, s2, r2)"
      using step c by simp_all
    show ?case
      using step.IH step_keeps [OF assms(1) st inv] step_history(1,2) [OF assms(1) inv st]
        step_history(3) [OF assms(1) inv st, of b txs]
      by (auto simp: c)
  qed
  from this [OF assms(2)] show ?thesis by simp
qed

text \<open>Between blocks, a position in the content index is that of a stored entry, and the hash of every
  stored entry resolves to an entry with that hash.\<close>

lemma indexed_entry:
  assumes inv: "storage_inv cfg h False s" and p: "TransactionByContentHash s c = Some (b, i)"
  shows "\<exists>info. transaction_info s b i = Some info \<and> ti_content_hash info = c"
proof -
  have ok: "unat i < length (block_entries s b)" "ti_content_hash (block_entries s b ! unat i) = c"
    using inv p by (auto simp: storage_inv_def index_sound_def)
  then obtain txs where "tx_get s b = Some txs" "txs = block_entries s b"
    using inv by (auto simp: block_entries_def storage_inv_def split: option.splits if_splits)
  with ok show ?thesis by (simp add: transaction_info_def nth_opt_def)
qed

lemma stored_resolves:
  assumes inv: "storage_inv cfg h False s" and "tx_get s b = Some txs" and "t \<in> set txs"
  shows "\<exists>info. resolve_transaction_ref s (ByContentHash (ti_content_hash t)) = Inr info
    \<and> ti_content_hash info = ti_content_hash t"
proof -
  have "t \<in> set (block_entries s b)" using assms by (simp add: block_entries_def)
  then obtain b' i where p: "TransactionByContentHash s (ti_content_hash t) = Some (b', i)"
    using inv unfolding storage_inv_def index_complete_def by blast
  from indexed_entry [OF inv this] p show ?thesis by (auto simp: resolve_transaction_ref_def)
qed

end
