(* ===== verification/Ledger.thy ===== *)
theory Ledger
  imports Chain
begin

text \<open>
  The books of the data-renewal pallet: \<open>PermanentStorageUsed\<close> is, at every moment, the bytes of
  all renewed entries on the chain plus the bytes of the renewals that are paid for and not yet
  carried out. This is the equality that the pallet's \<open>do_try_state\<close> checks. It holds along chains
  whose renewal calls arrive as transactions (check and dispatch together, as the executive runs
  them) and whose Root neither renews by force nor withdraws a prepaid registration.
\<close>

section \<open>Transactions\<close>

text \<open>A transaction is checked and, when the check passes, dispatched with the origin the check
  authorises. What the check charged stays charged when the dispatch fails.\<close>

definition settle :: "'e + 'a \<Rightarrow> 'a \<Rightarrow> 'a" where
  "settle res a = (case res of Inl _ \<Rightarrow> a | Inr b \<Rightarrow> b)"

definition apply_renewal_signed ::
    "rconf \<Rightarrow> renewal_config \<Rightarrow> host \<Rightarrow> u32 \<Rightarrow> AccountId \<Rightarrow> RenewalCall \<Rightarrow> rts \<times> rn \<Rightarrow> InvalidTransaction + (rts \<times> rn)" where
  "apply_renewal_signed cfg rc h ext who call sr =
     map_ok (\<lambda>((_, scope), sr1).
         settle (renewal_dispatch cfg rc h
             (case scope of Some sc \<Rightarrow> StorageAuthorized who sc | None \<Rightarrow> Signed who) call sr1) sr1)
       (check_renewal_signed cfg rc h who call PreDispatch ((fst sr)\<lparr>extrinsic_index := Some ext\<rparr>, snd sr))"

definition apply_renewal_unsigned ::
    "rconf \<Rightarrow> renewal_config \<Rightarrow> host \<Rightarrow> u32 \<Rightarrow> RenewalCall \<Rightarrow> rts \<times> rn \<Rightarrow> InvalidTransaction + (rts \<times> rn)" where
  "apply_renewal_unsigned cfg rc h ext call sr =
     map_ok (\<lambda>sr1. settle (renewal_dispatch cfg rc h NoneOrigin call sr1) sr1)
       (renewal_pre_dispatch cfg rc h call ((fst sr)\<lparr>extrinsic_index := Some ext\<rparr>, snd sr))"

inductive tx_step :: "rconf \<Rightarrow> renewal_config \<Rightarrow> host \<Rightarrow> chain \<Rightarrow> chain \<Rightarrow> bool"
  for cfg rc h where
  hook: "step cfg rc h (opn, s, r) (\<not> opn, s', r') \<Longrightarrow> tx_step cfg rc h (opn, s, r) (\<not> opn, s', r')"
| extrinsic: "tx_step cfg rc h (True, s, r) (True, s\<lparr>extrinsic_index := Some ext\<rparr>, r)"
| unsigned: "pre_dispatch cfg h call s = Inr s' \<Longrightarrow> tx_step cfg rc h (True, s, r) (True, s', r)"
| signed: "pre_dispatch_signed cfg h who call s = Inr s' \<Longrightarrow> tx_step cfg rc h (True, s, r) (True, s', r)"
| call: "dispatch cfg h orig call s = Inr s' \<Longrightarrow> tx_step cfg rc h (True, s, r) (True, s', r)"
| promoted: "promote cfg h orig signer sig t data s = Inr s' \<Longrightarrow> tx_step cfg rc h (True, s, r) (True, s', r)"
| promoted_v2: "promote_v2 cfg h orig signer sig t rh data s = Inr s' \<Longrightarrow> tx_step cfg rc h (True, s, r) (True, s', r)"
| renewal_signed: "apply_renewal_signed cfg rc h ext who rcall (s, r) = Inr (s', r') \<Longrightarrow>
    tx_step cfg rc h (True, s, r) (True, s', r')"
| renewal_unsigned: "apply_renewal_unsigned cfg rc h ext rcall (s, r) = Inr (s', r') \<Longrightarrow>
    tx_step cfg rc h (True, s, r) (True, s', r')"
| root_disable: "Renewals r hash = Some data \<Longrightarrow> \<not> rd_paid data \<Longrightarrow>
    disable_auto_renew Root hash (s, r) = Inr (s', r') \<Longrightarrow> tx_step cfg rc h (True, s, r) (True, s', r')"

definition tx_reachable :: "rconf \<Rightarrow> renewal_config \<Rightarrow> host \<Rightarrow> GenesisConfig \<Rightarrow> chain \<Rightarrow> bool" where
  "tx_reachable cfg rc h g c \<longleftrightarrow> (tx_step cfg rc h)\<^sup>*\<^sup>* (genesis cfg g) c"

lemma settle_steps:
  assumes "(step cfg rc h)\<^sup>*\<^sup>* c (True, fst sr, snd sr)"
    and "settle (renewal_dispatch cfg rc h orig call sr) sr = (s', r')"
  shows "(step cfg rc h)\<^sup>*\<^sup>* c (True, s', r')"
proof (cases "renewal_dispatch cfg rc h orig call sr")
  case (Inr sr')
  then have "step cfg rc h (True, fst sr, snd sr) (True, s', r')"
    using assms(2) by (intro step.renewal_call [of cfg rc h orig call]) (simp add: settle_def)
  with assms(1) show ?thesis by (rule rtranclp.rtrancl_into_rtrancl)
qed (use assms in \<open>auto simp: settle_def\<close>)

lemma tx_step_steps:
  assumes "tx_step cfg rc h c c'"
  shows "(step cfg rc h)\<^sup>*\<^sup>* c c'"
  using assms
proof (cases rule: tx_step.cases)
  case (renewal_signed ext who rcall s r s' r')
  let ?s = "s\<lparr>extrinsic_index := Some ext\<rparr>"
  obtain v scope sr1 where c: "check_renewal_signed cfg rc h who rcall PreDispatch (?s, r) = Inr ((v, scope), sr1)"
    and d: "settle (renewal_dispatch cfg rc h
      (case scope of Some sc \<Rightarrow> StorageAuthorized who sc | None \<Rightarrow> Signed who) rcall sr1) sr1 = (s', r')"
    using renewal_signed(3) by (auto simp: apply_renewal_signed_def res_simps)
  have "step cfg rc h (True, s, r) (True, ?s, r)" by (rule step.extrinsic)
  moreover have "step cfg rc h (True, ?s, r) (True, fst sr1, snd sr1)"
    using c by (intro step.renewal_signed [of cfg rc h who rcall]) (simp add: pre_dispatch_renewal_signed_def)
  ultimately have "(step cfg rc h)\<^sup>*\<^sup>* c (True, fst sr1, snd sr1)" by (simp add: renewal_signed(1))
  from settle_steps [OF this d] show ?thesis by (simp add: renewal_signed(2))
next
  case (renewal_unsigned ext rcall s r s' r')
  let ?s = "s\<lparr>extrinsic_index := Some ext\<rparr>"
  obtain sr1 where c: "renewal_pre_dispatch cfg rc h rcall (?s, r) = Inr sr1"
    and d: "settle (renewal_dispatch cfg rc h NoneOrigin rcall sr1) sr1 = (s', r')"
    using renewal_unsigned(3) by (auto simp: apply_renewal_unsigned_def res_simps)
  have "step cfg rc h (True, s, r) (True, ?s, r)" by (rule step.extrinsic)
  moreover have "step cfg rc h (True, ?s, r) (True, fst sr1, snd sr1)"
    using c by (intro step.renewal_unsigned [of cfg rc h rcall]) simp
  ultimately have "(step cfg rc h)\<^sup>*\<^sup>* c (True, fst sr1, snd sr1)" by (simp add: renewal_unsigned(1))
  from settle_steps [OF this d] show ?thesis by (simp add: renewal_unsigned(2))
next
  case (root_disable r hash data s s' r')
  then have "renewal_dispatch cfg rc h Root (RCall_disable_auto_renew hash) (s, r) = Inr (s', r')" by simp
  from step.renewal_call [OF this] show ?thesis by (simp add: root_disable(1,2))
qed (auto intro: step.intros)

lemma tx_reachable_reachable:
  assumes "tx_reachable cfg rc h g c"
  shows "reachable cfg rc h g c"
  using assms unfolding tx_reachable_def reachable_def
  by (induction rule: rtranclp_induct) (auto dest: tx_step_steps)

section \<open>The books\<close>

definition renewed_size :: "info list \<Rightarrow> nat" where
  "renewed_size es = sum_list (map (\<lambda>t. unat (ti_size t)) (filter (\<lambda>t. is_renew (ti_meta t)) es))"

definition renewed_total :: "rts \<Rightarrow> nat" where
  "renewed_total s = (\<Sum>b\<in>UNIV. renewed_size (block_entries s b))"

definition paid :: "rn \<Rightarrow> ContentHash set" where
  "paid r = {c. \<exists>d. Renewals r c = Some d \<and> rd_paid d}"

text \<open>The size of a blob is determined by its hash: no two admissible blobs of different lengths
  have the same content hash. \<open>size_of\<close> gives the length.\<close>

definition sizes_bound :: "rconf \<Rightarrow> host \<Rightarrow> (ContentHash \<Rightarrow> nat) \<Rightarrow> bool" where
  "sizes_bound cfg h size_of \<longleftrightarrow> (\<forall>a data. data_size_ok cfg (unat (of_nat (length data) :: u32)) \<longrightarrow>
     size_of (hash_with h a data) = unat (of_nat (length data) :: u32))"

definition books_wired :: "rconf \<Rightarrow> renewal_config \<Rightarrow> host \<Rightarrow> (ContentHash \<Rightarrow> nat) \<Rightarrow> bool" where
  "books_wired cfg rc h size_of \<longleftrightarrow> sizes_bound cfg h size_of \<and> EntryMeta_default cfg = Store
     \<and> MaxPermanentStorageSize rc \<noteq> - 1"

definition balanced :: "(ContentHash \<Rightarrow> nat) \<Rightarrow> rts \<Rightarrow> rn \<Rightarrow> bool" where
  "balanced size_of s r \<longleftrightarrow> finite (dom (Renewals r))
     \<and> unat (PermanentStorageUsed r) = renewed_total s + sum size_of (paid r)"

text \<open>Every registration has a target on the chain or waits in the queue \<open>q\<close>; what waits in the
  queue is registered as it was, unless its owner withdrew it, and is stored nowhere else.\<close>

definition books :: "(ContentHash \<Rightarrow> nat) \<Rightarrow> (ContentHash \<times> info \<times> RenewalData) list \<Rightarrow> rts \<Rightarrow> rn \<Rightarrow> bool" where
  "books size_of q s r \<longleftrightarrow> balanced size_of s r
     \<and> (\<forall>b t. t \<in> set (block_entries s b) \<longrightarrow> unat (ti_size t) = size_of (ti_content_hash t))
     \<and> (\<forall>c. Renewals r c \<noteq> None \<longrightarrow> TransactionByContentHash s c \<noteq> None \<or> c \<in> fst ` set q)
     \<and> distinct (map fst q)
     \<and> (\<forall>c t d. (c, t, d) \<in> set q \<longrightarrow> ti_content_hash t = c \<and> unat (ti_size t) = size_of c
          \<and> (Renewals r c = Some d \<or> \<not> rd_paid d \<and> Renewals r c = None)
          \<and> (\<forall>b txs. tx_get s b = Some txs \<longrightarrow> c \<notin> ti_content_hash ` set txs))"

lemma renewed_size_simps [simp]:
  "renewed_size [] = 0"
  "renewed_size (es @ es') = renewed_size es + renewed_size es'"
  "renewed_size [t] = (if is_renew (ti_meta t) then unat (ti_size t) else 0)"
  by (simp_all add: renewed_size_def)

lemma renewed_total_append:
  assumes "storage_inv cfg h True s"
  shows "renewed_total (host_call c (append_entry h e s))
    = renewed_total s + (if is_renew (ti_meta e) then unat (ti_size e) else 0)"
proof -
  have st: "stored_ok cfg h True s" using assms by (simp add: storage_inv_def)
  have "block_entries (host_call c (append_entry h e s)) b = block_entries (append_entry h e s) b" for b
    by (rule block_entries_frame) simp_all
  then have "renewed_size (block_entries (host_call c (append_entry h e s)) b) = renewed_size (block_entries s b)
      + (if b = now s then if is_renew (ti_meta e) then unat (ti_size e) else 0 else 0)" for b
    by (simp add: append_block_entries(1) [OF st])
  then show ?thesis by (simp add: renewed_total_def sum.distrib)
qed

text \<open>Writing one registration moves the sum by what it owes.\<close>

definition owed :: "(ContentHash \<Rightarrow> nat) \<Rightarrow> RenewalData option \<Rightarrow> ContentHash \<Rightarrow> nat" where
  "owed size_of v c = (case v of Some d \<Rightarrow> if rd_paid d then size_of c else 0 | None \<Rightarrow> 0)"

lemma finite_paid: "finite (dom (Renewals r)) \<Longrightarrow> finite (paid r)"
  by (rule finite_subset [of _ "dom (Renewals r)"]) (auto simp: paid_def)

lemma paid_split:
  assumes "finite (dom (Renewals r))"
  shows "sum size_of (paid r) = sum size_of (paid r - {c}) + owed size_of (Renewals r c) c"
proof (cases "c \<in> paid r")
  case True
  then show ?thesis
    using sum.remove [OF finite_paid [OF assms] True, of size_of] by (auto simp: paid_def owed_def)
next
  case False
  then show ?thesis by (auto simp: paid_def owed_def split: option.split)
qed

lemma paid_update:
  assumes "finite (dom (Renewals r))" and "Renewals r' = (Renewals r)(c := v)"
  shows "finite (dom (Renewals r'))"
    and "sum size_of (paid r') + owed size_of (Renewals r c) c = sum size_of (paid r) + owed size_of v c"
proof -
  show fin: "finite (dom (Renewals r'))" using assms by (cases v) simp_all
  have "paid r' - {c} = paid r - {c}" by (auto simp: paid_def assms(2))
  then show "sum size_of (paid r') + owed size_of (Renewals r c) c = sum size_of (paid r) + owed size_of v c"
    using paid_split [OF assms(1), of size_of c] paid_split [OF fin, of size_of c] by (simp add: assms(2))
qed

text \<open>The books depend on four components of the storage pallet's state and two of this one's.\<close>

lemma books_cong:
  assumes "\<And>b. block_entries s' b = block_entries s b" "Transactions s' = Transactions s"
    "TransactionByContentHash s' = TransactionByContentHash s"
    "Renewals r' = Renewals r" "PermanentStorageUsed r' = PermanentStorageUsed r"
  shows "books size_of q s' r' = books size_of q s r"
  using assms by (simp add: books_def balanced_def renewed_total_def paid_def tx_get_def)

lemma books_frame:
  assumes "Transactions s' = Transactions s" "BlockTransactions s' = BlockTransactions s"
    "block_number s' = block_number s" "TransactionByContentHash s' = TransactionByContentHash s"
    "Renewals r' = Renewals r" "PermanentStorageUsed r' = PermanentStorageUsed r"
  shows "books size_of q s' r' = books size_of q s r"
  by (rule books_cong [OF block_entries_frame [OF assms(1-3)] assms(1,4-6)])

text \<open>An appended entry is booked; its content then has a target.\<close>

lemma books_append:
  assumes inv: "storage_inv cfg h True s" and books: "books size_of q s r"
    and size: "unat (ti_size e) = size_of (ti_content_hash e)"
    and "Renewals r' = Renewals r"
    and used: "unat (PermanentStorageUsed r') = unat (PermanentStorageUsed r)
      + (if is_renew (ti_meta e) then unat (ti_size e) else 0)"
  shows "books size_of q (host_call c (append_entry h e s)) r'"
proof -
  let ?s = "host_call c (append_entry h e s)"
  have st: "stored_ok cfg h True s" using inv by (simp add: storage_inv_def)
  have "block_entries ?s b = block_entries (append_entry h e s) b" for b
    by (rule block_entries_frame) simp_all
  then have "unat (ti_size t) = size_of (ti_content_hash t)" if "t \<in> set (block_entries ?s b)" for b t
    using that books size by (auto simp: append_block_entries(1) [OF st] books_def split: if_splits)
  moreover have "tx_get ?s b = tx_get s b" for b by (simp add: tx_get_def)
  ultimately show ?thesis
    using books renewed_total_append [OF inv, of c e] assms(4) used
    by (auto simp: books_def balanced_def paid_def)
qed

section \<open>Storage calls\<close>

definition books_kept :: "rconf \<Rightarrow> renewal_config \<Rightarrow> host \<Rightarrow> (ContentHash \<Rightarrow> nat)
    \<Rightarrow> (ContentHash \<times> info \<times> RenewalData) list \<Rightarrow> rn \<Rightarrow> rts \<Rightarrow> bool" where
  "books_kept cfg rc h size_of q r s \<longleftrightarrow> books_wired cfg rc h size_of \<longrightarrow>
     storage_inv cfg h True s \<and> books size_of q s r"

lemma books_kept_frame:
  assumes "books_kept cfg rc h size_of q r s"
    and "Transactions s' = Transactions s" "BlockTransactions s' = BlockTransactions s"
    "block_number s' = block_number s" "RetentionPeriod s' = RetentionPeriod s"
    "TransactionByContentHash s' = TransactionByContentHash s"
  shows "books_kept cfg rc h size_of q r s'"
  using assms storage_inv_frame [OF assms(2-6)] books_frame [OF assms(2-4,6)] by (simp add: books_kept_def)

interpretation kept: storage_changes "books_kept cfg rc h size_of q r" cfg h for cfg rc h size_of q r
proof
  fix s ext hashing codec and data :: "u8 list"
  assume kept: "books_kept cfg rc h size_of q r s"
    and room: "length (BlockTransactions s) < unat (MaxBlockTransactions cfg)"
    and size: "data_size_ok cfg (unat (of_nat (length data) :: u32))"
  let ?e = "stored_entry cfg h data hashing codec ext"
  show "books_kept cfg rc h size_of q r (host_call (HcIndex ext (of_nat (length data)) (hash_with h hashing data))
      (append_entry h ?e s))"
    unfolding books_kept_def
  proof
    assume w: "books_wired cfg rc h size_of"
    then have "storage_inv cfg h True s" "books size_of q s r" using kept by (simp_all add: books_kept_def)
    with w size show "storage_inv cfg h True (host_call (HcIndex ext (of_nat (length data)) (hash_with h hashing data))
        (append_entry h ?e s)) \<and> books size_of q (host_call (HcIndex ext (of_nat (length data)) (hash_with h hashing data))
        (append_entry h ?e s)) r"
      by (auto simp: books_wired_def sizes_bound_def is_renew_def intro!: append_storage_inv room books_append)
  qed
qed (erule books_kept_frame; simp add: provider_op_defs)+

section \<open>Renewal transactions\<close>

lemma charge_exact:
  assumes "check_renew_authorization rc sc sz True (s, r) = Inr (s1, r1)" and "MaxPermanentStorageSize rc \<noteq> - 1"
  obtains A where "s1 = s\<lparr>Authorizations := A\<rparr>" "Renewals r1 = Renewals r"
    "PendingRenewals r1 = PendingRenewals r"
    "unat (PermanentStorageUsed r1) = unat (PermanentStorageUsed r) + unat sz"
proof -
  have "unat (MaxPermanentStorageSize rc) < 2 ^ 64 - 1"
    using assms(2) unat_le_max [of "MaxPermanentStorageSize rc"]
    by (auto simp: word_eq_unat unat_minus_one_eq le_less)
  then have "unat (sat_add (PermanentStorageUsed r) (u32_to_u64 sz)) = unat (PermanentStorageUsed r) + unat sz"
    if "\<not> MaxPermanentStorageSize rc < sat_add (PermanentStorageUsed r) (u32_to_u64 sz)"
    using that by (auto simp: word_nat)
  then show thesis
    using assms(1) that by (auto simp: check_renew_authorization_eq split: option.splits if_splits)
qed

lemma books_register:
  assumes "books size_of q s r" and upd: "Renewals r' = (Renewals r)(c := v)"
    and used: "unat (PermanentStorageUsed r') + owed size_of (Renewals r c) c
      = unat (PermanentStorageUsed r) + owed size_of v c"
    and "v \<noteq> None \<Longrightarrow> TransactionByContentHash s c \<noteq> None"
    and "\<And>t d. (c, t, d) \<in> set q \<Longrightarrow> v = Some d \<or> \<not> rd_paid d \<and> v = None"
  shows "books size_of q s r'"
proof -
  have "finite (dom (Renewals r))" using assms(1) by (simp add: books_def balanced_def)
  note p = paid_update [OF this upd]
  have "balanced size_of s r'" using assms(1) p(1) p(2) [of size_of] used by (simp add: books_def balanced_def)
  then show ?thesis
    using assms by (auto simp: books_def)
qed

lemma queued:
  assumes "books size_of q s r" and "(c, t, d) \<in> set q"
  shows "ti_content_hash t = c" and "unat (ti_size t) = size_of c"
    and "Renewals r c = Some d \<or> \<not> rd_paid d \<and> Renewals r c = None"
  using assms unfolding books_def by blast+

lemma stored_entry_booked:
  assumes inv: "storage_inv cfg h opn s" and books: "books size_of q s r"
    and "tx_get s b = Some txs" and "info \<in> set txs"
  shows "unat (ti_size info) = size_of (ti_content_hash info)"
    and "TransactionByContentHash s (ti_content_hash info) \<noteq> None"
    and "(ti_content_hash info, t, d) \<notin> set q"
proof -
  have "info \<in> set (block_entries s b)" using assms by (simp add: block_entries_def)
  then show "unat (ti_size info) = size_of (ti_content_hash info)"
    "TransactionByContentHash s (ti_content_hash info) \<noteq> None"
    using inv books by (fastforce simp: books_def storage_inv_def index_complete_def)+
  show "(ti_content_hash info, t, d) \<notin> set q"
    using books assms(3,4) unfolding books_def by blast
qed

lemma resolved_entry:
  assumes "resolve_transaction_ref s entry = Inr info"
  obtains b txs where "tx_get s b = Some txs" "info \<in> set txs"
  using assms by (auto simp: resolve_transaction_ref_def transaction_info_def nth_opt_def res_simps
      split: TransactionRef.splits option.splits if_splits)

lemma looked_up_entry:
  assumes "storage_inv cfg h True s" and "TransactionByContentHash s c = Some (b, i)"
    and "transaction_info s b i = Some info"
  obtains txs where "tx_get s b = Some txs" "info \<in> set txs" "ti_content_hash info = c"
proof -
  obtain txs where txs: "tx_get s b = Some txs" "unat i < length txs" "info = txs ! unat i"
    using assms(3) by (auto simp: transaction_info_def nth_opt_def split: option.splits if_splits)
  moreover have "ti_content_hash (block_entries s b ! unat i) = c"
    using assms(1,2) by (simp add: storage_inv_def index_sound_def)
  ultimately show thesis using that by (simp add: block_entries_def)
qed

text \<open>A charged renewal that is carried out at once.\<close>

lemma books_force_renew:
  assumes inv: "storage_inv cfg h True s" and books: "books size_of q s r"
    and cap: "MaxPermanentStorageSize rc \<noteq> - 1"
    and info: "resolve_transaction_ref s entry = Inr info" "data_size_ok cfg (unat (ti_size info))"
    and room: "\<not> block_transactions_full cfg s" and ext: "extrinsic_index s = Some ext"
    and charge: "check_renew_authorization rc sc (ti_size info) True (s, r) = Inr (s1, r1)"
    and caller: "ensure_authorized orig = (Inr caller :: RenewalError DispatchError + AuthorizedCaller)"
    and run: "settle (force_renew cfg h orig entry (s1, r1)) (s1, r1) = (s', r')"
  shows "books size_of q s' r'"
proof -
  obtain A where s1: "s1 = s\<lparr>Authorizations := A\<rparr>"
    and r1: "Renewals r1 = Renewals r" "unat (PermanentStorageUsed r1) = unat (PermanentStorageUsed r) + unat (ti_size info)"
    using charge_exact [OF charge cap] by metis
  obtain b txs where "tx_get s b = Some txs" "info \<in> set txs" using resolved_entry [OF info(1)] .
  note entry = stored_entry_booked(1) [OF inv books this]
  let ?e = "info\<lparr>ti_extrinsic_index := ext, ti_meta := Renew\<rparr>"
  have "length (BlockTransactions s) < unat (MaxBlockTransactions cfg)"
  proof (rule ccontr)
    assume "\<not> ?thesis"
    moreover have "length (BlockTransactions s) \<le> unat (MaxBlockTransactions cfg)"
      using inv by (simp add: storage_inv_defs block_ok_def)
    ultimately have "of_nat (length (BlockTransactions s)) = MaxBlockTransactions cfg" by simp
    with room show False by (simp add: block_transactions_full_def block_transactions_count_def)
  qed
  then have f: "force_renew cfg h orig entry (s1, r1) = Inr (host_call (HcRenew ext (ti_content_hash info))
      (append_entry h ?e s1), r_event (EvRenewed (of_nat (length (BlockTransactions s))) (ti_content_hash info)) r1)"
    using info ext caller check_renew_frame(1) [OF charge, of entry]
    by (simp add: force_renew_Inr s1)
  have "storage_inv cfg h True s1" using inv by (subst storage_inv_frame [of _ s]) (simp_all add: s1)
  moreover have "books size_of q s1 r" using books by (subst books_frame [of _ s _ r]) (simp_all add: s1)
  ultimately show ?thesis
    using run f entry r1 by (auto simp: settle_def is_renew_def intro!: books_append)
qed

text \<open>A charged registration.\<close>

lemma books_registration:
  assumes inv: "storage_inv cfg h True s" and books: "books size_of q s r"
    and cap: "MaxPermanentStorageSize rc \<noteq> - 1"
    and info: "tx_get s b = Some txs" "info \<in> set txs" "Renewals r (ti_content_hash info) = None"
    and charge: "check_renew_authorization rc sc (ti_size info) True (s, r) = Inr (s1, r1)"
  shows "books size_of q s1 (r_event ev (r1\<lparr>Renewals := (Renewals r1)(ti_content_hash info \<mapsto> registration who f)\<rparr>))"
proof -
  obtain A where s1: "s1 = s\<lparr>Authorizations := A\<rparr>"
    and r1: "Renewals r1 = Renewals r" "unat (PermanentStorageUsed r1) = unat (PermanentStorageUsed r) + unat (ti_size info)"
    using charge_exact [OF charge cap] by metis
  note entry = stored_entry_booked [OF inv books info(1,2)]
  have "books size_of q s1 r" using books by (subst books_frame [of _ s _ r]) (simp_all add: s1)
  then show ?thesis
    by (rule books_register [where c = "ti_content_hash info" and v = "Some (registration who f)"])
      (use entry info(3) in \<open>simp_all add: r1 s1 owed_def registration_def\<close>)
qed

lemma books_disable:
  assumes "books size_of q s r" and "Renewals r c = Some data" and "\<not> rd_paid data"
  shows "books size_of q s (r_event ev (r\<lparr>Renewals := (Renewals r)(c := None)\<rparr>))"
  by (rule books_register [OF assms(1), where c = c and v = None])
    (use assms queued(3) [OF assms(1), of c] in \<open>fastforce simp: owed_def\<close>)+

section \<open>The drain\<close>

lemma books_pop:
  assumes "books size_of ((c, t, d) # q) s r" and upd: "Renewals r' = (Renewals r)(c := v)"
    and used: "unat (PermanentStorageUsed r') + owed size_of (Renewals r c) c
      = unat (PermanentStorageUsed r) + owed size_of v c"
    and "v = None"
  shows "books size_of q s r'"
proof -
  have "finite (dom (Renewals r))" using assms(1) by (simp add: books_def balanced_def)
  note p = paid_update [OF this upd]
  have "balanced size_of s r'" using assms(1) p(1) p(2) [of size_of] used by (simp add: books_def balanced_def)
  then show ?thesis
    using assms by (auto simp: books_def rev_image_eqI)
qed

lemma books_pop_append:
  assumes inv: "storage_inv cfg h True s" and books: "books size_of ((c, t, d) # q) s r"
    and upd: "Renewals r' = (Renewals r)(c := v)"
    and used: "unat (PermanentStorageUsed r') + owed size_of (Renewals r c) c
      = unat (PermanentStorageUsed r) + size_of c + owed size_of v c"
  shows "books size_of q (host_call hc (append_entry h (t\<lparr>ti_extrinsic_index := ext, ti_meta := Renew\<rparr>) s)) r'"
proof -
  let ?e = "t\<lparr>ti_extrinsic_index := ext, ti_meta := Renew\<rparr>"
  let ?s = "host_call hc (append_entry h ?e s)"
  have t: "ti_content_hash t = c" "unat (ti_size t) = size_of c" using queued(1,2) [OF books, of c t d] by simp_all
  have "finite (dom (Renewals r))" using books by (simp add: books_def balanced_def)
  note p = paid_update [OF this upd]
  have "renewed_total ?s = renewed_total s + size_of c"
    using renewed_total_append [OF inv, of hc ?e] t by (simp add: is_renew_def)
  then have bal: "balanced size_of ?s r'"
    using books p(1) p(2) [of size_of] used by (simp add: books_def balanced_def)
  have st: "stored_ok cfg h True s" using inv by (simp add: storage_inv_def)
  have "block_entries ?s b = block_entries (append_entry h ?e s) b" for b
    by (rule block_entries_frame) simp_all
  then have "unat (ti_size x) = size_of (ti_content_hash x)" if "x \<in> set (block_entries ?s b)" for b x
    using that books t by (auto simp: append_block_entries(1) [OF st] books_def split: if_splits)
  moreover have "tx_get ?s b = tx_get s b" for b by (simp add: tx_get_def)
  ultimately show ?thesis
    using books bal t by (auto simp: books_def upd rev_image_eqI)
qed

lemma owed_le_used:
  assumes "books size_of q s r"
  shows "owed size_of (Renewals r c) c \<le> unat (PermanentStorageUsed r)"
  using assms paid_split [of r size_of c] by (simp add: books_def balanced_def)

lemma drain_renewed_registry:
  "Renewals (drain_renewed c d i r) = (Renewals r)(c :=
     (if \<not> rd_recurring d then None
      else if rd_paid d then map_option (\<lambda>d. d\<lparr>rd_paid := False\<rparr>) (Renewals r c) else Renewals r c))"
  by (simp add: drain_renewed_def)

lemma drain_failed_registry [simp]: "Renewals (drain_failed rc c t d ch r) = (Renewals r)(c := None)"
  by (simp add: drain_failed_def Let_def)

lemma books_drain_one:
  assumes inv: "storage_inv cfg h True (plain b)" and books: "books size_of ((c, t, d) # q) (plain b) r"
    and cap: "MaxPermanentStorageSize rc \<noteq> - 1"
    and st: "drain_one cfg rc h ext (c, t, d) (r, b) = (r', b')"
  shows "books size_of q (plain b') r'"
proof -
  obtain es s where b: "b = (es, s)" by (cases b)
  obtain ch s1 r1 where charge: "drain_charge rc t d (s, r) = (ch, s1, r1)" by (metis prod_cases3)
  note reg = queued [OF books, of c t d, simplified]
  have old: "owed size_of (Renewals r c) c = (if rd_paid d then size_of c else 0)"
    using reg(3) by (auto simp: owed_def)
  have c1: "Renewals r1 = Renewals r" "s1 = s\<lparr>Authorizations := Authorizations s1\<rparr>"
    "\<not> ch \<Longrightarrow> \<not> rd_paid d \<and> r1 = r"
    "ch \<Longrightarrow> unat (PermanentStorageUsed r1) = unat (PermanentStorageUsed r) + (if rd_paid d then 0 else size_of c)"
    using charge reg(2) by (auto simp: drain_charge_def split: if_splits sum.splits elim!: charge_exact [OF _ cap])
  let ?b1 = "(es, s1)"
  have frame: "Transactions (plain ?b1) = Transactions (plain b)" "BlockTransactions (plain ?b1) = BlockTransactions (plain b)"
    "block_number (plain ?b1) = block_number (plain b)" "RetentionPeriod (plain ?b1) = RetentionPeriod (plain b)"
    "TransactionByContentHash (plain ?b1) = TransactionByContentHash (plain b)"
    by (subst c1(2), simp add: plain_def b)+
  have inv1: "storage_inv cfg h True (plain ?b1)" using inv storage_inv_frame [OF frame] by simp
  have books1: "books size_of ((c, t, d) # q) (plain ?b1) r"
    using books books_frame [OF frame(1-3,5), of r r] by simp
  show ?thesis
  proof (cases "ch \<and> length es < unat (MaxBlockTransactions cfg)")
    case True
    note pr = plain_renew [of ?b1 cfg h t ext RenewMeta_renew, simplified, OF conjunct2 [OF True]]
    have r': "r' = drain_renewed c d (of_nat (length es)) r1"
      and b': "plain b' = host_call (HcRenew ext (ti_content_hash t))
        (append_entry h (t\<lparr>ti_extrinsic_index := ext, ti_meta := Renew\<rparr>) (plain ?b1))"
      using st True charge pr by (auto simp: drain_one_def b RenewMeta_renew_def split: prod.splits)
    obtain v where v: "Renewals r' = (Renewals r)(c := v)" "owed size_of v c = 0"
    proof
      show "Renewals r' = (Renewals r)(c :=
         (if \<not> rd_recurring d then None
          else if rd_paid d then map_option (\<lambda>d. d\<lparr>rd_paid := False\<rparr>) (Renewals r c) else Renewals r c))"
        by (simp add: r' drain_renewed_registry c1(1))
    qed (use reg(3) in \<open>auto simp: owed_def\<close>)
    show ?thesis unfolding b'
      by (rule books_pop_append [OF inv1 books1 v(1)]) (use c1(4) True old v(2) in \<open>simp add: r'\<close>)
  next
    case False
    then have r': "r' = drain_failed rc c t d ch r1" and b': "plain b' = plain ?b1"
      using st charge plain_renew_full [of cfg ?b1 h t ext RenewMeta_renew]
      by (auto simp: drain_one_def b split: if_splits)
    have "Renewals r' = (Renewals r)(c := None)" by (simp add: r' c1(1))
    moreover have "unat (PermanentStorageUsed r') + owed size_of (Renewals r c) c
        = unat (PermanentStorageUsed r) + owed size_of None c"
      using c1(3,4) old owed_le_used [OF books, of c] reg(2) by (auto simp: r' owed_def word_nat)
    ultimately show ?thesis unfolding b' by (rule books_pop [OF books1]) simp
  qed
qed

lemma books_drain:
  assumes "storage_inv cfg h True (plain b)" and "books size_of q (plain b) r"
    and "MaxPermanentStorageSize rc \<noteq> - 1"
    and "\<forall>(c, t, d) \<in> set q. data_size_ok cfg (unat (ti_size t))"
    and "fold (drain_one cfg rc h ext) q (r, b) = (r', b')"
  shows "books size_of [] (plain b') r'"
  using assms
proof (induction q arbitrary: r b)
  case (Cons item q)
  obtain c t d where item: "item = (c, t, d)" by (cases item)
  obtain r1 b1 where one: "drain_one cfg rc h ext item (r, b) = (r1, b1)" by (metis surj_pair)
  have "storage_inv cfg h True (plain b1)"
    using rinv.keeps.drain_one_keeps [of cfg h b t rc ext c d r] Cons.prems one by (simp add: item)
  moreover have "books size_of q (plain b1) r1"
    using books_drain_one [of cfg h b size_of c t d q r rc ext r1 b1] Cons.prems one by (simp add: item)
  ultimately show ?case using Cons one by auto
qed simp

section \<open>Every step keeps the books\<close>

definition chain_books :: "(ContentHash \<Rightarrow> nat) \<Rightarrow> chain \<Rightarrow> bool" where
  "chain_books size_of c \<longleftrightarrow> (case c of (opn, s, r) \<Rightarrow>
     books size_of (PendingRenewals r) s r \<and> length (PendingRenewals r) < 2 ^ 32)"

lemma process_pending_books:
  assumes inv: "storage_inv cfg h True s" and books: "books size_of (PendingRenewals r) s r"
    and cap: "MaxPermanentStorageSize rc \<noteq> - 1" and ok: "pending_ok cfg r"
    and ext: "extrinsic_index s = Some ext"
    and run: "do_process_pending_renewals cfg rc h (s, r) = (n, s', r')"
    and short: "length (PendingRenewals r) < 2 ^ 32"
  shows "books size_of (PendingRenewals r') s' r'"
proof -
  let ?r = "r\<lparr>PendingRenewals := []\<rparr>"
  obtain r2 b2 where f: "fold (drain_one cfg rc h ext) (PendingRenewals r) (?r, BlockTransactions s, s) = (r2, b2)"
    by (metis surj_pair)
  have "books size_of [] (plain b2) r2"
  proof (rule books_drain [OF _ _ cap _ f])
    show "books size_of (PendingRenewals r) (plain (BlockTransactions s, s)) ?r"
      using books by (subst books_frame [of _ s _ r]) simp_all
  qed (use inv ok in \<open>auto simp: pending_ok_def\<close>)
  moreover have "(of_nat (length (PendingRenewals r)) = (0 :: u32)) = (PendingRenewals r = [])"
    using short unat_of_nat_u32 [of "length (PendingRenewals r)"] by (auto simp: unat_eq_zero [symmetric])
  moreover have "PendingRenewals r' = []" using process_pending_drains [of cfg rc h s r] run by simp
  ultimately show ?thesis
    using run f ext books books_frame [of s s ?r r]
    by (auto simp: do_process_pending_renewals_def Let_def with_block_transactions_plain split: if_splits)
qed

lemma settle_Inr [simp]: "settle (Inr a) b = a"
  by (simp add: settle_def)

lemma signed_books:
  assumes inv: "storage_inv cfg h True s" and books: "books size_of q s r"
    and cap: "MaxPermanentStorageSize rc \<noteq> - 1"
    and run: "apply_renewal_signed cfg rc h ext who call (s, r) = Inr (s', r')"
  shows "books size_of q s' r'"
proof -
  let ?s = "s\<lparr>extrinsic_index := Some ext\<rparr>"
  have inv0: "storage_inv cfg h True ?s" using inv by (subst storage_inv_frame [of _ s]) simp_all
  have books0: "books size_of q ?s r" using books by (subst books_frame [of _ s _ r]) simp_all
  obtain v scope s1 r1 where c: "check_renewal_signed cfg rc h who call PreDispatch (?s, r) = Inr ((v, scope), s1, r1)"
    and d: "settle (renewal_dispatch cfg rc h
      (case scope of Some sc \<Rightarrow> StorageAuthorized who sc | None \<Rightarrow> Signed who) call (s1, r1)) (s1, r1) = (s', r')"
    using run by (auto simp: apply_renewal_signed_def res_simps)
  show ?thesis
  proof (cases call)
    case (RCall_renew entry)
    with c obtain info where info: "resolve_transaction_ref ?s entry = Inr info" "Renewals r (ti_content_hash info) = None"
      and charge: "check_renew_authorization rc (Account who) (ti_size info) True (?s, r) = Inr (s1, r1)"
      and scope: "scope = Some (Account who)"
      by (auto simp: check_renew_signed_def res_simps split: if_splits)
    obtain b txs where e: "tx_get ?s b = Some txs" "info \<in> set txs" using resolved_entry [OF info(1)] .
    have "renew (StorageAuthorized who (Account who)) entry (s1, r1) = Inr (s1,
        r_event (EvRenewalEnabled (ti_content_hash info) who False)
          (r1\<lparr>Renewals := (Renewals r1)(ti_content_hash info \<mapsto> registration who False)\<rparr>))"
      using info check_renew_frame(1,4) [OF charge] by (simp add: renew_Inr)
    with d scope RCall_renew books_registration [OF inv0 books0 cap e info(2) charge] show ?thesis by auto
  next
    case (RCall_enable_auto_renew hash)
    with c obtain b i info where info: "lookup_by_content_hash ?s hash = Some (b, i)" "transaction_info ?s b i = Some info"
        "Renewals r hash = None"
      and charge: "check_renew_authorization rc (Account who) (ti_size info) True (?s, r) = Inr (s1, r1)"
      and scope: "scope = Some (Account who)"
      by (auto simp: check_enable_auto_renew_signed_def res_simps split: if_splits)
    obtain txs where e: "tx_get ?s b = Some txs" "info \<in> set txs" "ti_content_hash info = hash"
      using looked_up_entry [OF inv0 _ info(2)] info(1) unfolding lookup_by_content_hash_def .
    have "enable_auto_renew (StorageAuthorized who (Account who)) hash (s1, r1) = Inr (s1,
        r_event (EvRenewalEnabled hash who True)
          (r1\<lparr>Renewals := (Renewals r1)(hash \<mapsto> registration who True)\<rparr>))"
      using info check_renew_frame(2,3,4) [OF charge] by (simp add: enable_auto_renew_Inr)
    with d scope RCall_enable_auto_renew e(3) info(3) books_registration [OF inv0 books0 cap e(1,2) _ charge]
    show ?thesis by auto
  next
    case (RCall_force_renew entry)
    with c obtain info sc where info: "resolve_transaction_ref ?s entry = Inr info" "data_size_ok cfg (unat (ti_size info))"
        "\<not> block_transactions_full cfg ?s" "scope = Some sc"
      and charge: "check_renew_authorization rc sc (ti_size info) True (?s, r) = Inr (s1, r1)"
      by (auto simp: check_force_renew_signed_def authorize_renew_def res_simps split: if_splits sum.splits)
    show ?thesis
      by (rule books_force_renew [OF inv0 books0 cap info(1-3) _ charge])
        (use d RCall_force_renew info(4) in simp_all)
  next
    case (RCall_disable_auto_renew hash)
    with c obtain data where data: "Renewals r hash = Some data" "\<not> rd_paid data" "s1 = ?s" "r1 = r"
      by (auto simp: check_disable_auto_renew_signed_def res_simps split: if_splits)
    show ?thesis
    proof (cases "renewal_dispatch cfg rc h
        (case scope of Some sc \<Rightarrow> StorageAuthorized who sc | None \<Rightarrow> Signed who) call (s1, r1)")
      case (Inl err)
      with d data books0 show ?thesis by (simp add: settle_def)
    next
      case (Inr sr')
      then have "sr' = (s', r')" using d by simp
      with Inr data books_disable [OF books0 data(1,2)] RCall_disable_auto_renew show ?thesis
        by (auto simp: disable_auto_renew_Inr)
    qed
  next
    case RCall_process_pending_renewals
    with c show ?thesis by simp
  qed
qed

lemma unsigned_books:
  assumes inv: "storage_inv cfg h True s" and books: "books size_of (PendingRenewals r) s r"
    and cap: "MaxPermanentStorageSize rc \<noteq> - 1" and ok: "pending_ok cfg r" "length (PendingRenewals r) < 2 ^ 32"
    and run: "apply_renewal_unsigned cfg rc h ext call (s, r) = Inr (s', r')"
  shows "books size_of (PendingRenewals r') s' r'"
proof -
  let ?s = "s\<lparr>extrinsic_index := Some ext\<rparr>"
  have inv0: "storage_inv cfg h True ?s" using inv by (subst storage_inv_frame [of _ s]) simp_all
  have books0: "books size_of (PendingRenewals r) ?s r" using books by (subst books_frame [of _ s _ r]) simp_all
  show ?thesis
  proof (cases call)
    case RCall_process_pending_renewals
    obtain n sr where d: "do_process_pending_renewals cfg rc h (?s, r) = (n, sr)" by (metis surj_pair)
    with run RCall_process_pending_renewals have "sr = (s', r')"
      by (simp add: apply_renewal_unsigned_def renewal_pre_dispatch_def process_pending_renewals_def ensure_none_def)
    with d process_pending_books [OF inv0 books0 cap ok(1) _ _ ok(2)] show ?thesis by simp
  next
    case (RCall_force_renew entry)
    with run obtain info s1 r1 where info: "resolve_transaction_ref ?s entry = Inr info"
        "data_size_ok cfg (unat (ti_size info))" "\<not> block_transactions_full cfg ?s"
      and charge: "check_renew_authorization rc (Preimage (ti_content_hash info)) (ti_size info) True (?s, r) = Inr (s1, r1)"
      and d: "settle (force_renew cfg h NoneOrigin entry (s1, r1)) (s1, r1) = (s', r')"
      by (auto simp: apply_renewal_unsigned_def renewal_pre_dispatch_def check_renew_unsigned_def res_simps
          split: if_splits)
    have "books size_of (PendingRenewals r) s' r'"
      by (rule books_force_renew [OF inv0 books0 cap info _ charge _ d]) simp_all
    moreover have "PendingRenewals r' = PendingRenewals r1"
      using d by (cases "force_renew cfg h NoneOrigin entry (s1, r1)") (auto simp: settle_def force_renew_Inr)
    ultimately show ?thesis using check_renew_used(4) [OF charge] by simp
  qed (use run in \<open>simp_all add: apply_renewal_unsigned_def renewal_pre_dispatch_def\<close>)
qed

section \<open>Opening and closing a block\<close>

lemma unat_sat_sum:
  "unat (fold (\<lambda>x acc. sat_add acc (f x)) xs (a :: u64)) = min (unat a + (\<Sum>x\<leftarrow>xs. unat (f x))) (2 ^ 64 - 1)"
proof (induction xs arbitrary: a)
  case Nil
  show ?case using unat_le_max [of a] by simp
next
  case (Cons x xs)
  then show ?case by (simp add: unat_sat_add)
qed

lemma unat_renewed_bytes: "unat (renewed_bytes items) = min (renewed_size (map fst items)) (2 ^ 64 - 1)"
proof -
  have "(\<Sum>x\<leftarrow>filter (\<lambda>(tx, _). is_renew (ti_meta tx)) items. unat (u32_to_u64 (ti_size (fst x))))
      = renewed_size (map fst items)"
    by (induction items) (auto simp: renewed_size_def)
  then show ?thesis
    using unat_sat_sum [of "\<lambda>x. u32_to_u64 (ti_size (fst x))" "filter (\<lambda>(tx, _). is_renew (ti_meta tx)) items" 0]
    by (simp add: renewed_bytes_def case_prod_unfold)
qed

lemma due_hashes:
  "map fst (due renewals items) =
     filter (\<lambda>c. renewals c \<noteq> None) (map (ti_content_hash \<circ> fst) (filter snd items))"
  by (induction renewals items rule: due.induct) (auto split: option.split)

text \<open>The sweep takes out of the counter what the swept block held of it.\<close>

lemma sweep_balanced:
  assumes bal: "balanced size_of s r"
    and view: "\<And>b'. block_entries s' b' = (if b' = b then [] else block_entries s b')"
    and used: "PermanentStorageUsed r' = sat_sub (PermanentStorageUsed r) (renewed_bytes items)"
    and items: "map fst items = block_entries s b" and "Renewals r' = Renewals r"
  shows "balanced size_of s' r'"
proof -
  let ?f = "\<lambda>b. renewed_size (block_entries s b)"
  have "renewed_total s' = (\<Sum>b'\<in>UNIV. if b' = b then 0 else ?f b')"
    unfolding renewed_total_def by (rule sum.cong) (simp_all add: view)
  also have "\<dots> = sum ?f (UNIV - {b})" by (rule sum.mono_neutral_cong_right) auto
  finally have "renewed_total s = renewed_total s' + ?f b"
    using sum.remove [of UNIV b ?f] by (simp add: renewed_total_def)
  moreover have "unat (renewed_bytes items) = ?f b"
    using bal calculation unat_le_max [of "PermanentStorageUsed r"] unat_renewed_bytes [of items]
    by (simp add: items balanced_def min_def split: if_splits)
  ultimately show ?thesis using bal assms(5) by (simp add: balanced_def paid_def used unat_sat_sub)
qed

lemma sweep_queue:
  assumes inv: "storage_inv cfg h False s" and books: "books size_of [] s r"
    and txs: "tx_get s b = Some txs" and oldest: "\<forall>b'. block_entries s b' \<noteq> [] \<longrightarrow> b \<le> b'"
    and item: "(c, t, d) \<in> set (due (Renewals r) (flag_latest b txs (TransactionByContentHash s)))"
  shows "ti_content_hash t = c" and "unat (ti_size t) = size_of c" and "Renewals r c = Some d"
    and "t' \<in> set (block_entries s b') \<Longrightarrow> ti_content_hash t' = c \<Longrightarrow> b' = b"
proof -
  have latest: "t \<in> set txs" "points_at (TransactionByContentHash s) c b" "ti_content_hash t = c" "Renewals r c = Some d"
    using item flag_latest_hash by (fastforce simp: set_due)+
  have mem: "t \<in> set (block_entries s b)" using txs latest(1) by (simp add: block_entries_def)
  show "ti_content_hash t = c" "Renewals r c = Some d" by (fact latest)+
  show "unat (ti_size t) = size_of c" using books mem latest(3) by (auto simp: books_def)
  show "b' = b" if t': "t' \<in> set (block_entries s b')" and h: "ti_content_hash t' = c"
  proof (rule antisym)
    show "b' \<le> b"
      using inv t' h latest(2) unfolding storage_inv_def index_complete_def points_at_def by fastforce
    show "b \<le> b'" using t' oldest by (auto dest: length_pos_if_in_set)
  qed
qed

lemma swept_books:
  assumes inv: "storage_inv cfg h False s" and books: "books size_of [] s r"
    and txs: "tx_get s b = Some txs" and oldest: "\<forall>b'. block_entries s b' \<noteq> [] \<longrightarrow> b \<le> b'"
    and items: "items = flag_latest b txs (TransactionByContentHash s)"
    and view: "\<And>b'. block_entries s' b' = (if b' = b then [] else block_entries s b')"
    and index: "\<And>c. TransactionByContentHash s' c = (if c \<in> ti_content_hash ` set txs
        \<and> points_at (TransactionByContentHash s) c b then None else TransactionByContentHash s c)"
    and r': "PendingRenewals r' = due (Renewals r) items" "Renewals r' = Renewals r"
      "PermanentStorageUsed r' = sat_sub (PermanentStorageUsed r) (renewed_bytes items)"
  shows "books size_of (PendingRenewals r') s' r'"
proof -
  note queue = sweep_queue [OF inv books txs oldest, folded items r'(1)]
  have bal: "balanced size_of s' r'"
    by (rule sweep_balanced [OF _ view r'(3) _ r'(2)]) (use books txs in \<open>simp_all add: books_def items block_entries_def\<close>)
  have target: "TransactionByContentHash s' c \<noteq> None \<or> c \<in> fst ` set (PendingRenewals r')"
    if reg: "Renewals r c \<noteq> None" for c
  proof (cases "c \<in> ti_content_hash ` set txs \<and> points_at (TransactionByContentHash s) c b")
    case True
    then obtain t d where "(t, True) \<in> set items" "ti_content_hash t = c" "Renewals r c = Some d"
      using flag_latest_complete [of c txs "TransactionByContentHash s" b] reg items by blast
    then have "(c, t, d) \<in> set (PendingRenewals r')" by (simp add: r'(1) set_due)
    then show ?thesis by force
  next
    case False
    have "TransactionByContentHash s c \<noteq> None" using books reg by (auto simp: books_def)
    with False show ?thesis by (auto simp: index)
  qed
  have gone: "c \<notin> ti_content_hash ` set ts" if q: "(c, t, d) \<in> set (PendingRenewals r')" and g: "tx_get s' b' = Some ts" for c t d b' ts
  proof
    assume "c \<in> ti_content_hash ` set ts"
    then obtain t' where "t' \<in> set (block_entries s' b')" "ti_content_hash t' = c"
      using g by (auto simp: block_entries_def)
    with queue(4) [OF q, of t' b'] show False by (auto simp: view split: if_splits)
  qed
  have "distinct (map fst (PendingRenewals r'))"
    unfolding r'(1) due_hashes items by (intro distinct_filter flag_latest_distinct)
  moreover have "unat (ti_size t) = size_of (ti_content_hash t)" if "t \<in> set (block_entries s' b')" for t b'
    using that books by (auto simp: view books_def split: if_splits)
  ultimately show ?thesis
    using bal target gone queue(1-3) unfolding books_def r'(2) by simp
qed

lemma obsolete_is_oldest:
  assumes inv: "storage_inv cfg h False s" and room: "block_number s \<noteq> - 1" and ne: "block_entries s b \<noteq> []"
  shows "obsolete_block (next_block p s) (block_number s + 1) \<le> b"
proof -
  obtain ts where "tx_get s b = Some ts"
    using ne inv by (auto simp: block_entries_def storage_inv_def split: option.splits if_splits)
  then have "unat (block_number s) - unat (RetentionPeriod s) \<le> unat b"
    using inv by (auto simp: storage_inv_defs now_def word_nat)
  then show ?thesis
    using obsolete_block_next [OF room] by (simp add: obsolete_block_def retention_period_def word_nat)
qed

lemma open_books:
  assumes inv: "storage_inv cfg h False s" and books: "books size_of [] s r" and idle: "PendingRenewals r = []"
    and room: "block_number s \<noteq> - 1"
    and init: "on_initialize cfg (handle_obsolete cfg rc) (block_number s + 1) (next_block p s, r) = (w, s', r')"
  shows "chain_books size_of (True, s', r')"
proof -
  let ?s = "next_block p s" let ?b = "obsolete_block ?s (block_number s + 1)"
  note view = next_block_view [OF inv room, of p]
  have get: "tx_get ?s b = tx_get s b" for b by (simp add: tx_get_def)
  show ?thesis
  proof (cases "?b = 0 \<or> tx_get s ?b = None")
    case True
    with on_initialize_idle [of ?s "block_number s + 1" cfg "handle_obsolete cfg rc" r] init get
    have "s' = ?s" "r' = r" by simp_all
    with books books_cong [OF view, of r r] idle show ?thesis by (simp add: chain_books_def)
  next
    case False
    then obtain txs where txs: "tx_get s ?b = Some txs" and b: "?b \<noteq> 0" by auto
    let ?items = "flag_latest ?b txs (TransactionByContentHash s)"
    have len: "length txs \<le> unat (MaxBlockTransactions cfg)"
      using inv txs by (auto simp: storage_inv_defs block_ok_def)
    have litems: "length ?items = length txs" by (metis length_map map_fst_flag_latest)
    have s': "s' = drop_block ?b ?s"
      using init b on_initialize_state [of cfg "handle_obsolete cfg rc" "block_number s + 1" ?s r] by simp
    have "r' = handle_obsolete cfg rc ?b ?items r"
      using init on_initialize_consumer [of ?s "block_number s + 1" txs cfg "handle_obsolete cfg rc" r] txs b len get
      by simp
    with handle_obsolete_queue [OF idle, of ?items cfg rc ?b] len litems
    have r': "PendingRenewals r' = due (Renewals r) ?items" "Renewals r' = Renewals r"
      "PermanentStorageUsed r' = sat_sub (PermanentStorageUsed r) (renewed_bytes ?items)" by simp_all
    have closed: "BlockTransactions ?s = []" using inv by (simp add: next_block_def storage_inv_def)
    have "books size_of (PendingRenewals r') s' r'"
    proof (rule swept_books [OF inv books txs _ refl _ _ r'])
      show "\<forall>b'. block_entries s b' \<noteq> [] \<longrightarrow> ?b \<le> b'" using obsolete_is_oldest [OF inv room] by blast
      show "block_entries s' b' = (if b' = ?b then [] else block_entries s b')" for b'
        unfolding s' drop_block_view [OF closed] view ..
      show "TransactionByContentHash s' c = (if c \<in> ti_content_hash ` set txs
          \<and> points_at (TransactionByContentHash s) c ?b then None else TransactionByContentHash s c)" for c
        unfolding s' using txs get [of ?b] by (simp add: drop_block_def)
    qed
    moreover have "length (PendingRenewals r') < 2 ^ 32"
      using length_due [of "Renewals r" ?items] litems len unat_u32_less [of "MaxBlockTransactions cfg"] by (simp add: r'(1))
    ultimately show ?thesis by (simp add: chain_books_def)
  qed
qed

lemma finalize_books:
  assumes w: "wired cfg h" and inv: "storage_inv cfg h True s" and books: "books size_of (PendingRenewals r) s r"
    and "on_finalize (block_number s) s = Inr s'" and "renewal_on_finalize r = Inr r'"
  shows "chain_books size_of (False, s', r')"
proof -
  let ?s = "s\<lparr>ProofChecked := False\<rparr>"
  have s': "s' = seal_block (now ?s) ?s" using assms(4) by (simp add: on_finalize_Inr now_def)
  have r': "r' = r" "PendingRenewals r = []" using assms(5) by (auto simp: renewal_on_finalize_def res_simps)
  have inv': "storage_inv cfg h True ?s" using inv by (rule inv.proof_mark)
  note fit = w [unfolded wired_def, THEN conjunct1] w [unfolded wired_def, THEN conjunct2, THEN conjunct1]
  have "block_entries s' b = block_entries s b" for b
    unfolding s' seal_view [OF inv' fit] by (rule block_entries_frame) simp_all
  moreover have "TransactionByContentHash s' = TransactionByContentHash s"
    unfolding s' seal_block_entries [OF inv' fit] by simp
  ultimately show ?thesis
    using books by (simp add: chain_books_def r' books_def balanced_def renewed_total_def)
qed

lemma settle_pending:
  "settle (renewal_dispatch cfg rc h orig call sr) sr = (s', r') \<Longrightarrow>
   PendingRenewals r' = PendingRenewals (snd sr) \<or> call = RCall_process_pending_renewals \<and> PendingRenewals r' = []"
  using process_pending_drains [of cfg rc h "fst sr" "snd sr"]
  by (cases call; cases sr) (auto simp: settle_def registration_calls_Inr process_pending_renewals_def res_simps Let_def
      case_prod_unfold dest!: sym [of "(s', r')"] split: sum.splits)

lemma signed_pending:
  assumes "apply_renewal_signed cfg rc h ext who call (s, r) = Inr (s', r')"
  shows "PendingRenewals r' = PendingRenewals r"
proof -
  obtain v scope sr1 where c: "check_renewal_signed cfg rc h who call PreDispatch (s\<lparr>extrinsic_index := Some ext\<rparr>, r)
      = Inr ((v, scope), sr1)"
    and d: "settle (renewal_dispatch cfg rc h
      (case scope of Some sc \<Rightarrow> StorageAuthorized who sc | None \<Rightarrow> Signed who) call sr1) sr1 = (s', r')"
    using assms by (auto simp: apply_renewal_signed_def res_simps)
  have "PendingRenewals (snd sr1) = PendingRenewals r"
    using check_renewal_signed_pending [of cfg rc h who call PreDispatch _ r _ "fst sr1" "snd sr1"] c by simp
  with settle_pending [OF d] c show ?thesis by auto
qed

lemma unsigned_pending:
  assumes "apply_renewal_unsigned cfg rc h ext call (s, r) = Inr (s', r')"
  shows "PendingRenewals r' = PendingRenewals r \<or> PendingRenewals r' = []"
proof -
  obtain sr1 where c: "renewal_pre_dispatch cfg rc h call (s\<lparr>extrinsic_index := Some ext\<rparr>, r) = Inr sr1"
    and d: "settle (renewal_dispatch cfg rc h NoneOrigin call sr1) sr1 = (s', r')"
    using assms by (auto simp: apply_renewal_unsigned_def res_simps)
  have "PendingRenewals (snd sr1) = PendingRenewals r"
    using renewal_pre_dispatch_pending [of cfg rc h call _ r "fst sr1" "snd sr1"] c by simp
  with settle_pending [OF d] show ?thesis by auto
qed

lemma storage_books:
  assumes "books_wired cfg rc h size_of" and "storage_inv cfg h True s" and "chain_books size_of (True, s, r)"
    and "dispatch cfg h orig call s = Inr s' \<or> pre_dispatch cfg h call s = Inr s'
      \<or> pre_dispatch_signed cfg h who call s = Inr s'"
  shows "chain_books size_of (True, s', r)"
proof -
  have "books_kept cfg rc h size_of (PendingRenewals r) r s" using assms(2,3) by (simp add: books_kept_def chain_books_def)
  then have "books_kept cfg rc h size_of (PendingRenewals r) r s'"
    using assms(4) by (auto intro: kept.dispatch_keeps kept.pre_dispatch_keeps kept.pre_dispatch_signed_keeps)
  then show ?thesis using assms(1,3) by (simp add: books_kept_def chain_books_def)
qed

lemma tx_step_books:
  assumes w: "wired cfg h" "books_wired cfg rc h size_of" and "tx_step cfg rc h c c'"
    and inv: "chain_inv cfg rc h c" and books: "chain_books size_of c"
  shows "chain_books size_of c'"
proof -
  have cap: "MaxPermanentStorageSize rc \<noteq> - 1" using w(2) by (simp add: books_wired_def)
  show ?thesis
    using assms(3)
  proof (cases rule: tx_step.cases)
    case (hook opn s r s' r')
    from hook(3) show ?thesis
    proof (cases rule: step.cases)
      case (open_block p wt)
      with hook inv books open_books [of cfg h s size_of r rc p wt s' r'] show ?thesis
        by (simp add: chain_inv_def chain_books_def)
    next
      case finalize
      with hook inv books finalize_books [OF w(1), of s size_of r s' r'] show ?thesis
        by (auto simp: chain_inv_def chain_books_def)
    qed auto
  next
    case (extrinsic s r ext)
    then show ?thesis using books books_frame [of "s\<lparr>extrinsic_index := Some ext\<rparr>" s r r] by (simp add: chain_books_def)
  next
    case (renewal_signed ext who rcall s r s' r')
    then show ?thesis
      using inv books signed_books [OF _ _ cap renewal_signed(3)] signed_pending [OF renewal_signed(3)]
      by (auto simp: chain_inv_def chain_books_def)
  next
    case (renewal_unsigned ext rcall s r s' r')
    then show ?thesis
      using inv books unsigned_books [OF _ _ cap _ _ renewal_unsigned(3)] unsigned_pending [OF renewal_unsigned(3)]
      by (auto simp: chain_inv_def chain_books_def)
  next
    case (root_disable r hash data s s' r')
    then show ?thesis
      using books books_disable [of size_of "PendingRenewals r" s r hash data]
      by (auto simp: chain_books_def disable_auto_renew_Inr)
  qed (use inv books in \<open>auto simp: chain_inv_def promote_as_store simp del: dispatch.simps
      intro: storage_books [OF w(2)]\<close>)
qed

lemma genesis_books: "chain_books size_of (genesis cfg g)"
  using genesis_untouched [of cfg g]
  by (simp add: genesis_def chain_books_def books_def balanced_def renewed_total_def paid_def empty_rn_def
      untouched_def block_entries_def tx_get_def)

lemma tx_reachable_books:
  assumes "wired cfg h" and "books_wired cfg rc h size_of" and "genesis_ok g" and "tx_reachable cfg rc h g c"
  shows "chain_books size_of c"
  using assms(4) unfolding tx_reachable_def
proof (induction rule: rtranclp_induct)
  case (step c c')
  then have "chain_inv cfg rc h c"
    using reachable_inv [OF assms(1,3) tx_reachable_reachable] by (simp add: tx_reachable_def)
  with step tx_step_books [OF assms(1,2)] show ?case by blast
qed (rule genesis_books)

section \<open>The check of try-state\<close>

lemma renewed_on_chain_sum:
  "unat (fold (\<lambda>b acc. case tx_get s b of None \<Rightarrow> acc | Some es \<Rightarrow> renewed_in_block es acc) blocks acc)
     = min (unat acc + (\<Sum>b\<leftarrow>blocks. case tx_get s b of None \<Rightarrow> 0 | Some es \<Rightarrow> renewed_size es)) (2 ^ 64 - 1)"
proof (induction blocks arbitrary: acc)
  case Nil
  show ?case using unat_le_max [of acc] by simp
next
  case (Cons b blocks)
  have "unat (renewed_in_block es acc) = min (unat acc + renewed_size es) (2 ^ 64 - 1)" for es
    using unat_sat_sum [of "\<lambda>t. u32_to_u64 (ti_size t)"] by (simp add: renewed_in_block_def renewed_size_def)
  with Cons show ?case by (auto split: option.split)
qed

text \<open>Between blocks everything on the chain is in \<open>Transactions\<close>.\<close>

lemma renewed_total_keys:
  assumes inv: "storage_inv cfg h False s" and "distinct blocks" and keys: "set blocks = dom (Transactions s)"
  shows "(\<Sum>b\<leftarrow>blocks. case tx_get s b of None \<Rightarrow> 0 | Some es \<Rightarrow> renewed_size es) = renewed_total s"
proof -
  have ent: "(case tx_get s b of None \<Rightarrow> 0 | Some es \<Rightarrow> renewed_size es) = renewed_size (block_entries s b)" for b
    using inv by (simp add: block_entries_def storage_inv_def split: option.split)
  have "tx_get s b = None" if "b \<notin> set blocks" for b
    using that keys by (auto simp: tx_get_def split: option.split)
  then have "renewed_size (block_entries s b) = 0" if "b \<notin> set blocks" for b
    using that ent [of b] by simp
  then have "sum (\<lambda>b. renewed_size (block_entries s b)) (set blocks) = renewed_total s"
    unfolding renewed_total_def by (intro sum.mono_neutral_left) auto
  then show ?thesis using assms(2) by (simp add: ent sum_list_distinct_conv_sum_set)
qed

lemma prepaid_on_chain_sum:
  assumes inv: "storage_inv cfg h False s" and books: "books size_of [] s r"
  shows "\<exists>x. prepaid_on_chain (s, r) hashes acc = Inr x
    \<and> unat x = min (unat acc + (\<Sum>c\<leftarrow>hashes. owed size_of (Renewals r c) c)) (2 ^ 64 - 1)"
proof (induction hashes arbitrary: acc)
  case Nil
  show ?case using unat_le_max [of acc] by simp
next
  case (Cons c hashes)
  show ?case
  proof (cases "\<exists>d. Renewals r c = Some d \<and> rd_paid d")
    case True
    then obtain d b i where d: "Renewals r c = Some d" "rd_paid d" "TransactionByContentHash s c = Some (b, i)"
      using books by (fastforce simp: books_def)
    obtain info where info: "transaction_info s b i = Some info" "ti_content_hash info = c"
      using indexed_entry [OF inv d(3)] by blast
    then obtain txs where "tx_get s b = Some txs" "info \<in> set txs"
      by (auto simp: transaction_info_def nth_opt_def split: option.splits if_splits)
    then have "unat (ti_size info) = size_of c"
      using stored_entry_booked(1) [OF inv books] info(2) by simp
    with Cons.IH [of "sat_add acc (u32_to_u64 (ti_size info))"] d info(1) show ?thesis
      by (auto simp: lookup_by_content_hash_def owed_def unat_sat_add)
  next
    case False
    then have "prepaid_on_chain (s, r) (c # hashes) acc = prepaid_on_chain (s, r) hashes acc"
      "owed size_of (Renewals r c) c = 0"
      by (auto simp: owed_def split: option.split)
    with Cons.IH [of acc] show ?thesis by simp
  qed
qed

lemma paid_keys:
  assumes "distinct hashes" and "set hashes = dom (Renewals r)"
  shows "(\<Sum>c\<leftarrow>hashes. owed size_of (Renewals r c) c) = sum size_of (paid r)"
proof -
  have "sum (\<lambda>c. owed size_of (Renewals r c) c) (set hashes) = sum (\<lambda>c. owed size_of (Renewals r c) c) (paid r)"
    by (rule sum.mono_neutral_right [OF finite_set]) (auto simp: assms(2) paid_def owed_def split: option.splits)
  also have "\<dots> = sum size_of (paid r)" by (rule sum.cong) (auto simp: paid_def owed_def)
  finally show ?thesis using assms(1) by (simp add: sum_list_distinct_conv_sum_set)
qed

lemma books_try_state:
  assumes inv: "storage_inv cfg h False s" and books: "books size_of [] s r" and used: "used_ok rc r"
    and "distinct blocks" "set blocks = dom (Transactions s)"
    and "distinct hashes" "set hashes = dom (Renewals r)"
  shows "renewal_do_try_state rc blocks hashes (s, r) = Inr ()"
proof -
  obtain x where x: "prepaid_on_chain (s, r) hashes 0 = Inr x" "unat x = min (sum size_of (paid r)) (2 ^ 64 - 1)"
    using prepaid_on_chain_sum [OF inv books, of hashes 0] paid_keys [OF assms(6,7), of size_of] by auto
  have "unat (renewed_on_chain s blocks) = min (renewed_total s) (2 ^ 64 - 1)"
    using renewed_on_chain_sum [of s blocks 0] renewed_total_keys [OF inv assms(4,5)] by (simp add: renewed_on_chain_def)
  then have "unat (sat_add (renewed_on_chain s blocks) x) = unat (PermanentStorageUsed r)"
    using books x(2) unat_le_max [of "PermanentStorageUsed r"] by (simp add: unat_sat_add books_def balanced_def)
  then have "sat_add (renewed_on_chain s blocks) x = PermanentStorageUsed r" by (simp add: word_eq_unat)
  with x(1) used show ?thesis by (simp add: renewal_do_try_state_def Let_def used_ok_def ensure_def)
qed

end
