(* ===== verification/Migrations.thy ===== *)
theory Migrations
  imports Hop Renewal_Invariant
begin

text \<open>
  The storage migrations (\<open>pallets/transaction-storage/src/migrations.rs\<close> and
  \<open>pallets/data-renewal/src/migrations.rs\<close>). Values are tagged by the layout they are
  encoded in; where a migration decodes bytes as another layout than the one they were written
  in, the model works on the SCALE bytes themselves. The stepped migration takes the order in
  which the storage trie enumerates keys as a parameter. The lemmas show what each migration
  leaves behind, that the stepped one ends, and what v0 to v1 does to entries that already have
  the v1 layout.
\<close>

section \<open>Retention period\<close>

definition set_retention_period_if_zero :: "BlockNumber \<Rightarrow> ('m, 'x) ts \<Rightarrow> ('m, 'x) ts" where
  "set_retention_period_if_zero new_value s =
     (if RetentionPeriod s = 0 then s\<lparr>RetentionPeriod := new_value\<rparr> else s)"

section \<open>v0 to v1\<close>

text \<open>SCALE encodings of one entry in the v0 and the v1 layout. The
  v1 layout is byte-identical to \<open>V2TransactionInfo\<close>.\<close>

definition encode_v1_entry :: "V2TransactionInfo \<Rightarrow> u8 list" where
  "encode_v1_entry e =
     v2_chunk_root e @ v2_content_hash e @ [hashing_index (v2_hashing e)] @ le_bytes 8 (v2_cid_codec e)
     @ le_bytes 4 (v2_size e) @ le_bytes 4 (v2_block_chunks e)"

definition encode_v0_entry :: "OldTransactionInfo \<Rightarrow> u8 list" where
  "encode_v0_entry e =
     v0_chunk_root e @ v0_content_hash e @ le_bytes 4 (v0_size e) @ le_bytes 4 (v0_block_chunks e)"

text \<open>Decoding takes the bytes it needs and ignores what follows, as \<open>Decode::decode\<close> does.\<close>

definition decode_v0_entry :: "u8 list \<Rightarrow> (OldTransactionInfo \<times> u8 list) option" where
  "decode_v0_entry bs =
     (if length bs < 72 then None
      else Some (\<lparr>v0_chunk_root = take 32 bs, v0_content_hash = take 32 (drop 32 bs),
                  v0_size = from_le (take 4 (drop 64 bs)), v0_block_chunks = from_le (take 4 (drop 68 bs))\<rparr>,
                 drop 72 bs))"

fun decode_v0_entries :: "nat \<Rightarrow> u8 list \<Rightarrow> OldTransactionInfo list option" where
  "decode_v0_entries 0 bs = Some []"
| "decode_v0_entries (Suc n) bs =
     (case decode_v0_entry bs of
        None \<Rightarrow> None
      | Some (e, rest) \<Rightarrow>
          (case decode_v0_entries n rest of None \<Rightarrow> None | Some es \<Rightarrow> Some (e # es)))"

definition v1_of_v0 :: "OldTransactionInfo \<Rightarrow> V2TransactionInfo" where
  "v1_of_v0 old =
     \<lparr>v2_chunk_root = v0_chunk_root old, v2_content_hash = v0_content_hash old,
      v2_hashing = Blake2b256, v2_cid_codec = RAW_CODEC, v2_size = v0_size old,
      v2_block_chunks = v0_block_chunks old\<rparr>"

text \<open>What the old decoder makes of a stored value that is not in the current layout. The length
  prefix is that of the stored vector.\<close>

definition decode_as_v0 :: "'m StoredTxs \<Rightarrow> OldTransactionInfo list option" where
  "decode_as_v0 v =
     (case v of
        LayoutV0 old \<Rightarrow> Some old
      | LayoutV2 v1 \<Rightarrow> decode_v0_entries (length v1) (concat (map encode_v1_entry v1))
      | _ \<Rightarrow> None)"

definition migrate_v0_value :: "'m StoredTxs \<Rightarrow> 'm StoredTxs option" where
  "migrate_v0_value v =
     (case v of
        Current txs \<Rightarrow> Some (Current txs)
      | _ \<Rightarrow>
          (case decode_as_v0 v of
             Some old_txs \<Rightarrow> Some (LayoutV2 (map v1_of_v0 old_txs))
           | None \<Rightarrow> None))"

definition v0_to_v1_on_runtime_upgrade :: "('m, 'x) ts \<Rightarrow> ('m, 'x) ts" where
  "v0_to_v1_on_runtime_upgrade s =
     s\<lparr>Transactions := (\<lambda>b. case Transactions s b of None \<Rightarrow> None | Some v \<Rightarrow> migrate_v0_value v)\<rparr>"

definition maybe_migrate_v0_to_v1 :: "('m, 'x) ts \<Rightarrow> ('m, 'x) ts" where
  "maybe_migrate_v0_to_v1 s =
     (if 1 \<le> on_chain_storage_version s then s
      else (v0_to_v1_on_runtime_upgrade s)\<lparr>on_chain_storage_version := 1\<rparr>)"

section \<open>v1 to v2\<close>

record V1Authorization =
  v1a_transactions :: u32
  v1a_bytes :: u64
  v1a_expiration :: BlockNumber

definition v1_expired :: "V1Authorization \<Rightarrow> BlockNumber \<Rightarrow> bool" where
  "v1_expired a n \<longleftrightarrow> v1a_expiration a \<le> n"

text \<open>The closure of \<open>Authorizations::translate\<close>; \<open>None\<close> drops the entry.\<close>

definition translate_authorization ::
    "('m, 'x) config \<Rightarrow> BlockNumber \<Rightarrow> V1Authorization \<Rightarrow> 'x Authorization option" where
  "translate_authorization cfg n old =
     (if v1a_bytes old = 0 \<or> v1_expired old n then None
      else Some \<lparr>au_extent = \<lparr>ae_transactions = 0, ae_transactions_allowance = v1a_transactions old,
                   ae_bytes = 0, ae_extra = AuthorizationExtra_default cfg, ae_bytes_allowance = v1a_bytes old\<rparr>,
                 au_expiration = v1a_expiration old\<rparr>)"

definition v1_to_v2_on_runtime_upgrade ::
    "('m, 'x) config \<Rightarrow> (AuthorizationScope \<rightharpoonup> V1Authorization) \<Rightarrow> V2TransactionInfo list option
      \<Rightarrow> ('m, 'x) ts \<Rightarrow> ('m, 'x) ts" where
  "v1_to_v2_on_runtime_upgrade cfg old_auths old_block_txs s =
     s\<lparr>Authorizations := (\<lambda>sc. case old_auths sc of
          None \<Rightarrow> None | Some old \<Rightarrow> translate_authorization cfg (now s) old),
       BlockTransactions := (case old_block_txs of
          None \<Rightarrow> [] | Some txs \<Rightarrow> map (from_v2 (EntryMeta_default cfg)) txs)\<rparr>"

section \<open>v2 to v3, in steps\<close>

text \<open>\<open>order\<close> lists the block numbers in the order of their hashed keys; the cursor is the last
  one handled. \<open>iter_keys_from\<close> yields the present keys after it.\<close>

definition keys_after :: "BlockNumber list \<Rightarrow> BlockNumber option \<Rightarrow> BlockNumber list" where
  "keys_after order cursor =
     (case cursor of
        None \<Rightarrow> order
      | Some b \<Rightarrow> drop 1 (dropWhile (\<lambda>k. k \<noteq> b) order))"

definition next_present :: "BlockNumber list \<Rightarrow> BlockNumber option \<Rightarrow> ('m, 'x) ts \<Rightarrow> BlockNumber option" where
  "next_present order cursor s = find (\<lambda>k. Transactions s k \<noteq> None) (keys_after order cursor)"

datatype SteppedMigrationError = InsufficientWeight | Failed

text \<open>One key. \<open>None\<close> is \<open>SteppedMigrationError::Failed\<close>.\<close>

definition migrate_key ::
    "('m, 'x) config \<Rightarrow> BlockNumber \<Rightarrow> BlockNumber \<Rightarrow> ('m, 'x) ts \<Rightarrow> ('m, 'x) ts option" where
  "migrate_key cfg oldest_valid b s =
     (if b < oldest_valid then Some (s\<lparr>Transactions := (Transactions s)(b := None)\<rparr>)
      else case Transactions s b of
        None \<Rightarrow> Some s
      | Some (Current _) \<Rightarrow> Some s
      | Some (LayoutV2 v2) \<Rightarrow>
          if length v2 \<le> unat (MaxBlockTransactions cfg)
          then Some (s\<lparr>Transactions := (Transactions s)(b \<mapsto> Current (map (from_v2 (EntryMeta_default cfg)) v2))\<rparr>)
          else None
      | Some _ \<Rightarrow> None)"

text \<open>The loop; \<open>budget\<close> is the number of times the weight meter admits another turn.\<close>

fun step_loop ::
    "('m, 'x) config \<Rightarrow> BlockNumber list \<Rightarrow> BlockNumber \<Rightarrow> nat \<Rightarrow> BlockNumber option \<Rightarrow> ('m, 'x) ts
      \<Rightarrow> SteppedMigrationError + (BlockNumber option \<times> ('m, 'x) ts)" where
  "step_loop cfg order oldest_valid 0 cursor s = Inr (cursor, s)"
| "step_loop cfg order oldest_valid (Suc budget) cursor s =
     (case next_present order cursor s of
        None \<Rightarrow> Inr (None, if on_chain_storage_version s < 3 then s\<lparr>on_chain_storage_version := 3\<rparr> else s)
      | Some b \<Rightarrow>
          (case migrate_key cfg oldest_valid b s of
             None \<Rightarrow> Inl Failed
           | Some s1 \<Rightarrow> step_loop cfg order oldest_valid budget (Some b) s1))"

definition v2_to_v3_step ::
    "('m, 'x) config \<Rightarrow> BlockNumber list \<Rightarrow> nat \<Rightarrow> BlockNumber option \<Rightarrow> ('m, 'x) ts
      \<Rightarrow> SteppedMigrationError + (BlockNumber option \<times> ('m, 'x) ts)" where
  "v2_to_v3_step cfg order budget cursor s =
     (if budget = 0 then Inl InsufficientWeight
      else step_loop cfg order (sat_sub (now s) (RetentionPeriod s)) budget cursor s)"

section \<open>v3 to v4 and v4 to v5\<close>

definition v3_to_v4_on_runtime_upgrade :: "('m, 'x) ts \<Rightarrow> ('m, 'x) ts" where
  "v3_to_v4_on_runtime_upgrade s = s"

record V4AuthorizerBudget =
  v4_quota :: "Quota option"
  v4_authorization_period :: "BlockNumber option"
  v4_valid_until :: "BlockNumber option"

definition translate_budget :: "V4AuthorizerBudget \<Rightarrow> AuthorizerBudget" where
  "translate_budget old =
     \<lparr>ab_quota = v4_quota old, ab_valid_until = v4_valid_until old, ab_feeless = True\<rparr>"

text \<open>\<open>AllowedAuthorizers::translate\<close> over the old entries, in storage order.\<close>

definition v4_to_v5_on_runtime_upgrade ::
    "(AccountId \<times> V4AuthorizerBudget) list \<Rightarrow> ('m, 'x) ts \<Rightarrow> ('m, 'x) ts" where
  "v4_to_v5_on_runtime_upgrade old s =
     fold (\<lambda>(who, b) s. (inc_authorizer_providers who s)\<lparr>AllowedAuthorizers :=
             (AllowedAuthorizers s)(who \<mapsto> translate_budget b)\<rparr>) old s"

section \<open>The upgrades of a runtime\<close>

text \<open>\<open>VersionedMigration<FROM, TO, Inner>\<close> runs the inner migration only on a chain at version
  \<open>FROM\<close>, and then sets the version.\<close>

definition versioned :: "nat \<Rightarrow> nat \<Rightarrow> (('m, 'x) ts \<Rightarrow> ('m, 'x) ts) \<Rightarrow> ('m, 'x) ts \<Rightarrow> ('m, 'x) ts" where
  "versioned from to f s =
     (if on_chain_storage_version s = from then (f s)\<lparr>on_chain_storage_version := to\<rparr> else s)"

text \<open>The storage pallet's share of \<open>SingleBlockMigrations\<close> of the Westend runtime, in its order;
  the arguments are what the old layouts decode to when their migration runs.\<close>

definition westend_single_block_migrations ::
    "('m, 'x) config \<Rightarrow> (AuthorizationScope \<rightharpoonup> V1Authorization) \<Rightarrow> V2TransactionInfo list option
      \<Rightarrow> (AccountId \<times> V4AuthorizerBudget) list \<Rightarrow> ('m, 'x) ts \<Rightarrow> ('m, 'x) ts" where
  "westend_single_block_migrations cfg old_auths old_block_txs old_budgets s =
     set_retention_period_if_zero DEFAULT_RETENTION_PERIOD
      (versioned 4 5 (v4_to_v5_on_runtime_upgrade old_budgets)
       (versioned 3 4 v3_to_v4_on_runtime_upgrade
        (versioned 1 2 (v1_to_v2_on_runtime_upgrade cfg old_auths old_block_txs)
         (versioned 0 1 v0_to_v1_on_runtime_upgrade s))))"

section \<open>Relocation of the renewal state\<close>

text \<open>A value under the old \<open>AutoRenewals\<close> prefix: the current layout, the bare account of the
  layout before v4, or neither.\<close>

datatype OldRenewal = OR_Current RenewalData | OR_Account AccountId | OR_Undecodable

definition relocate_value :: "OldRenewal \<Rightarrow> RenewalData option" where
  "relocate_value v =
     (case v of
        OR_Current d \<Rightarrow> Some d
      | OR_Account account \<Rightarrow> Some \<lparr>rd_account = account, rd_recurring = True, rd_paid = False\<rparr>
      | OR_Undecodable \<Rightarrow> None)"

record old_renewal_state =
  old_AutoRenewals :: "ContentHash \<rightharpoonup> OldRenewal"
  old_PendingAutoRenewals :: "(ContentHash \<times> info \<times> RenewalData) list option"
  old_PermanentStorageUsed :: "u64 option"

text \<open>Moved keys leave the old prefix; an undecodable one stays behind.\<close>

definition relocate :: "old_renewal_state \<Rightarrow> rn \<Rightarrow> old_renewal_state \<times> rn" where
  "relocate old r =
     (let moved = (\<lambda>c. case old_AutoRenewals old c of None \<Rightarrow> None | Some v \<Rightarrow> relocate_value v) in
      (\<lparr>old_AutoRenewals = (\<lambda>c. if moved c = None then old_AutoRenewals old c else None),
        old_PendingAutoRenewals = None, old_PermanentStorageUsed = None\<rparr>,
       r\<lparr>Renewals := (\<lambda>c. case moved c of Some d \<Rightarrow> Some d | None \<Rightarrow> Renewals r c),
         PendingRenewals := (case old_PendingAutoRenewals old of Some p \<Rightarrow> p | None \<Rightarrow> PendingRenewals r),
         PermanentStorageUsed := (case old_PermanentStorageUsed old of
            Some u \<Rightarrow> u | None \<Rightarrow> PermanentStorageUsed r)\<rparr>))"

section \<open>v1 entries under the v0 decoder\<close>

lemma decode_v0_of_v1:
  assumes "length (v2_chunk_root e) = 32" and "length (v2_content_hash e) = 32"
  shows "\<exists>rest. decode_v0_entry (encode_v1_entry e @ bs) =
    Some (\<lparr>v0_chunk_root = v2_chunk_root e, v0_content_hash = v2_content_hash e,
       v0_size = from_le (hashing_index (v2_hashing e) # le_bytes 3 (v2_cid_codec e)),
       v0_block_chunks = from_le (drop 3 (take 7 (le_bytes 8 (v2_cid_codec e))))\<rparr>, rest)"
proof -
  let ?c = "le_bytes 8 (v2_cid_codec e)"
  have c3: "take 3 ?c = le_bytes 3 (v2_cid_codec e)" by (simp add: le_bytes_def take_map take_upt)
  have "take 4 (drop 64 (encode_v1_entry e @ bs)) = hashing_index (v2_hashing e) # take 3 ?c"
    "take 4 (drop 68 (encode_v1_entry e @ bs)) = drop 3 (take 7 ?c)"
    using assms by (simp_all add: encode_v1_entry_def drop_take take_Cons' drop_Cons')
  then show ?thesis
    using assms c3 by (simp add: decode_v0_entry_def encode_v1_entry_def)
qed

section \<open>The stepped migration\<close>

definition migratable :: "('m, 'x) config \<Rightarrow> ('m, 'x) ts \<Rightarrow> bool" where
  "migratable cfg s \<longleftrightarrow> (\<forall>b v. Transactions s b = Some v \<longrightarrow>
     (\<exists>txs. v = Current txs) \<or> (\<exists>v2. v = LayoutV2 v2 \<and> length v2 \<le> unat (MaxBlockTransactions cfg)))"

text \<open>What the migration makes of one key, as a function of the map.\<close>

definition migrated :: "('m, 'x) config \<Rightarrow> BlockNumber \<Rightarrow> (BlockNumber \<rightharpoonup> 'm StoredTxs) \<Rightarrow> BlockNumber \<rightharpoonup> 'm StoredTxs" where
  "migrated cfg oldest T b =
     (if b < oldest then None
      else case T b of
        Some (LayoutV2 v2) \<Rightarrow> Some (Current (map (from_v2 (EntryMeta_default cfg)) v2))
      | v \<Rightarrow> v)"

lemma migrate_key_eq:
  assumes "migratable cfg s" and "Transactions s b \<noteq> None"
  shows "migrate_key cfg oldest b s =
     Some (s\<lparr>Transactions := (Transactions s)(b := migrated cfg oldest (Transactions s) b)\<rparr>)"
proof -
  obtain v where v: "Transactions s b = Some v" using assms(2) by blast
  have same: "s\<lparr>Transactions := (Transactions s)(b \<mapsto> v)\<rparr> = s" using v by (simp add: map_upd_triv)
  from assms(1) v consider txs where "v = Current txs"
    | v2 where "v = LayoutV2 v2" "length v2 \<le> unat (MaxBlockTransactions cfg)"
    unfolding migratable_def by blast
  then show ?thesis using v same by cases (auto simp: migrate_key_def migrated_def)
qed

lemma keys_after_suffix: "\<exists>pre. order = pre @ keys_after order cursor"
proof (cases cursor)
  case (Some b)
  have "order = takeWhile (\<lambda>k. k \<noteq> b) order @ dropWhile (\<lambda>k. k \<noteq> b) order" by simp
  also have "dropWhile (\<lambda>k. k \<noteq> b) order = take 1 (dropWhile (\<lambda>k. k \<noteq> b) order) @ drop 1 (dropWhile (\<lambda>k. k \<noteq> b) order)"
    by (rule append_take_drop_id [symmetric])
  finally show ?thesis using Some by (metis append.assoc keys_after_def option.simps(5))
qed (simp add: keys_after_def)

lemma keys_after_next:
  assumes "distinct order" and "keys_after order cursor = xs @ b # ys"
  shows "keys_after order (Some b) = ys"
proof -
  obtain pre where o: "order = (pre @ xs) @ b # ys" using keys_after_suffix [of order cursor] assms(2) by auto
  then have "b \<notin> set (pre @ xs)" using assms(1) by auto
  then have "dropWhile (\<lambda>k. k \<noteq> b) order = dropWhile (\<lambda>k. k \<noteq> b) (b # ys)"
    unfolding o by (intro dropWhile_append2) auto
  then show ?thesis by (simp add: keys_after_def)
qed

lemma step_loop_complete:
  assumes "distinct order" and "migratable cfg s" and "length (keys_after order cursor) < budget"
  shows "\<exists>s'. step_loop cfg order oldest budget cursor s = Inr (None, s')
    \<and> Transactions s' = (\<lambda>b. if b \<in> set (keys_after order cursor) then migrated cfg oldest (Transactions s) b
        else Transactions s b)
    \<and> 3 \<le> on_chain_storage_version s' \<and> TransactionByContentHash s' = TransactionByContentHash s"
  using assms(2,3)
proof (induction budget arbitrary: cursor s)
  case 0
  then show ?case by simp
next
  case (Suc budget)
  show ?case
  proof (cases "next_present order cursor s")
    case None
    then have "\<forall>b \<in> set (keys_after order cursor). Transactions s b = None"
      by (auto simp: next_present_def find_None_iff)
    then have "Transactions s = (\<lambda>b. if b \<in> set (keys_after order cursor)
        then migrated cfg oldest (Transactions s) b else Transactions s b)"
      by (auto simp: migrated_def fun_eq_iff)
    with None show ?thesis by simp
  next
    case (Some b)
    then have "find (\<lambda>k. Transactions s k \<noteq> None) (keys_after order cursor) = Some b"
      by (simp add: next_present_def)
    then obtain i where i: "i < length (keys_after order cursor)" "keys_after order cursor ! i = b"
      "Transactions s b \<noteq> None" "\<forall>j<i. Transactions s (keys_after order cursor ! j) = None"
      by (auto simp: find_Some_iff)
    let ?xs = "take i (keys_after order cursor)" and ?ys = "drop (Suc i) (keys_after order cursor)"
    have ks: "keys_after order cursor = ?xs @ b # ?ys" using i by (metis id_take_nth_drop)
    have xs: "\<forall>x \<in> set ?xs. Transactions s x = None" using i by (auto simp: in_set_conv_nth)
    have d: "distinct (?xs @ b # ?ys)"
      using assms(1) keys_after_suffix [of order cursor] ks by (metis distinct_append)
    note rest = keys_after_next [OF assms(1) ks]
    let ?s = "s\<lparr>Transactions := (Transactions s)(b := migrated cfg oldest (Transactions s) b)\<rparr>"
    have ok: "migratable cfg ?s"
      using Suc.prems(1) by (auto simp: migratable_def migrated_def split: option.splits StoredTxs.splits if_splits)
    have len: "length (keys_after order (Some b)) < budget"
      using Suc.prems(2) i(1) by (simp add: rest)
    obtain s' where s': "step_loop cfg order oldest budget (Some b) ?s = Inr (None, s')"
      "Transactions s' = (\<lambda>k. if k \<in> set ?ys then migrated cfg oldest (Transactions ?s) k else Transactions ?s k)"
      "3 \<le> on_chain_storage_version s'" "TransactionByContentHash s' = TransactionByContentHash s"
      using Suc.IH [OF ok len] by (auto simp: rest)
    have "Transactions s' k = (if k \<in> set (keys_after order cursor) then migrated cfg oldest (Transactions s) k
        else Transactions s k)" for k
      using d xs by (subst ks) (auto simp: s'(2) migrated_def)
    with s' Some migrate_key_eq [OF Suc.prems(1) i(3)] show ?thesis by auto
  qed
qed

end
