(* ===== verification/Demo.thy ===== *)
theory Demo
  imports Runtime Ledger Migrations
begin

text \<open>
  Concrete configurations and states on which the properties are applied: the Paseo
  configuration with the instance \<open>demo_host\<close> of the host functions, an account with a grant,
  an authorizer with a budget, and a chain that stores one blob in its first block.
\<close>

section \<open>Configuration\<close>

definition demo_params :: runtime_params where
  "demo_params = \<lparr>rp_days = 14400, rp_alice = [1], rp_on_initialize_with_expiry = (\<lambda>n. (0, 0)),
     rp_process_pending_renewals = (\<lambda>n. (0, 0))\<rparr>"

definition demo_cfg :: rconf where
  "demo_cfg = paseo_config AllowedParachainIds demo_params"

definition demo_rc :: renewal_config where
  "demo_rc = paseo_renewal_config MAX_PERMANENT_STORAGE_SIZE demo_params"

definition demo_hop :: hop_config where
  "demo_hop = runtime_hop_config id (\<lambda>sig payload who. sig = who) (replicate 32 7)"

lemma demo_cfg_simps [simp]:
  "MaxBlockTransactions demo_cfg = 512" "MaxTransactionSize demo_cfg = 2097152"
  "AuthorizationPeriod demo_cfg = 201600" "EntryMeta_default demo_cfg = Store"
  "AuthorizationExtra_default demo_cfg = \<lparr>bytes_permanent = 0\<rparr>"
  "Authorizer demo_cfg = paseo_authorizer AllowedParachainIds"
  by (simp_all add: demo_cfg_def paseo_config_def DAYS_eq PermanentExtent_default_def)

lemma demo_wired: "wired demo_cfg demo_host"
  using demo_num_chunks
  by (simp add: wired_def chunks_fit_def div_ceil_def PermanentExtent_default_def demo_host_def)

lemma demo_host_simps [simp]:
  "blake2_256 demo_host d = take 28 (d @ replicate 28 0) @ le_bytes 4 (of_nat (length d) :: u32)"
  "blake2_256_ordered_root demo_host cs = take 32 (concat cs @ replicate 32 0)"
  "blake2_256_verify_proof demo_host root nodes key v = (nodes = [root, key] \<and> v \<noteq> [])"
  "CHUNK_SIZE demo_host = 2" "num_chunks demo_host n = n div 2 + n mod 2"
  "random_chunk demo_host r t = (case r of [] \<Rightarrow> 0 | b # _ \<Rightarrow> ucast b) mod t"
  "encode_index demo_host i = [ucast i]"
  "multihash_wrap demo_host c d = (if length d \<le> 32 then Some (c, d) else None)"
  "vt_priority (vt_default demo_host) = 0"
  by (simp_all add: demo_host_def)

section \<open>A state within a block\<close>

definition demo_extent :: "PermanentExtent AuthorizationExtent" where
  "demo_extent = \<lparr>ae_transactions = 0, ae_transactions_allowance = 5, ae_bytes = 0,
     ae_extra = \<lparr>bytes_permanent = 0\<rparr>, ae_bytes_allowance = 100\<rparr>"

definition demo_grant :: "PermanentExtent Authorization" where
  "demo_grant = \<lparr>au_extent = demo_extent, au_expiration = 50\<rparr>"

definition demo_budget :: AuthorizerBudget where
  "demo_budget = \<lparr>ab_quota = Some \<lparr>q_transactions = 10, q_bytes = 1000\<rparr>, ab_valid_until = Some 40,
     ab_feeless = True\<rparr>"

definition demo_info :: info where
  "demo_info = \<lparr>ti_chunk_root = replicate 32 3, ti_content_hash = [4, 2], ti_hashing = Blake2b256,
     ti_cid_codec = RAW_CODEC, ti_size = 3, ti_extrinsic_index = 1, ti_block_chunks = 2, ti_meta = Store\<rparr>"

definition demo_state :: rts where
  "demo_state = empty_ts\<lparr>RetentionPeriod := 2, block_number := 5, extrinsic_index := Some 1,
     Authorizations := [Account [1] \<mapsto> demo_grant],
     AllowedAuthorizers := [[9] \<mapsto> demo_budget],
     Transactions := [3 \<mapsto> Current [demo_info]],
     TransactionByContentHash := [[4, 2] \<mapsto> (3, 0)]\<rparr>"

lemma demo_state_simps [simp]:
  "RetentionPeriod demo_state = 2" "block_number demo_state = 5" "extrinsic_index demo_state = Some 1"
  "Authorizations demo_state = [Account [1] \<mapsto> demo_grant]"
  "AllowedAuthorizers demo_state = [[9] \<mapsto> demo_budget]"
  "Transactions demo_state = [3 \<mapsto> Current [demo_info]]"
  "TransactionByContentHash demo_state = [[4, 2] \<mapsto> (3, 0)]"
  "BlockTransactions demo_state = []" "ProofChecked demo_state = False" "parent_hash demo_state = []"
  by (simp_all add: demo_state_def empty_ts_def)

definition demo_rn :: rn where
  "demo_rn = empty_rn"

lemma demo_rn_simps [simp]:
  "Renewals demo_rn = (\<lambda>_. None)" "PendingRenewals demo_rn = []" "PermanentStorageUsed demo_rn = 0"
  "r_events demo_rn = []"
  by (simp_all add: demo_rn_def empty_rn_def)

section \<open>A chain with one stored blob\<close>

definition demo_genesis :: GenesisConfig where
  "demo_genesis = GenesisConfig_default\<lparr>gc_retention_period := 2,
     gc_account_authorizations := [([1], 5, 100)]\<rparr>"

definition demo_s0 :: rts where "demo_s0 = genesis_build demo_cfg demo_genesis empty_ts"

definition demo_s1 :: rts where
  "demo_s1 = fst (snd (on_initialize demo_cfg (handle_obsolete demo_cfg demo_rc) (block_number demo_s0 + 1)
     (next_block [] demo_s0, empty_rn)))"

definition demo_s2 :: rts where "demo_s2 = demo_s1\<lparr>extrinsic_index := Some 1\<rparr>"

definition demo_s3 :: rts where
  "demo_s3 = projr (dispatch demo_cfg demo_host Root (Call_store [7, 8, 9]) demo_s2)"

definition demo_s4 :: rts where
  "demo_s4 = projr (on_finalize (block_number demo_s3) demo_s3)"

definition demo_entry :: info where
  "demo_entry = \<lparr>ti_chunk_root = [7, 8, 9] @ replicate 29 0,
     ti_content_hash = [7, 8, 9] @ replicate 25 0 @ le_bytes 4 (3 :: u32),
     ti_hashing = Blake2b256, ti_cid_codec = RAW_CODEC, ti_size = 3, ti_extrinsic_index = 1,
     ti_block_chunks = 2, ti_meta = Store\<rparr>"

lemma demo_s2_eq: "demo_s2 = empty_ts\<lparr>Authorizations := [Account [1] \<mapsto>
     \<lparr>au_extent = demo_extent, au_expiration = 201600\<rparr>],
   ByteFee := Some 10, EntryFee := Some 1000, RetentionPeriod := 2, block_number := 1,
   extrinsic_index := Some 1, host_calls := [HcIncProviders [1]]\<rparr>"
  by (simp add: demo_s2_def demo_s1_def demo_s0_def on_initialize_def Let_def obsolete_block_def
      retention_period_def demo_genesis_def genesis_build_def GenesisConfig_default_def genesis_account_def
      empty_ts_def next_block_def fresh_extent_def sat_add_def sat_sub_def host_call_def demo_extent_def
      word_le_nat_alt)

lemma demo_chunks: "chunks 2 [a, b, c] = [[a, b], [c]]"
  by (simp add: chunks.simps)

lemma demo_dispatch: "\<exists>cid. dispatch demo_cfg demo_host Root (Call_store [7, 8, 9]) demo_s2 = Inr
   (demo_s2\<lparr>BlockTransactions := [demo_entry],
     TransactionByContentHash := [ti_content_hash demo_entry \<mapsto> (1, 0)],
     events := [EvStored 0 (ti_content_hash demo_entry) cid],
     host_calls := [HcIncProviders [1], HcIndex 1 3 (ti_content_hash demo_entry)]\<rparr>)"
  by (simp add: sat_add_def store_def do_store_def demo_s2_eq Let_def empty_ts_def ensure_data_size_ok_def data_size_ok_def
   calculate_cid_def demo_chunks with_block_transactions_def btm_store_def btm_push_def
   try_push_def total_chunks_def demo_host_def host_call_def deposit_event_def now_def demo_entry_def cid_try_from_def)

lemma demo_s3_simps [simp]:
  "BlockTransactions demo_s3 = [demo_entry]" "Transactions demo_s3 = (\<lambda>_. None)"
  "TransactionByContentHash demo_s3 = [ti_content_hash demo_entry \<mapsto> (1, 0)]"
  "RetentionPeriod demo_s3 = 2" "block_number demo_s3 = 1" "ProofChecked demo_s3 = False"
  "Authorizations demo_s3 = [Account [1] \<mapsto> \<lparr>au_extent = demo_extent, au_expiration = 201600\<rparr>]"
  using demo_dispatch by (auto simp: demo_s3_def demo_s2_eq empty_ts_def)

lemma demo_finalize: "on_finalize (block_number demo_s3) demo_s3 =
    Inr (demo_s3\<lparr>BlockTransactions := [], Transactions := [1 \<mapsto> Current [demo_entry]]\<rparr>)"
  by (simp add: on_finalize_def retention_period_def sat_sub_def seal_block_def Let_def total_chunks_def
      demo_entry_def word_le_nat_alt)

lemma demo_s4_simps [simp]:
  "BlockTransactions demo_s4 = []" "Transactions demo_s4 = [1 \<mapsto> Current [demo_entry]]"
  "TransactionByContentHash demo_s4 = [ti_content_hash demo_entry \<mapsto> (1, 0)]"
  "RetentionPeriod demo_s4 = 2" "block_number demo_s4 = 1"
  "Authorizations demo_s4 = [Account [1] \<mapsto> \<lparr>au_extent = demo_extent, au_expiration = 201600\<rparr>]"
  using demo_finalize by (simp_all add: demo_s4_def)

lemma demo_steps: "(tx_step demo_cfg demo_rc demo_host)\<^sup>*\<^sup>* (genesis demo_cfg demo_genesis) (False, demo_s4, empty_rn)"
proof -
  let ?S = "tx_step demo_cfg demo_rc demo_host"
  have "step demo_cfg demo_rc demo_host (False, demo_s0, empty_rn) (True, demo_s1, empty_rn)"
  proof (rule open_block)
    have s0: "block_number demo_s0 = 0" "RetentionPeriod demo_s0 = 2"
      by (simp_all add: demo_s0_def genesis_build_def demo_genesis_def GenesisConfig_default_def empty_ts_def
          genesis_account_def)
    then show "block_number demo_s0 \<noteq> - 1" by simp
    have "obsolete_block (next_block [] demo_s0) 1 = 0"
      by (simp add: obsolete_block_def retention_period_def s0 word_eq_unat word_nat)
    then show "on_initialize demo_cfg (handle_obsolete demo_cfg demo_rc) (block_number demo_s0 + 1)
        (next_block [] demo_s0, empty_rn) = (on_initialize_with_expiry demo_cfg 0, demo_s1, empty_rn)"
      by (simp add: demo_s1_def s0 on_initialize_def Let_def)
  qed
  then have 1: "?S (False, demo_s0, empty_rn) (True, demo_s1, empty_rn)"
    using hook [of demo_cfg demo_rc demo_host False] by simp
  have 2: "?S (True, demo_s1, empty_rn) (True, demo_s2, empty_rn)"
    unfolding demo_s2_def by (rule extrinsic)
  have 3: "?S (True, demo_s2, empty_rn) (True, demo_s3, empty_rn)"
    using demo_dispatch by (auto simp: demo_s3_def simp del: dispatch.simps intro!: call)
  have "step demo_cfg demo_rc demo_host (True, demo_s3, empty_rn) (False, demo_s4, empty_rn)"
    using demo_finalize by (intro finalize) (auto simp: demo_s4_def renewal_on_finalize_def empty_rn_def)
  then have 4: "?S (True, demo_s3, empty_rn) (False, demo_s4, empty_rn)"
    using hook [of demo_cfg demo_rc demo_host True] by simp
  show ?thesis
    unfolding genesis_def demo_s0_def [symmetric]
    using 1 2 3 4 by (meson converse_rtranclp_into_rtranclp rtranclp.rtrancl_refl)
qed

lemma demo_reachable: "reachable demo_cfg demo_rc demo_host demo_genesis (False, demo_s4, empty_rn)"
  using demo_steps by (intro tx_reachable_reachable) (simp add: tx_reachable_def)

lemma demo_genesis_ok: "genesis_ok demo_genesis"
  by (simp add: genesis_ok_def demo_genesis_def GenesisConfig_default_def word_gt_0)

section \<open>The demo authorizer\<close>

lemma demo_authorizer:
  "paseo_authorizer ids demo_state (Signed [9]) =
     Inr (Some \<lparr>ao_authorizer = [9], ao_valid_until = Some 40, ao_feeless = True\<rparr>)"
  by (simp add: paseo_authorizer_def EitherOf_def authorizer_parts ensure_allowed_authorizers_def
      demo_budget_def is_expired_def now_def word_less_nat_alt word_le_nat_alt)

lemma demo_authorized: "\<exists>s'. authorize_account demo_cfg (Signed [9]) [2] 3 50 demo_state = Inr s'"
  by (simp add: authorize_account_def ensure_authorizer_def demo_authorizer authorize_def Let_def
      consume_authorizer_budget_def demo_budget_def try_consume_def checked_sub_def word_le_nat_alt word_less_nat_alt)

section \<open>The demo runtime passes its integrity tests\<close>

lemma demo_families:
  "StoreTxParams demo_cfg = tx_params ''TransactionStorageStore'' STORE_PRIORITY DAYS"
  "AuthorizeTxParams demo_cfg = tx_params ''TransactionStorageAuthorize'' STORE_PRIORITY DAYS"
  "RemoveExpiredAccountAuthorizationTxParams demo_cfg =
     tx_params ''TransactionStorageRemoveExpiredAccountAuthorization'' CLEANUP_PRIORITY DAYS"
  "RemoveExpiredPreimageAuthorizationTxParams demo_cfg =
     tx_params ''TransactionStorageRemoveExpiredPreimageAuthorization'' CLEANUP_PRIORITY DAYS"
  "RemoveExhaustedAuthorizerTxParams demo_cfg =
     tx_params ''TransactionStorageRemoveExhaustedAuthorizer'' CLEANUP_PRIORITY DAYS"
  "RenewTxParams demo_rc = tx_params ''TransactionStorageRenew'' STORE_PRIORITY DAYS"
  "tx_params p x d = tx_params q y e \<longleftrightarrow> p = q \<and> x = y \<and> u32_to_u64 d = u32_to_u64 e"
  by (simp_all add: demo_cfg_def paseo_config_def storage_config_def demo_rc_def paseo_renewal_config_def tx_params_def)

lemma demo_integrity: "integrity_test demo_cfg" "renewal_integrity_test demo_cfg demo_rc"
  by (simp_all add: integrity_test_def renewal_integrity_test_def assert_pool_families_distinct_def
      assert_distinct_iff pool_families_def demo_families GenesisConfig_default_def)
    (simp_all add: tx_params_def)
section \<open>A chain with a prepaid renewal\<close>

lemma demo_sizes: "sizes_bound demo_cfg demo_host (\<lambda>c. unat (from_le (drop 28 c) :: u32))"
  unfolding sizes_bound_def
proof (intro allI impI)
  fix a and data :: "u8 list"
  have "drop 28 (hash_with demo_host a data) = le_bytes 4 (of_nat (length data) :: u32)"
    by (cases a) (simp_all add: demo_host_def)
  then show "unat (from_le (drop 28 (hash_with demo_host a data)) :: u32) = unat (of_nat (length data) :: u32)" by simp
qed

lemma demo_books_wired: "books_wired demo_cfg demo_rc demo_host (\<lambda>c. unat (from_le (drop 28 c) :: u32))"
  using demo_sizes
  by (simp add: books_wired_def demo_rc_def paseo_renewal_config_def MAX_PERMANENT_STORAGE_SIZE_def)

text \<open>In block 2 the account registers a renewal of the blob of block 1.\<close>

definition demo_t1 :: rts where "demo_t1 = next_block [] demo_s4"

lemma demo_t1_simps [simp]:
  "BlockTransactions demo_t1 = []" "Transactions demo_t1 = [1 \<mapsto> Current [demo_entry]]"
  "TransactionByContentHash demo_t1 = [ti_content_hash demo_entry \<mapsto> (1, 0)]"
  "RetentionPeriod demo_t1 = 2" "block_number demo_t1 = 2"
  "Authorizations demo_t1 = [Account [1] \<mapsto> \<lparr>au_extent = demo_extent, au_expiration = 201600\<rparr>]"
  by (simp_all add: demo_t1_def) (simp add: next_block_def)

lemma demo_open: "step demo_cfg demo_rc demo_host (False, demo_s4, empty_rn) (True, demo_t1, empty_rn)"
proof (rule open_block)
  have "obsolete_block (next_block [] demo_s4) 2 = 0"
    by (simp add: obsolete_block_def retention_period_def word_eq_unat word_nat)
  with on_initialize_idle [of "next_block [] demo_s4" 2 demo_cfg "handle_obsolete demo_cfg demo_rc" empty_rn]
  show "on_initialize demo_cfg (handle_obsolete demo_cfg demo_rc) (block_number demo_s4 + 1)
      (next_block [] demo_s4, empty_rn) = (fst (on_initialize demo_cfg (handle_obsolete demo_cfg demo_rc) 2
      (next_block [] demo_s4, empty_rn)), demo_t1, empty_rn)"
    by (simp add: demo_t1_def prod_eq_iff)
qed simp

lemma demo_renew:
  "\<exists>s r. apply_renewal_signed demo_cfg demo_rc demo_host 1 [1] (RCall_renew (ByContentHash (ti_content_hash demo_entry)))
      (demo_t1, empty_rn) = Inr (s, r)
    \<and> Renewals r = [ti_content_hash demo_entry \<mapsto> registration [1] False] \<and> PermanentStorageUsed r = 3
    \<and> PendingRenewals r = [] \<and> BlockTransactions s = [] \<and> Transactions s = Transactions demo_t1
    \<and> block_number s = 2 \<and> RetentionPeriod s = 2"
proof -
  let ?s = "demo_t1\<lparr>extrinsic_index := Some 1\<rparr>" and ?entry = "ByContentHash (ti_content_hash demo_entry)"
  have res: "resolve_transaction_ref ?s ?entry = Inr demo_entry"
    by (simp add: resolve_transaction_ref_def transaction_info_def tx_get_def nth_opt_def)
  have "get_active_authorization (Account [1]) ?s = Some \<lparr>au_extent = demo_extent, au_expiration = 201600\<rparr>"
    by (simp add: get_active_authorization_def expired_def now_def word_le_nat_alt)
  then obtain s1 r1 where charge: "check_renew_authorization demo_rc (Account [1]) (ti_size demo_entry) True (?s, empty_rn)
      = Inr (s1, r1)"
    and s1: "BlockTransactions s1 = []" "Transactions s1 = Transactions demo_t1" "block_number s1 = 2" "RetentionPeriod s1 = 2"
    by (simp add: check_renew_authorization_eq demo_extent_def demo_entry_def demo_rc_def paseo_renewal_config_def
        MAX_PERMANENT_STORAGE_SIZE_def sat_add_def u32_to_u64_def empty_rn_def word_less_nat_alt)
  have r1: "PermanentStorageUsed r1 = 3" "Renewals r1 = (\<lambda>_. None)" "PendingRenewals r1 = []"
    using check_renew_used [OF charge]
    by (simp_all add: empty_rn_def demo_entry_def sat_add_def u32_to_u64_def)
  let ?r = "r_event (EvRenewalEnabled (ti_content_hash demo_entry) [1] False)
    (r1\<lparr>Renewals := (Renewals r1)(ti_content_hash demo_entry \<mapsto> registration [1] False)\<rparr>)"
  have "renew (StorageAuthorized [1] (Account [1])) ?entry (s1, r1) = Inr (s1, ?r)"
    using res check_renew_frame(1) [OF charge, of ?entry] r1(2) by (simp add: renew_Inr)
  then have "apply_renewal_signed demo_cfg demo_rc demo_host 1 [1] (RCall_renew ?entry) (demo_t1, empty_rn) = Inr (s1, ?r)"
    using res charge by (simp add: apply_renewal_signed_def check_renew_signed_def empty_rn_def)
  with s1 r1 show ?thesis by simp
qed

lemma demo_renewal_run:
  "\<exists>s r. tx_reachable demo_cfg demo_rc demo_host demo_genesis (False, s, r) \<and> PermanentStorageUsed r = 3
    \<and> dom (Transactions s) = {1} \<and> dom (Renewals r) = {ti_content_hash demo_entry}"
proof -
  let ?S = "tx_step demo_cfg demo_rc demo_host"
  obtain s r where a: "apply_renewal_signed demo_cfg demo_rc demo_host 1 [1]
      (RCall_renew (ByContentHash (ti_content_hash demo_entry))) (demo_t1, empty_rn) = Inr (s, r)"
    and sr: "Renewals r = [ti_content_hash demo_entry \<mapsto> registration [1] False]" "PermanentStorageUsed r = 3"
      "PendingRenewals r = []" "BlockTransactions s = []" "Transactions s = Transactions demo_t1"
      "block_number s = 2" "RetentionPeriod s = 2"
    using demo_renew by blast
  let ?s = "seal_block 2 (s\<lparr>ProofChecked := False\<rparr>)"
  have "step demo_cfg demo_rc demo_host (True, s, r) (False, ?s, r)"
    by (rule finalize) (simp_all add: on_finalize_Inr renewal_on_finalize_def sr)
  then have f: "?S (True, s, r) (False, ?s, r)" using hook [of demo_cfg demo_rc demo_host True] by simp
  have "?S (False, demo_s4, empty_rn) (True, demo_t1, empty_rn)"
    using hook [of demo_cfg demo_rc demo_host False] demo_open by simp
  then have "tx_reachable demo_cfg demo_rc demo_host demo_genesis (False, ?s, r)"
    unfolding tx_reachable_def
    using demo_steps renewal_signed [OF a] f by (meson rtranclp.rtrancl_into_rtrancl)
  moreover have "Transactions ?s = Transactions demo_t1" by (simp add: seal_block_def Let_def sr total_chunks_def)
  ultimately show ?thesis using sr(1,2) by (intro exI [of _ ?s] exI [of _ r]) simp
qed

end
