(* ===== verification/Storage_Properties.thy ===== *)
theory Storage_Properties
  imports Demo
begin

text \<open>
  Properties of the storage pallet, each followed by an application to a concrete state:
  storing, the storage proof, grants and their budgets, transaction checks, and the block hooks.
\<close>

section \<open>Storing\<close>

text \<open>C7. \<open>do_store\<close> has exactly four outcomes, decided in this order: data that is empty or
  above the limit is refused, a call outside an extrinsic is refused, a full block is refused, and
  otherwise the entry is appended with the running chunk count, the content hash is pointed at it,
  the host is told to index the data and \<open>Stored\<close> is emitted. The CID computation cannot fail.\<close>

theorem store_outcome:
  assumes "multihash_wrap_spec h" and "hash_len_spec h"
  shows "do_store cfg h data hashing codec s =
    (if \<not> data_size_ok cfg (unat (of_nat (length data) :: u32)) then Inl (Module BadDataSize)
     else case extrinsic_index s of
       None \<Rightarrow> Inl (Module BadContext)
     | Some ext \<Rightarrow>
         if unat (MaxBlockTransactions cfg) \<le> length (BlockTransactions s) then Inl (Module TooManyTransactions)
         else let hash = hash_with h hashing data; i = of_nat (length (BlockTransactions s)) in
           Inr (s\<lparr>
             BlockTransactions := BlockTransactions s @
               [\<lparr>ti_chunk_root = blake2_256_ordered_root h (chunks (CHUNK_SIZE h) data),
                 ti_content_hash = hash, ti_hashing = hashing, ti_cid_codec = codec,
                 ti_size = of_nat (length data), ti_extrinsic_index = ext,
                 ti_block_chunks = sat_add (total_chunks (BlockTransactions s)) (num_chunks h (of_nat (length data))),
                 ti_meta = EntryMeta_default cfg\<rparr>],
             TransactionByContentHash := (TransactionByContentHash s)(hash \<mapsto> (block_number s, i)),
             host_calls := host_calls s @ [HcIndex ext (of_nat (length data)) hash],
             events := events s @ [EvStored i hash
               (Some (cid_v1_bytes h codec (multihash_code hashing, hash)))]\<rparr>))"
proof -
  have "length (hash_with h hashing data) \<le> 32" using length_hash_with [OF assms(2)] by simp
  then have wrap: "multihash_wrap h c (hash_with h hashing data) = Some (c, hash_with h hashing data)" for c
    using assms(1) by (simp add: multihash_wrap_spec_def)
  show ?thesis
    by (simp add: do_store_def Let_def ensure_data_size_ok_def calculate_cid_def cid_try_from_def wrap
        cid_data_to_bytes_def with_store_eq append_entry_eq deposit_event_def host_call_def now_def entry_at_def
        split: option.split)
qed

theorem store_outcome_witness:
  "do_store demo_cfg demo_host [7, 8, 9] Blake2b256 RAW_CODEC (demo_state\<lparr>extrinsic_index := None\<rparr>)
     = Inl (Module BadContext) \<and>
   BlockTransactions (projr (do_store demo_cfg demo_host [7, 8, 9] Blake2b256 RAW_CODEC demo_state)) = [demo_entry]"
  by (simp add: store_outcome [OF demo_multihash_wrap demo_hash_len] data_size_ok_def demo_entry_def
      demo_chunks total_chunks_def sat_add_def Let_def)

section \<open>Storage proof\<close>

text \<open>C4. In a block whose entries have the running chunk counts \<open>do_store\<close> writes, the chunk
  drawn from the parent hash belongs to exactly the entry the binary search finds: the entries
  before it hold fewer chunks than the drawn index, the index within the entry is the difference,
  none of the two subtractions underflows, and the verdict of \<open>verify_chunk_proof\<close> is the
  trie check of that one chunk of that one entry. The early error returns are unreachable.\<close>

theorem challenge_owner:
  assumes "admissible_block cfg h infos" and "random_chunk_spec h"
  shows "\<exists>i j. i < length infos \<and> unat j < chunk_count h (infos ! i)
    \<and> chunks_before h infos i + unat j = unat (random_chunk h r (total_chunks infos))
    \<and> verify_chunk_proof h pf r infos =
        (if blake2_256_verify_proof h (ti_chunk_root (infos ! i)) (pr_proof pf) (encode_index h j) (pr_chunk pf)
         then Inr () else Inl InvalidProof)"
  using verify_owner [OF assms, of r pf] by (simp add: ensure_def)

theorem challenge_owner_witness:
  "admissible_block demo_cfg demo_host [demo_entry] \<and>
   (\<exists>i j. i < length [demo_entry] \<and> unat j < chunk_count demo_host ([demo_entry] ! i)
    \<and> chunks_before demo_host [demo_entry] i + unat j
        = unat (random_chunk demo_host [5] (total_chunks [demo_entry]))
    \<and> verify_chunk_proof demo_host \<lparr>pr_chunk = [9], pr_proof = []\<rparr> [5] [demo_entry] =
        (if blake2_256_verify_proof demo_host (ti_chunk_root ([demo_entry] ! i)) [] (encode_index demo_host j) [9]
         then Inr () else Inl InvalidProof))"
proof -
  have "admissible_block demo_cfg demo_host [demo_entry]"
    using demo_wired
    by (simp add: admissible_block_def wired_def block_ok_def demo_entry_def sat_add_def data_size_ok_def)
  with challenge_owner [OF this demo_random_chunk, of "[5]" "\<lparr>pr_chunk = [9], pr_proof = []\<rparr>"]
  show ?thesis by simp
qed

text \<open>\<open>do_check_proof\<close> accepts exactly when no proof was accepted in this block yet, the
  chain is older than the retention period, the block at the distance of the retention period has
  readable entries and the proof answers its challenge; it then only raises the flag
  \<open>ProofChecked\<close> and emits an event, so that a second proof in the same block is refused.\<close>

lemma proof_accepted:
  "do_check_proof cfg h pf s = Inr s' \<longleftrightarrow>
     \<not> ProofChecked s \<and> RetentionPeriod s < block_number s
     \<and> (\<exists>txs. transactions_at cfg s (block_number s - RetentionPeriod s) = Some txs
          \<and> verify_chunk_proof h pf (parent_hash s) txs = Inr ())
     \<and> s' = s\<lparr>ProofChecked := True, events := events s @ [EvProofChecked]\<rparr>"
  by (simp add: do_check_proof_Inr deposit_event_def)

section \<open>Grants\<close>

text \<open>C16. A successful \<open>authorize_account\<close> leaves every other authorization alone. If the
  account's authorization was live, the grant is added to both allowances, saturating, and the
  usage counters, the extra data and the expiry stay; if there was none or it had expired, the
  allowances are the granted ones, the usage counters and the extra data start afresh, and the
  expiry is one authorization period away, cut at the deadline of the granting authorizer.\<close>

theorem account_grant:
  assumes ok: "authorize_account cfg orig who t n s = Inr s'"
  shows "\<exists>a auth. Authorizer cfg s orig = Inr auth \<and> Authorizations s' = (Authorizations s)(Account who \<mapsto> a)
    \<and> (case get_active_authorization (Account who) s of
         Some old \<Rightarrow>
           ae_transactions_allowance (au_extent a) = sat_add (ae_transactions_allowance (au_extent old)) t
           \<and> ae_bytes_allowance (au_extent a) = sat_add (ae_bytes_allowance (au_extent old)) n
           \<and> ae_transactions (au_extent a) = ae_transactions (au_extent old)
           \<and> ae_bytes (au_extent a) = ae_bytes (au_extent old)
           \<and> ae_extra (au_extent a) = ae_extra (au_extent old)
           \<and> au_expiration a = au_expiration old
       | None \<Rightarrow>
           ae_transactions_allowance (au_extent a) = t \<and> ae_bytes_allowance (au_extent a) = n
           \<and> ae_transactions (au_extent a) = 0 \<and> ae_bytes (au_extent a) = 0
           \<and> ae_extra (au_extent a) = AuthorizationExtra_default cfg
           \<and> au_expiration a = (case Option.bind auth ao_valid_until of
               Some until \<Rightarrow> min (sat_add (block_number s) (AuthorizationPeriod cfg)) until
             | None \<Rightarrow> sat_add (block_number s) (AuthorizationPeriod cfg)))"
proof -
  obtain auth s1 where auth: "Authorizer cfg s orig = Inr auth"
    and s1: "authorize cfg (Account who) t n auth s = Inr s1"
    and s': "s' = deposit_event (EvAccountAuthorized who t n) s1"
    using ok by (auto simp: authorize_account_def ensure_authorizer_def res_simps)
  have cl: "clamp auth e = (case Option.bind auth ao_valid_until of Some until \<Rightarrow> min e until | None \<Rightarrow> e)" for e
    by (cases auth) (auto simp: clamp_def split: option.split)
  from s1 show ?thesis
  proof (cases rule: authorize_cases)
    case (fresh s2)
    then show ?thesis
      using auth s' charge_frame(1) [OF fresh(1)]
      by (auto simp: get_active_authorization_def fresh_extent_def cl now_def
          intro!: exI [of _ auth])
  next
    case (again s2 a)
    then show ?thesis
      using auth s' charge_frame(1) [OF again(1)]
      by (auto simp: get_active_authorization_def regrant_def cl now_def Let_def)
  qed
qed

theorem account_grant_witness:
  "\<exists>s' a. authorize_account demo_cfg (Signed [9]) [2] 3 50 demo_state = Inr s'
     \<and> Authorizations s' (Account [2]) = Some a \<and> ae_bytes_allowance (au_extent a) = 50 \<and> au_expiration a = 40"
proof -
  obtain s' where "authorize_account demo_cfg (Signed [9]) [2] 3 50 demo_state = Inr s'"
    using demo_authorized by blast
  with account_grant [OF this] show ?thesis
    by (auto simp: demo_authorizer get_active_authorization_def sat_add_def min_def word_le_nat_alt)
qed

text \<open>C21. An authorizer with a quota pays for its grants: \<open>authorize_account\<close> succeeds exactly
  when the grant is not empty and both axes of the remaining quota cover it, and then the quota
  shrinks by exactly what was granted; otherwise the call fails with
  \<open>InsufficientAuthorizerBudget\<close>, or with \<open>BadDataSize\<close> for a grant of no bytes.\<close>

theorem budget_spent:
  assumes auth: "Authorizer cfg s orig = Inr (Some ctx)"
    and budget: "AllowedAuthorizers s (ao_authorizer ctx) = Some b" and quota: "ab_quota b = Some q"
  shows "case authorize_account cfg orig who t n s of
      Inr s' \<Rightarrow> 0 < n \<and> (\<exists>q'. AllowedAuthorizers s' = (AllowedAuthorizers s)(ao_authorizer ctx \<mapsto> b\<lparr>ab_quota := Some q'\<rparr>)
        \<and> unat (q_transactions q') + unat t = unat (q_transactions q)
        \<and> unat (q_bytes q') + unat n = unat (q_bytes q))
    | Inl e \<Rightarrow> e = (if n = 0 then Module BadDataSize else Module InsufficientAuthorizerBudget)
        \<and> (n = 0 \<or> unat (q_transactions q) < unat t \<or> unat (q_bytes q) < unat n)"
proof (cases "n = 0")
  case True
  then show ?thesis by (simp add: authorize_account_def ensure_authorizer_def auth)
next
  case False
  then have n: "0 < n" by (simp add: word_gt_0)
  have sub: "unat (a - b) + unat b = unat a" if "b \<le> a" for a b :: "'w::len word"
    using that by (simp add: unat_sub word_le_nat_alt)
  show ?thesis
    using n
    by (auto simp: authorize_account_def ensure_authorizer_def auth authorize_def Let_def
        consume_authorizer_budget_def budget quota try_consume_def checked_sub_def sub not_le word_less_nat_alt
        split: option.split)
qed

theorem budget_spent_witness:
  "authorize_account demo_cfg (Signed [9]) [2] 11 50 demo_state = Inl (Module InsufficientAuthorizerBudget)"
proof -
  have "case authorize_account demo_cfg (Signed [9]) [2] 11 50 demo_state of
      Inr s' \<Rightarrow> False | Inl e \<Rightarrow> e = Module InsufficientAuthorizerBudget"
    using budget_spent [of demo_cfg demo_state "Signed [9]"
        "\<lparr>ao_authorizer = [9], ao_valid_until = Some 40, ao_feeless = True\<rparr>"
        demo_budget "\<lparr>q_transactions = 10, q_bytes = 1000\<rparr>", where who = "[2]" and t = 11 and n = 50]
    by (auto simp: demo_authorizer demo_budget_def split: sum.splits)
  then show ?thesis by (auto split: sum.splits)
qed

text \<open>The grants a list of \<open>authorize_account\<close> calls makes: the transactions and bytes granted
  by the calls that succeed, and the final state.\<close>

fun grant_all ::
    "('m, 'x) config \<Rightarrow> RuntimeOrigin \<Rightarrow> (AccountId \<times> u32 \<times> u64) list \<Rightarrow> ('m, 'x) ts \<Rightarrow> nat \<times> nat \<times> ('m, 'x) ts" where
  "grant_all cfg orig [] s = (0, 0, s)"
| "grant_all cfg orig ((who, t, n) # gs) s =
     (case authorize_account cfg orig who t n s of
        Inl _ \<Rightarrow> grant_all cfg orig gs s
      | Inr s1 \<Rightarrow> (case grant_all cfg orig gs s1 of (ts, ns, s2) \<Rightarrow> (unat t + ts, unat n + ns, s2)))"

lemma paseo_signed_authorizer:
  "paseo_authorizer ids s (Signed w) = ensure_allowed_authorizers (AllowedAuthorizers s) (now s) (Signed w)"
  by (simp add: paseo_authorizer_def EitherOf_def authorizer_parts)

lemma paseo_grant:
  assumes "AllowedAuthorizers s w = Some b" and "ab_quota b = Some q"
    and ok: "authorize_account (paseo_config ids rp) (Signed w) who t n s = Inr s'"
  shows "\<exists>q'. AllowedAuthorizers s' w = Some (b\<lparr>ab_quota := Some q'\<rparr>)
    \<and> unat (q_transactions q') + unat t = unat (q_transactions q) \<and> unat (q_bytes q') + unat n = unat (q_bytes q)"
proof -
  obtain ctx where "Authorizer (paseo_config ids rp) s (Signed w) = Inr (Some ctx)" "ao_authorizer ctx = w"
    using ok assms(1)
    by (auto simp: authorize_account_def ensure_authorizer_def paseo_config_def paseo_signed_authorizer
        ensure_allowed_authorizers_def res_simps split: option.splits if_splits)
  with assms show ?thesis
    by (auto simp: authorize_account_def ensure_authorizer_def authorize_def Let_def res_simps
        consume_authorizer_budget_def try_consume_def checked_sub_def unat_sub word_le_nat_alt
        split: option.splits if_splits)
qed

text \<open>C15. Whatever sequence of account grants a registered authorizer submits on Paseo, the
  transactions and the bytes it manages to grant never exceed the quota it was registered with.\<close>

theorem grants_bounded:
  assumes "AllowedAuthorizers s w = Some b" and "ab_quota b = Some q"
    and "grant_all (paseo_config ids rp) (Signed w) gs s = (ts, ns, s')"
  shows "ts \<le> unat (q_transactions q) \<and> ns \<le> unat (q_bytes q)"
  using assms
proof (induction gs arbitrary: s b q ts ns)
  case Nil
  then show ?case by simp
next
  case (Cons g gs)
  obtain who t n where g: "g = (who, t, n)" by (cases g)
  show ?case
  proof (cases "authorize_account (paseo_config ids rp) (Signed w) who t n s")
    case (Inl e)
    with Cons g show ?thesis by simp
  next
    case (Inr s1)
    obtain ts1 ns1 where rest: "grant_all (paseo_config ids rp) (Signed w) gs s1 = (ts1, ns1, s')"
      and sums: "ts = unat t + ts1" "ns = unat n + ns1"
      using Cons.prems(3) Inr g by (auto split: prod.splits)
    obtain q' where "AllowedAuthorizers s1 w = Some (b\<lparr>ab_quota := Some q'\<rparr>)"
      and q': "unat (q_transactions q') + unat t = unat (q_transactions q)"
        "unat (q_bytes q') + unat n = unat (q_bytes q)"
      using paseo_grant [OF Cons.prems(1,2) Inr] by blast
    with Cons.IH [OF this(1) _ rest, of q'] have "ts1 \<le> unat (q_transactions q')" "ns1 \<le> unat (q_bytes q')"
      by auto
    with q' sums show ?thesis by simp
  qed
qed

theorem grants_bounded_witness:
  "AllowedAuthorizers demo_state [9] = Some demo_budget \<and>
   fst (grant_all demo_cfg (Signed [9]) [([2], 6, 50), ([3], 6, 50)] demo_state) \<le> 10"
proof -
  obtain ts ns s' where g: "grant_all demo_cfg (Signed [9]) [([2], 6, 50), ([3], 6, 50)] demo_state = (ts, ns, s')"
    by (metis prod_cases3)
  show ?thesis
    using grants_bounded [OF _ _ g [unfolded demo_cfg_def], of demo_budget "\<lparr>q_transactions = 10, q_bytes = 1000\<rparr>"] g
    by (simp add: demo_budget_def)
qed

section \<open>Transaction checks\<close>




text \<open>The runtime API \<open>can_store\<close> predicts pool validation: for data whose content has no
  live preimage authorization, in a block with room, it answers true exactly when the signed
  store is accepted.\<close>

lemma can_store_predicts:
  assumes "length data < 2 ^ 32" and "\<not> block_transactions_full cfg s"
    and "get_active_authorization (Preimage (blake2_256 h data)) s = None"
  shows "can_store cfg who (of_nat (length data)) s \<longleftrightarrow> is_ok (validate_signed cfg h who (Call_store data) s)"
proof -
  have "unat (of_nat (length data) :: u32) = length data"
    using assms(1) by (intro unat_of_nat_u32) simp
  with assms(2,3) show ?thesis
    by (auto simp: can_store_def active_account_iff validate_signed_def check_signed_store_eq store_scope_def
        split: option.split)
qed

lemma can_store_predicts_witness:
  "can_store demo_cfg [1] 3 demo_state \<and> is_ok (validate_signed demo_cfg demo_host [1] (Call_store [7, 8, 9]) demo_state)"
proof -
  have "can_store demo_cfg [1] 3 demo_state"
    by (simp add: can_store_def data_size_ok_def account_has_active_authorization_def demo_grant_def expired_def
        now_def word_le_nat_alt)
  with can_store_predicts [of "[7, 8, 9]" demo_cfg demo_state demo_host "[1]"] show ?thesis
    by (simp add: block_transactions_full_def block_transactions_count_def get_active_authorization_def
        word_le_nat_alt)
qed

text \<open>The three unsigned cleanup calls are accepted into the pool exactly when dispatching them
  on the same state succeeds, so that an accepted cleanup does its work: the entry is removed and
  the account's provider reference is released.\<close>

lemma cleanup_valid_iff:
  "is_ok (validate_unsigned cfg h source (Call_remove_expired_account_authorization who) s)
     = (\<exists>s'. dispatch cfg h orig (Call_remove_expired_account_authorization who) s = Inr s'
          \<and> Authorizations s' = (Authorizations s)(Account who := None)
          \<and> host_calls s' = host_calls s @ [HcDecProviders who])
   \<and> is_ok (validate_unsigned cfg h source (Call_remove_expired_preimage_authorization hash) s)
     = (\<exists>s'. dispatch cfg h orig (Call_remove_expired_preimage_authorization hash) s = Inr s'
          \<and> Authorizations s' = (Authorizations s)(Preimage hash := None))
   \<and> is_ok (validate_unsigned cfg h source (Call_remove_exhausted_authorizer who) s)
     = (\<exists>s'. dispatch cfg h orig (Call_remove_exhausted_authorizer who) s = Inr s'
          \<and> AllowedAuthorizers s' = (AllowedAuthorizers s)(who := None)
          \<and> host_calls s' = host_calls s @ [HcDecProviders who])"
  by (intro conjI)
    (auto simp: is_ok_iff validate_unsigned_def check_authorization_expired_def res_simps
      remove_expired_account_authorization_def remove_expired_preimage_authorization_def
      remove_expired_authorization_def remove_exhausted_authorizer_def dec_authorizer_providers_def
      split: option.splits if_splits)

section \<open>Block hooks\<close>

text \<open>When a stored block falls out of the retention period, \<open>on_initialize\<close> removes it and no
  other, erases from the content index exactly the pointers into it, and hands the renewal
  callback its entries in order, each content that the index still located in that block flagged
  on exactly one of its entries.\<close>

lemma sweep_outcome:
  assumes stored: "tx_get s b = Some txs" and b: "b = obsolete_block s n" "b \<noteq> 0"
    and bounded: "length txs \<le> unat (MaxBlockTransactions cfg)"
    and init: "on_initialize cfg handler n (s, r) = (w, s', r')"
  shows "tx_get s' = (tx_get s)(b := None)
    \<and> TransactionByContentHash s' = (\<lambda>c. if c \<in> ti_content_hash ` set txs
          \<and> points_at (TransactionByContentHash s) c b then None else TransactionByContentHash s c)
    \<and> (\<exists>pairs. r' = handler b pairs r \<and> map fst pairs = txs
        \<and> distinct (map (ti_content_hash \<circ> fst) (filter snd pairs))
        \<and> (\<forall>c. c \<in> (ti_content_hash \<circ> fst) ` set (filter snd pairs) \<longleftrightarrow>
            c \<in> ti_content_hash ` set txs \<and> points_at (TransactionByContentHash s) c b))"
proof -
  let ?ps = "flag_latest b txs (TransactionByContentHash s)"
  have s': "s' = drop_block b s"
    using on_initialize_state [of cfg handler n s r] init b by simp
  have r': "r' = handler b ?ps r"
    using on_initialize_consumer [of s n txs cfg handler r] init stored b bounded by simp
  have flagged: "c \<in> (ti_content_hash \<circ> fst) ` set (filter snd ?ps) \<longleftrightarrow>
      c \<in> ti_content_hash ` set txs \<and> points_at (TransactionByContentHash s) c b" for c
  proof
    assume "c \<in> (ti_content_hash \<circ> fst) ` set (filter snd ?ps)"
    then show "c \<in> ti_content_hash ` set txs \<and> points_at (TransactionByContentHash s) c b"
      using flag_latest_hash by fastforce
  next
    assume "c \<in> ti_content_hash ` set txs \<and> points_at (TransactionByContentHash s) c b"
    then obtain t where "(t, True) \<in> set ?ps" "ti_content_hash t = c"
      using flag_latest_complete by blast
    then show "c \<in> (ti_content_hash \<circ> fst) ` set (filter snd ?ps)" by force
  qed
  have "tx_get s' = (tx_get s)(b := None)" by (rule ext) (simp add: s' drop_block_get)
  moreover have "TransactionByContentHash s' = (\<lambda>c. if c \<in> ti_content_hash ` set txs
      \<and> points_at (TransactionByContentHash s) c b then None else TransactionByContentHash s c)"
    by (simp add: s' drop_block_def stored)
  moreover note r' flag_latest_distinct [of b txs "TransactionByContentHash s"] flagged
  ultimately show ?thesis
    by (intro conjI exI [of _ ?ps]) simp_all
qed

lemma sweep_outcome_witness:
  "\<exists>s' r'. snd (on_initialize demo_cfg (\<lambda>b pairs r. map (ti_content_hash \<circ> fst) (filter snd pairs)) 6 (demo_state, [])) = (s', r')
     \<and> tx_get s' 3 = None \<and> TransactionByContentHash s' [4, 2] = None"
proof -
  let ?f = "\<lambda>b pairs r. map (ti_content_hash \<circ> fst) (filter snd pairs)"
  obtain w s' r' where i: "on_initialize demo_cfg ?f 6 (demo_state, []) = (w, s', r')" by (rule prod_cases3)
  have o: "3 = obsolete_block demo_state 6"
    by (simp add: obsolete_block_def retention_period_def sat_add_def sat_sub_def word_le_nat_alt)
  have "tx_get demo_state 3 = Some [demo_info]" by (simp add: tx_get_def)
  note sw = sweep_outcome [OF this o _ _ i]
  have "tx_get s' 3 = None" using sw by simp
  moreover have "TransactionByContentHash s' [4, 2] = None"
    using sw by (simp add: demo_info_def points_at_def)
  ultimately show ?thesis unfolding i by simp
qed

text \<open>\<open>on_finalize\<close> panics exactly when the block at the distance of the retention period is
  stored and its proof was not checked. Otherwise it seals the block: under the pallet's invariant
  every accumulated entry is stored under the block's number, in order, an empty block stores
  nothing, earlier blocks are untouched, and the flag and the accumulator are reset.\<close>

lemma finalize_seals:
  assumes inv: "storage_inv cfg h True s" and fit: "chunks_fit cfg h" "num_chunks_spec h"
  shows "on_finalize (block_number s) s =
    (if \<not> ProofChecked s \<and> RetentionPeriod s < block_number s
        \<and> Transactions s (block_number s - RetentionPeriod s) \<noteq> None
     then Inl ''Storage proof must be checked once in the block''
     else Inr (s\<lparr>ProofChecked := False, BlockTransactions := [],
       Transactions := (if BlockTransactions s = [] then Transactions s
         else (Transactions s)(block_number s \<mapsto> Current (BlockTransactions s)))\<rparr>))"
proof (cases "\<not> ProofChecked s \<and> RetentionPeriod s < block_number s
        \<and> Transactions s (block_number s - RetentionPeriod s) \<noteq> None")
  case True
  then have "\<nexists>s'. on_finalize (block_number s) s = Inr s'" by (auto simp: on_finalize_Inr)
  then have "on_finalize (block_number s) s = Inl ''Storage proof must be checked once in the block''"
    by (auto simp: on_finalize_def Let_def ensure_def split: if_splits)
  with True show ?thesis by simp
next
  case False
  let ?s = "s\<lparr>ProofChecked := False\<rparr>"
  have "storage_inv cfg h True ?s" using inv by (rule inv.proof_mark)
  note eq = seal_block_entries [OF this fit]
  have "on_finalize (block_number s) s = Inr (seal_block (now ?s) ?s)"
    using False by (auto simp: on_finalize_Inr now_def not_less)
  with False show ?thesis unfolding eq by (simp add: now_def cong: if_cong)
qed

lemma demo_s3_inv: "storage_inv demo_cfg demo_host True demo_s3"
  by (simp add: storage_inv_defs index_sound_def index_complete_def block_entries_def tx_get_def now_def
      block_ok_def data_size_ok_def sat_add_def demo_entry_def word_gt_0)

lemma finalize_seals_witness:
  "storage_inv demo_cfg demo_host True demo_s3 \<and>
   (\<exists>s'. on_finalize 1 demo_s3 = Inr s' \<and> Transactions s' = [1 \<mapsto> Current [demo_entry]])"
  using finalize_seals [OF demo_s3_inv] demo_s3_inv demo_wired
  by (simp add: wired_def word_less_nat_alt)

section \<open>Pool tags\<close>

text \<open>Under the integrity test of the renewal pallet the pool families do not collide: a store, a
  renewal and the three cleanup calls never provide the same tag, whatever their payloads, so that
  none of them can keep another out of the pool.\<close>

lemma pool_families_disjoint:
  assumes "tag_spec h" and "renewal_integrity_test cfg rc"
    and "p \<in> {RenewTxParams rc, StoreTxParams cfg, RemoveExpiredAccountAuthorizationTxParams cfg,
      RemoveExpiredPreimageAuthorizationTxParams cfg, RemoveExhaustedAuthorizerTxParams cfg}"
    and "q \<in> {RenewTxParams rc, StoreTxParams cfg, RemoveExpiredAccountAuthorizationTxParams cfg,
      RemoveExpiredPreimageAuthorizationTxParams cfg, RemoveExhaustedAuthorizerTxParams cfg}"
    and "p \<noteq> q"
  shows "set (vt_provides (provides h p x)) \<inter> set (vt_provides (provides h q y)) = {}"
proof (rule provides_disjoint [OF assms(1)])
  let ?ps = "RenewTxParams rc # map snd (pool_families cfg)"
  have "distinct (map vp_tag_prefix ?ps)"
    using assms(2) by (simp add: renewal_integrity_test_def assert_pool_families_distinct_def assert_distinct_iff)
  then have "inj_on vp_tag_prefix (set ?ps)" unfolding distinct_map by blast
  moreover have "p \<in> set ?ps" "q \<in> set ?ps" using assms(3,4) unfolding pool_families_def by auto
  ultimately show "vp_tag_prefix p \<noteq> vp_tag_prefix q" using assms(5) by (meson inj_onD)
qed

lemma pool_families_disjoint_witness:
  "set (vt_provides (provides demo_host (RenewTxParams demo_rc) [1])) \<inter>
   set (vt_provides (provides demo_host (StoreTxParams demo_cfg) [1])) = {}"
  by (rule pool_families_disjoint [OF demo_tag demo_integrity(2)]) (simp_all add: demo_families)

end
