(* ===== verification/Renewal_Properties.thy ===== *)
theory Renewal_Properties
  imports Demo
begin

text \<open>
  Properties of the renewal pallet: the hard caps, registrations and who may withdraw them, the
  drain of the queue, and the delivery of what was paid for.
\<close>

section \<open>Hard caps\<close>

text \<open>C6. A consuming renewal check either fails without effect or charges one transaction and the
  size, exactly, to the authorization and to the chain-wide counter, and then neither the
  authorization's permanent bytes nor the counter exceeds its cap. The errors come in this order:
  no live authorization, allowance exceeded, chain cap reached. (With a cap of \<open>u64::MAX\<close> the
  sums saturate, so the caps are assumed smaller.)\<close>

theorem renewal_caps:
  assumes "MaxPermanentStorageSize rc \<noteq> - 1"
    and "\<And>a. get_active_authorization scope s = Some a \<Longrightarrow> ae_bytes_allowance (au_extent a) \<noteq> - 1"
  shows "case check_renew_authorization rc scope sz True (s, r) of
      Inr (s', r') \<Rightarrow> \<exists>a a'. get_active_authorization scope s = Some a
        \<and> s' = s\<lparr>Authorizations := (Authorizations s)(scope \<mapsto> a')\<rparr>
        \<and> ae_transactions (au_extent a') = sat_add (ae_transactions (au_extent a)) 1
        \<and> ae_bytes (au_extent a') = ae_bytes (au_extent a)
        \<and> ae_bytes_allowance (au_extent a') = ae_bytes_allowance (au_extent a) \<and> au_expiration a' = au_expiration a
        \<and> unat (bytes_permanent (ae_extra (au_extent a'))) = unat (bytes_permanent (ae_extra (au_extent a))) + unat sz
        \<and> bytes_permanent (ae_extra (au_extent a')) \<le> ae_bytes_allowance (au_extent a')
        \<and> unat (PermanentStorageUsed r') = unat (PermanentStorageUsed r) + unat sz
        \<and> PermanentStorageUsed r' \<le> MaxPermanentStorageSize rc
        \<and> Renewals r' = Renewals r
    | Inl e \<Rightarrow> (case get_active_authorization scope s of
        None \<Rightarrow> e = ITPayment
      | Some a \<Rightarrow>
          if unat (ae_bytes_allowance (au_extent a)) < unat (bytes_permanent (ae_extra (au_extent a))) + unat sz
          then e = PERMANENT_ALLOWANCE_EXCEEDED
          else unat (MaxPermanentStorageSize rc) < unat (PermanentStorageUsed r) + unat sz
            \<and> e = CHAIN_PERMANENT_CAP_REACHED)"
proof -
  have cap: "(c < sat_add u x) = (unat c < unat u + unat x)" "\<not> c < sat_add u x \<Longrightarrow> unat (sat_add u x) = unat u + unat x"
    if "c \<noteq> - 1" for c u x :: u64
  proof -
    have "unat c < 2 ^ 64 - 1"
      using that unat_le_max [of c] by (auto simp: word_eq_unat unat_minus_one_eq le_less)
    then show "(c < sat_add u x) = (unat c < unat u + unat x)"
      "\<not> c < sat_add u x \<Longrightarrow> unat (sat_add u x) = unat u + unat x"
      by (auto simp: word_nat)
  qed
  show ?thesis
  proof (cases "get_active_authorization scope s")
    case None
    then show ?thesis by (simp add: check_renew_authorization_eq)
  next
    case (Some a)
    note c = cap [OF assms(2) [OF Some]] cap [OF assms(1)]
    from Some show ?thesis
      by (auto simp: check_renew_authorization_eq c not_less [symmetric])
  qed
qed

theorem renewal_caps_witness:
  "check_renew_authorization demo_rc (Account [1]) 101 True (demo_state, demo_rn) = Inl PERMANENT_ALLOWANCE_EXCEEDED"
proof -
  have act: "get_active_authorization (Account [1]) demo_state = Some demo_grant"
    by (simp add: get_active_authorization_def demo_grant_def expired_def now_def word_le_nat_alt)
  have "case check_renew_authorization demo_rc (Account [1]) 101 True (demo_state, demo_rn) of
      Inr _ \<Rightarrow> False | Inl e \<Rightarrow> e = PERMANENT_ALLOWANCE_EXCEEDED"
    using renewal_caps [of demo_rc "Account [1]" demo_state 101 demo_rn] act
    by (auto simp: demo_grant_def demo_extent_def demo_rc_def paseo_renewal_config_def
        MAX_PERMANENT_STORAGE_SIZE_def word_le_nat_alt split: sum.splits prod.splits)
  then show ?thesis by (auto split: sum.splits)
qed

text \<open>Every change of the chain-wide counter is announced, and the near-cap warning is emitted
  exactly on the rising edge: when the counter was below the threshold before and is not after.\<close>

lemma near_cap_event:
  "r_events (update_permanent_storage_used rc f r) = r_events r @
     EvPermanentStorageUsedUpdated (f (PermanentStorageUsed r)) #
     (if PermanentStorageUsed r < near_cap_threshold (MaxPermanentStorageSize rc)
         \<and> near_cap_threshold (MaxPermanentStorageSize rc) \<le> f (PermanentStorageUsed r)
      then [EvPermanentStorageNearCap (f (PermanentStorageUsed r)) (MaxPermanentStorageSize rc)] else [])"
  by (simp add: update_permanent_storage_used_def Let_def r_event_def)

section \<open>Registrations\<close>

text \<open>A registration is withdrawn by Root, or by its owner once it is no longer prepaid, and by
  nobody else; withdrawing removes exactly that registration, announces it, and leaves the storage
  pallet and the counter alone.\<close>

lemma disable_rules:
  "disable_auto_renew orig hash (s, r) = Inr (s', r') \<longleftrightarrow>
     (\<exists>data. Renewals r hash = Some data
       \<and> (orig = Root \<or> (\<exists>scope. orig = StorageAuthorized (rd_account data) scope \<and> \<not> rd_paid data))
       \<and> s' = s
       \<and> r' = r\<lparr>Renewals := (Renewals r)(hash := None),
                r_events := r_events r @ [EvAutoRenewalDisabled hash (rd_account data)]\<rparr>)"
  by (auto simp: disable_auto_renew_Inr r_event_def)

text \<open>C14. Nobody is charged for a registration that is then refused: after the signed check of
  \<open>renew\<close> or \<open>enable_auto_renew\<close> has charged the signer, dispatching the call with the origin
  the extension hands over succeeds on the charged state, and registers a prepaid renewal for the
  signer, one-shot or recurring.\<close>

theorem charged_registration_succeeds:
  "(pre_dispatch_renewal_signed cfg rc h who (RCall_renew entry) (s, r) = Inr (s', r') \<longrightarrow>
     (\<exists>info r''. resolve_transaction_ref s entry = Inr info
        \<and> renewal_dispatch cfg rc h (StorageAuthorized who (Account who)) (RCall_renew entry) (s', r') = Inr (s', r'')
        \<and> Renewals r'' = (Renewals r)(ti_content_hash info \<mapsto> \<lparr>rd_account = who, rd_recurring = False, rd_paid = True\<rparr>)))
   \<and> (pre_dispatch_renewal_signed cfg rc h who (RCall_enable_auto_renew hash) (s, r) = Inr (s', r') \<longrightarrow>
     (\<exists>r''. renewal_dispatch cfg rc h (StorageAuthorized who (Account who)) (RCall_enable_auto_renew hash) (s', r') = Inr (s', r'')
        \<and> Renewals r'' = (Renewals r)(hash \<mapsto> \<lparr>rd_account = who, rd_recurring = True, rd_paid = True\<rparr>)))"
proof (intro conjI impI)
  assume "pre_dispatch_renewal_signed cfg rc h who (RCall_renew entry) (s, r) = Inr (s', r')"
  then obtain info where info: "resolve_transaction_ref s entry = Inr info" "Renewals r (ti_content_hash info) = None"
    and charge: "check_renew_authorization rc (Account who) (ti_size info) True (s, r) = Inr (s', r')"
    by (auto simp: pre_dispatch_renewal_signed_def check_renew_signed_def res_simps split: if_splits)
  show "\<exists>info r''. resolve_transaction_ref s entry = Inr info
      \<and> renewal_dispatch cfg rc h (StorageAuthorized who (Account who)) (RCall_renew entry) (s', r') = Inr (s', r'')
      \<and> Renewals r'' = (Renewals r)(ti_content_hash info \<mapsto> \<lparr>rd_account = who, rd_recurring = False, rd_paid = True\<rparr>)"
    using info check_renew_frame [OF charge] by (simp add: renew_Inr registration_def)
next
  assume "pre_dispatch_renewal_signed cfg rc h who (RCall_enable_auto_renew hash) (s, r) = Inr (s', r')"
  then obtain b i info where info: "lookup_by_content_hash s hash = Some (b, i)" "transaction_info s b i = Some info"
      "Renewals r hash = None"
    and charge: "check_renew_authorization rc (Account who) (ti_size info) True (s, r) = Inr (s', r')"
    by (auto simp: pre_dispatch_renewal_signed_def check_enable_auto_renew_signed_def res_simps split: if_splits)
  show "\<exists>r''. renewal_dispatch cfg rc h (StorageAuthorized who (Account who)) (RCall_enable_auto_renew hash) (s', r') = Inr (s', r'')
      \<and> Renewals r'' = (Renewals r)(hash \<mapsto> \<lparr>rd_account = who, rd_recurring = True, rd_paid = True\<rparr>)"
    using info check_renew_frame [OF charge] by (simp add: enable_auto_renew_Inr registration_def)
qed

theorem charged_registration_succeeds_witness:
  "\<exists>s' r' r''. pre_dispatch_renewal_signed demo_cfg demo_rc demo_host [1] (RCall_enable_auto_renew [4, 2])
       (demo_state, demo_rn) = Inr (s', r')
     \<and> renewal_dispatch demo_cfg demo_rc demo_host (StorageAuthorized [1] (Account [1])) (RCall_enable_auto_renew [4, 2]) (s', r')
       = Inr (s', r'')
     \<and> Renewals r'' [4, 2] = Some \<lparr>rd_account = [1], rd_recurring = True, rd_paid = True\<rparr>"
proof -
  have "get_active_authorization (Account [1]) demo_state = Some demo_grant"
    by (simp add: get_active_authorization_def demo_grant_def expired_def now_def word_le_nat_alt)
  then have "\<exists>s' r'. pre_dispatch_renewal_signed demo_cfg demo_rc demo_host [1] (RCall_enable_auto_renew [4, 2])
       (demo_state, demo_rn) = Inr (s', r')"
    by (simp add: pre_dispatch_renewal_signed_def check_enable_auto_renew_signed_def lookup_by_content_hash_def
        transaction_info_def tx_get_def nth_opt_def demo_info_def check_renew_authorization_eq demo_grant_def
        demo_extent_def demo_rc_def paseo_renewal_config_def MAX_PERMANENT_STORAGE_SIZE_def sat_add_def
        u32_to_u64_def word_less_nat_alt)
  then obtain s' r' where p: "pre_dispatch_renewal_signed demo_cfg demo_rc demo_host [1] (RCall_enable_auto_renew [4, 2])
       (demo_state, demo_rn) = Inr (s', r')" by blast
  show ?thesis
    using charged_registration_succeeds [THEN conjunct2, rule_format, OF p] p
    by (auto simp del: renewal_dispatch.simps)
qed

section \<open>The drain\<close>

text \<open>C17. The mandatory inherent never fails: with the inherent origin, \<open>process_pending_renewals\<close>
  returns on every state, the queue is empty afterwards, and the pallet's \<open>on_finalize\<close>, which
  panics on a non-empty queue, accepts the block.\<close>

theorem drain_total:
  "\<exists>w s' r'. process_pending_renewals cfg rc h NoneOrigin (s, r) = Inr (w, s', r')
     \<and> PendingRenewals r' = [] \<and> renewal_on_finalize r' = Inr r'"
proof -
  obtain n s' r' where d: "do_process_pending_renewals cfg rc h (s, r) = (n, s', r')" by (rule prod_cases3)
  with process_pending_drains [of cfg rc h s r] have "PendingRenewals r' = []" by simp
  with d show ?thesis
    by (simp add: process_pending_renewals_def ensure_none_def renewal_on_finalize_def)
qed

lemma due_delivered:
  assumes pending: "PendingRenewals r = due renewals items" and ext: "extrinsic_index s = Some ext"
    and room: "length (BlockTransactions s) + length items \<le> unat (MaxBlockTransactions cfg)"
    and item: "(t, True) \<in> set items" "renewals (ti_content_hash t) = Some data" "rd_paid data"
    and run: "process_pending_renewals cfg rc h NoneOrigin (s, r) = Inr (w, s', r')"
  shows "points_at (TransactionByContentHash s') (ti_content_hash t) (block_number s)"
proof -
  let ?c = "ti_content_hash t"
  have mem: "(?c, t, data) \<in> set (PendingRenewals r)" unfolding pending by (simp add: set_due item)
  have len: "length (PendingRenewals r) \<le> length items" unfolding pending by (rule length_due)
  have "unat (of_nat (length (PendingRenewals r)) :: u32) = length (PendingRenewals r)"
    using len room unat_u32_less [of "MaxBlockTransactions cfg"] by (intro unat_of_nat_u32) simp
  then have "(of_nat (length (PendingRenewals r)) :: u32) \<noteq> 0" using mem by (auto simp: unat_eq_zero [symmetric])
  with run ext have s': "s' = plain (snd (fold (drain_one cfg rc h ext) (PendingRenewals r)
      (r\<lparr>PendingRenewals := []\<rparr>, BlockTransactions s, s)))"
    by (auto simp: process_pending_renewals_def ensure_none_def do_process_pending_renewals_def Let_def
        with_block_transactions_plain split: prod.splits)
  show ?thesis
    unfolding s'
    using drain_delivers [of "(BlockTransactions s, s)" "PendingRenewals r" cfg ?c rc h ext "r\<lparr>PendingRenewals := []\<rparr>"]
      mem len room item(3)
    by (force simp: plain_def)
qed

text \<open>Opening the block in which the block of a content expires queues the content.\<close>

lemma expiring_queued:
  assumes inv: "storage_inv cfg h False s" and idle: "PendingRenewals r = []"
    and loc: "TransactionByContentHash s c = Some (b, i)"
    and expiring: "b = obsolete_block (next_block p s) n" "b \<noteq> 0"
    and init: "on_initialize cfg (handle_obsolete cfg rc) n (next_block p s, r) = (w, s1, r1)"
  obtains items t where "PendingRenewals r1 = due (Renewals r) items"
    "length items \<le> unat (MaxBlockTransactions cfg)" "(t, True) \<in> set items" "ti_content_hash t = c"
    "BlockTransactions s1 = []" "block_number s1 = block_number s + 1"
proof -
  let ?s = "next_block p s"
  have closed: "BlockTransactions s = []" using inv by (simp add: storage_inv_defs)
  have entry: "unat i < length (block_entries s b)" "ti_content_hash (block_entries s b ! unat i) = c"
    using inv loc by (auto simp: storage_inv_defs index_sound_def)
  then obtain txs where txs: "tx_get s b = Some txs"
    using closed by (auto simp: block_entries_def split: option.splits if_splits)
  with entry have hash: "c \<in> ti_content_hash ` set txs" by (auto simp: block_entries_def)
  have len: "length txs \<le> unat (MaxBlockTransactions cfg)"
    using inv txs by (auto simp: storage_inv_defs block_ok_def)
  have get: "tx_get ?s b = Some txs" using txs by (simp add: tx_get_def)
  let ?items = "flag_latest b txs (TransactionByContentHash s)"
  have r1: "r1 = handle_obsolete cfg rc b ?items r"
    using on_initialize_consumer [of ?s n txs cfg "handle_obsolete cfg rc" r] get expiring len init by simp
  have ilen: "length ?items = length txs" by (metis length_map map_fst_flag_latest)
  obtain t where t: "(t, True) \<in> set ?items" "ti_content_hash t = c"
    using flag_latest_complete [OF hash] loc by (auto simp: points_at_def)
  have "s1 = drop_block b ?s"
    using on_initialize_state [of cfg "handle_obsolete cfg rc" n ?s r] init expiring by simp
  then have "BlockTransactions s1 = []" "block_number s1 = block_number s + 1"
    using closed by (simp_all add: next_block_def)
  with that [of ?items t] handle_obsolete_queue(1) [OF idle, of ?items cfg rc b] r1 t len ilen show thesis
    by simp
qed

lemma current_lookup:
  assumes "storage_inv cfg h True s" and "TransactionByContentHash s c = Some (block_number s, j)"
  shows "unat j < length (BlockTransactions s) \<and> ti_content_hash (BlockTransactions s ! unat j) = c"
proof -
  have "block_entries s (block_number s) = BlockTransactions s"
    using assms(1) append_block_entries(2) [of cfg h s] by (simp add: storage_inv_def now_def)
  with assms show ?thesis unfolding storage_inv_def index_sound_def by force
qed

lemma drain_storage_inv:
  assumes inv: "storage_inv cfg h True s" and "pending_ok cfg r"
    and "process_pending_renewals cfg rc h NoneOrigin (s, r) = Inr (w, s', r')"
  shows "storage_inv cfg h True s'" and "block_number s' = block_number s"
proof -
  have d: "renewal_dispatch cfg rc h NoneOrigin RCall_process_pending_renewals (s, r) = Inr (s', r')"
    using assms(3) by simp
  show "storage_inv cfg h True s'" by (rule rinv.keeps.renewal_dispatch_keeps [OF assms(1,2) d])
  have "fixed_history (Transactions s) (RetentionPeriod s) (block_number s) s" by (simp add: fixed_history_def)
  from rhist.keeps.renewal_dispatch_keeps [OF this assms(2) d] show "block_number s' = block_number s"
    by (simp add: fixed_history_def)
qed

text \<open>C2. What was paid for is delivered. When the block that holds a content expires and the content
  has a prepaid registration, then after \<open>on_initialize\<close> and the drain inherent of the same
  block the content index points into the new block, at an entry with that content: the data
  never leaves the chain's retention.\<close>

theorem prepaid_renewal_delivered:
  assumes inv: "storage_inv cfg h False s" and idle: "PendingRenewals r = []"
    and room: "block_number s \<noteq> - 1"
    and loc: "TransactionByContentHash s c = Some (b, i)"
    and expiring: "b = obsolete_block (next_block p s) (block_number s + 1)" "b \<noteq> 0"
    and paid: "Renewals r c = Some data" "rd_paid data"
    and init: "on_initialize cfg (handle_obsolete cfg rc) (block_number s + 1) (next_block p s, r) = (w, s1, r1)"
    and drain: "process_pending_renewals cfg rc h NoneOrigin (s1\<lparr>extrinsic_index := Some ext\<rparr>, r1) = Inr (w', s2, r2)"
  shows "\<exists>j. TransactionByContentHash s2 c = Some (block_number s + 1, j)
    \<and> unat j < length (BlockTransactions s2) \<and> ti_content_hash (BlockTransactions s2 ! unat j) = c"
proof -
  let ?s1 = "s1\<lparr>extrinsic_index := Some ext\<rparr>"
  obtain items t where q: "PendingRenewals r1 = due (Renewals r) items"
      "length items \<le> unat (MaxBlockTransactions cfg)" "(t, True) \<in> set items" "ti_content_hash t = c"
    and s1: "BlockTransactions s1 = []" "block_number s1 = block_number s + 1"
    using expiring_queued [OF inv idle loc expiring init] .
  have "points_at (TransactionByContentHash s2) c (block_number s + 1)"
    using due_delivered [OF q(1) _ _ q(3) _ paid(2) drain] q(2,4) s1 paid(1) by simp
  then obtain j where j: "TransactionByContentHash s2 c = Some (block_number s + 1, j)"
    by (auto simp: points_at_def)
  have "storage_inv cfg h True s1"
    using next_block_inv [OF inv room, of "handle_obsolete cfg rc" p r] init by simp
  then have inv1: "storage_inv cfg h True ?s1" by (subst storage_inv_frame [of _ s1]) simp_all
  note after = drain_storage_inv [OF inv1 open_block_queue(1) [OF inv idle init] drain]
  show ?thesis using current_lookup [OF after(1), of c j] j after(2) s1(2) by simp
qed

definition demo_s5 :: rts where "demo_s5 = demo_s4\<lparr>block_number := 3\<rparr>"

lemma demo_s5_simps [simp]:
  "BlockTransactions demo_s5 = []" "Transactions demo_s5 = [1 \<mapsto> Current [demo_entry]]"
  "TransactionByContentHash demo_s5 = [ti_content_hash demo_entry \<mapsto> (1, 0)]"
  "RetentionPeriod demo_s5 = 2" "block_number demo_s5 = 3"
  by (simp_all add: demo_s5_def)

lemma demo_s5_inv: "storage_inv demo_cfg demo_host False demo_s5"
  by (simp add: storage_inv_defs index_sound_def index_complete_def block_entries_def tx_get_def now_def
      block_ok_def data_size_ok_def sat_add_def sat_sub_def demo_entry_def word_gt_0 word_le_nat_alt)

theorem prepaid_renewal_delivered_witness:
  "\<exists>w s1 r1 w' s2 r2 j.
     on_initialize demo_cfg (handle_obsolete demo_cfg demo_rc) 4
       (next_block [] demo_s5, demo_rn\<lparr>Renewals := [ti_content_hash demo_entry \<mapsto> registration [1] False]\<rparr>) = (w, s1, r1)
     \<and> process_pending_renewals demo_cfg demo_rc demo_host NoneOrigin (s1\<lparr>extrinsic_index := Some 0\<rparr>, r1) = Inr (w', s2, r2)
     \<and> TransactionByContentHash s2 (ti_content_hash demo_entry) = Some (4, j)"
proof -
  let ?r = "demo_rn\<lparr>Renewals := [ti_content_hash demo_entry \<mapsto> registration [1] False]\<rparr>"
  obtain w s1 r1 where i: "on_initialize demo_cfg (handle_obsolete demo_cfg demo_rc) 4 (next_block [] demo_s5, ?r) = (w, s1, r1)"
    by (rule prod_cases3)
  obtain n s2 r2 where "do_process_pending_renewals demo_cfg demo_rc demo_host (s1\<lparr>extrinsic_index := Some 0\<rparr>, r1) = (n, s2, r2)"
    by (rule prod_cases3)
  then have d: "process_pending_renewals demo_cfg demo_rc demo_host NoneOrigin (s1\<lparr>extrinsic_index := Some 0\<rparr>, r1)
      = Inr (process_pending_renewals_weight demo_rc n, s2, r2)"
    by (simp add: process_pending_renewals_def ensure_none_def)
  have o: "1 = obsolete_block (next_block [] demo_s5) (block_number demo_s5 + 1)"
    by (simp add: obsolete_block_def retention_period_def sat_add_def sat_sub_def word_le_nat_alt)
  have "\<exists>j. TransactionByContentHash s2 (ti_content_hash demo_entry) = Some (block_number demo_s5 + 1, j)
      \<and> unat j < length (BlockTransactions s2)
      \<and> ti_content_hash (BlockTransactions s2 ! unat j) = ti_content_hash demo_entry"
    by (rule prepaid_renewal_delivered [OF demo_s5_inv _ _ _ o _ _ _ _ d, where r = ?r and i = 0 and data = "registration [1] False" and w = w])
      (use i in \<open>simp_all add: registration_def\<close>)
  with i d show ?thesis by auto
qed

section \<open>Renewals by Root\<close>

text \<open>A renewal forced by Root stores the content again as a \<open>Renew\<close> entry without charging any
  authorization and without raising the chain-wide counter; when the entry expires, its size is
  nevertheless subtracted from the counter, so that the counter falls below what was charged for
  the remaining renewals.\<close>

lemma root_force_renew_uncharged:
  assumes ok: "force_renew cfg h Root entry (s, r) = Inr (s', r')"
  shows "Authorizations s' = Authorizations s \<and> PermanentStorageUsed r' = PermanentStorageUsed r
    \<and> (\<exists>e. BlockTransactions s' = BlockTransactions s @ [e] \<and> ti_meta e = Renew
        \<and> data_size_ok cfg (unat (ti_size e))
        \<and> (\<forall>b f r0. PermanentStorageUsed (handle_obsolete cfg rc b [(e, f)] r0)
             = sat_sub (PermanentStorageUsed r0) (u32_to_u64 (ti_size e))))"
proof -
  obtain info ext where "data_size_ok cfg (unat (ti_size info))"
    and s': "s' = host_call (HcRenew ext (ti_content_hash info))
        (append_entry h (info\<lparr>ti_extrinsic_index := ext, ti_meta := Renew\<rparr>) s)"
    and r': "r' = r_event (EvRenewed (of_nat (length (BlockTransactions s))) (ti_content_hash info)) r"
    using ok by (auto simp: force_renew_Inr)
  moreover have "sat_add 0 x = x" for x :: u64
    using unat_le_max [of x] by (simp add: word_eq_unat word_nat)
  then have "PermanentStorageUsed (handle_obsolete cfg rc b [(e, f)] r0)
      = sat_sub (PermanentStorageUsed r0) (u32_to_u64 (ti_size e))" if "ti_meta e = Renew" for b f r0 and e :: info
    using that by (simp add: handle_obsolete_def Let_def renewed_bytes_def is_renew_def
        word_gt_0 sat_sub_def)
  ultimately show ?thesis by (simp add: entry_at_def)
qed

lemma root_force_renew_uncharged_witness:
  "\<exists>s' r'. force_renew demo_cfg demo_host Root (ByContentHash [4, 2]) (demo_state, demo_rn) = Inr (s', r')
     \<and> PermanentStorageUsed r' = 0 \<and> Authorizations s' = Authorizations demo_state"
proof -
  have "resolve_transaction_ref demo_state (ByContentHash [4, 2]) = Inr demo_info"
    by (simp add: resolve_transaction_ref_def transaction_info_def tx_get_def nth_opt_def)
  then obtain s' r' where f: "force_renew demo_cfg demo_host Root (ByContentHash [4, 2]) (demo_state, demo_rn) = Inr (s', r')"
    by (simp add: force_renew_Inr data_size_ok_def demo_info_def)
  with root_force_renew_uncharged [OF f] show ?thesis by simp
qed
section \<open>The books\<close>

text \<open>C3. The books of the renewal pallet balance. Along every chain of transactions in which Root neither
  renews by force nor withdraws a prepaid registration, the counter \<open>PermanentStorageUsed\<close> is, between
  blocks, exactly the bytes of the renewed entries in storage plus the bytes of the prepaid
  registrations: the pallet's try-state check returns \<open>Ok\<close>, in whatever order it visits the maps. A
  content hash is assumed to determine the length of its blob, and the cap to be below \<open>u64::MAX\<close>.\<close>

theorem ledger_exact:
  assumes "wired cfg h" and "books_wired cfg rc h size_of" and "genesis_ok g"
    and "tx_reachable cfg rc h g (False, s, r)"
    and "distinct blocks" "set blocks = dom (Transactions s)"
    and "distinct hashes" "set hashes = dom (Renewals r)"
  shows "renewal_do_try_state rc blocks hashes (s, r) = Inr ()"
proof -
  have inv: "chain_inv cfg rc h (False, s, r)"
    using reachable_inv [OF assms(1,3) tx_reachable_reachable [OF assms(4)]] .
  have "books size_of [] s r"
    using tx_reachable_books [OF assms(1-4)] inv by (simp add: chain_books_def chain_inv_def)
  with inv books_try_state [of cfg h s size_of r rc, OF _ _ _ assms(5-8)] show ?thesis by (simp add: chain_inv_def)
qed

theorem ledger_exact_witness:
  "\<exists>s r. tx_reachable demo_cfg demo_rc demo_host demo_genesis (False, s, r) \<and> PermanentStorageUsed r = 3
    \<and> renewal_do_try_state demo_rc [1] [ti_content_hash demo_entry] (s, r) = Inr ()"
proof -
  obtain s r where sr: "tx_reachable demo_cfg demo_rc demo_host demo_genesis (False, s, r)" "PermanentStorageUsed r = 3"
    "dom (Transactions s) = {1}" "dom (Renewals r) = {ti_content_hash demo_entry}"
    using demo_renewal_run by blast
  have "renewal_do_try_state demo_rc [1] [ti_content_hash demo_entry] (s, r) = Inr ()"
    by (rule ledger_exact [OF demo_wired demo_books_wired demo_genesis_ok sr(1)]) (simp_all add: sr(3,4))
  with sr show ?thesis by blast
qed

end
