(* ===== verification/Weights.thy ===== *)
theory Weights
  imports Runtime
begin

text \<open>
  The budget of a block: the checks \<open>ensure_weight_sanity\<close> of the two pallets
  (\<open>pallets/transaction-storage/src/lib.rs\<close>, \<open>pallets/data-renewal/src/lib.rs\<close>) and the
  benchmarked weights of the two runtimes they are run on (\<open>runtimes/*/src/weights/\<close>). The
  functions panic when a limit does not hold, which is \<open>Inl\<close> here. The block limits themselves are
  built by FRAME from the ratios of the runtime, and are a parameter.
\<close>

section \<open>Weights\<close>

definition w_add :: "Weight \<Rightarrow> Weight \<Rightarrow> Weight" where
  "w_add a b = (sat_add (fst a) (fst b), sat_add (snd a) (snd b))"

definition w_sub :: "Weight \<Rightarrow> Weight \<Rightarrow> Weight" where
  "w_sub a b = (sat_sub (fst a) (fst b), sat_sub (snd a) (snd b))"

definition w_mul :: "Weight \<Rightarrow> u64 \<Rightarrow> Weight" where
  "w_mul a n = (sat_mul (fst a) n, sat_mul (snd a) n)"

definition all_lte :: "Weight \<Rightarrow> Weight \<Rightarrow> bool" where
  "all_lte a b \<longleftrightarrow> fst a \<le> fst b \<and> snd a \<le> snd b"

abbreviation ref_time :: "Weight \<Rightarrow> u64" where "ref_time \<equiv> fst"

abbreviation proof_size :: "Weight \<Rightarrow> u64" where "proof_size \<equiv> snd"

record RuntimeDbWeight =
  db_read :: u64
  db_write :: u64

definition RocksDbWeight :: RuntimeDbWeight where
  "RocksDbWeight = \<lparr>db_read = 25000 * 1000, db_write = 100000 * 1000\<rparr>"

definition ExtrinsicBaseWeight :: Weight where
  "ExtrinsicBaseWeight = (sat_mul 1000 125000, 0)"

definition db_reads :: "u64 \<Rightarrow> Weight" where
  "db_reads n = (sat_mul (db_read RocksDbWeight) n, 0)"

definition db_writes :: "u64 \<Rightarrow> Weight" where
  "db_writes n = (sat_mul (db_write RocksDbWeight) n, 0)"

section \<open>The checks\<close>

record block_limits =
  bl_max_block :: Weight
  bl_normal_max_total :: "Weight option"
  bl_normal_max_extrinsic :: "Weight option"
  bl_normal_base_extrinsic :: Weight
  bl_normal_length :: u32

record weight_info =
  wi_store :: "u32 \<Rightarrow> Weight"
  wi_apply_block_inherents :: Weight
  wi_renew :: Weight

definition checked_mul :: "u64 \<Rightarrow> u64 \<Rightarrow> string + u64" where
  "checked_mul a b = and_then (ensure (unat a * unat b < 2 ^ 64) ''attempt to multiply with overflow'') (\<lambda>_. Inr (a * b))"

definition effective_normal_budget :: "block_limits \<Rightarrow> u64 option \<Rightarrow> string + Weight" where
  "effective_normal_budget bl collator_pov_percent =
     and_then (ok_or (bl_normal_max_total bl) ''Normal class must have a max_total weight'') (\<lambda>normal_max_total.
     and_then (ok_or (bl_normal_max_extrinsic bl) ''Normal class must have a max_extrinsic weight'') (\<lambda>max_extrinsic.
     let init_weight = w_sub (w_sub normal_max_total max_extrinsic) (bl_normal_base_extrinsic bl);
         after_init = w_sub normal_max_total init_weight in
     case collator_pov_percent of
       Some pov_percent \<Rightarrow>
         and_then (checked_mul (proof_size (bl_max_block bl)) pov_percent) (\<lambda>x.
         let pov_limit = x div 100 in
         Inr (ref_time after_init, min (proof_size after_init) pov_limit))
     | None \<Rightarrow> Inr after_init))"

definition ensure_weight_sanity ::
    "rconf \<Rightarrow> weight_info \<Rightarrow> block_limits \<Rightarrow> u64 option \<Rightarrow> Weight \<Rightarrow> string + unit" where
  "ensure_weight_sanity cfg wi bl collator_pov_percent extra_mandatory =
     (let normal_length = bl_normal_length bl;
          max_block_txs = MaxBlockTransactions cfg;
          max_tx_size = MaxTransactionSize cfg;
          base_extrinsic = bl_normal_base_extrinsic bl in
      and_then (ok_or (bl_normal_max_total bl) ''Normal class must have a max_total weight'') (\<lambda>_.
      and_then (ok_or (bl_normal_max_extrinsic bl) ''Normal class must have a max_extrinsic weight'') (\<lambda>max_extrinsic.
      and_then (effective_normal_budget bl collator_pov_percent) (\<lambda>effective_normal.
      and_then (ensure (max_tx_size < normal_length) ''MaxTransactionSize >= normal block length'') (\<lambda>_.
      and_then (ensure (all_lte (wi_store wi max_tx_size) max_extrinsic) ''store weight exceeds max_extrinsic'') (\<lambda>_.
      and_then (ensure (max_block_txs \<noteq> 0) ''attempt to divide by zero'') (\<lambda>_.
      let per_tx_size = normal_length div max_block_txs;
          store_weight = w_add (wi_store wi per_tx_size) base_extrinsic;
          total_store_ref_time = sat_mul (ref_time store_weight) (u32_to_u64 max_block_txs) in
      and_then (ensure (total_store_ref_time \<le> ref_time effective_normal) ''store calls exceed effective normal limit'') (\<lambda>_.
      let apply_inherents_weight = wi_apply_block_inherents wi in
      and_then (ensure (all_lte apply_inherents_weight (bl_max_block bl)) ''apply_block_inherents exceeds max block'') (\<lambda>_.
      let on_init_with_expiry_weight = on_initialize_with_expiry cfg max_block_txs;
          mandatory_floor = w_add (w_add on_init_with_expiry_weight apply_inherents_weight) extra_mandatory in
      and_then (ensure (all_lte mandatory_floor (bl_max_block bl)) ''mandatory floor exceeds max block'') (\<lambda>_.
      and_then (ensure (ref_time store_weight \<noteq> 0) ''attempt to divide by zero'') (\<lambda>_.
      ensure (per_tx_size \<noteq> 0) ''attempt to divide by zero'')))))))))))"

definition renewal_ensure_weight_sanity ::
    "rconf \<Rightarrow> renewal_config \<Rightarrow> weight_info \<Rightarrow> block_limits \<Rightarrow> u64 option \<Rightarrow> string + unit" where
  "renewal_ensure_weight_sanity cfg rc wi bl collator_pov_percent =
     (let base_extrinsic = bl_normal_base_extrinsic bl;
          max_block_txs = MaxBlockTransactions cfg in
      and_then (effective_normal_budget bl collator_pov_percent) (\<lambda>effective_normal.
      let renew_weight = w_add (wi_renew wi) base_extrinsic;
          total_renew_ref_time = sat_mul (ref_time renew_weight) (u32_to_u64 max_block_txs) in
      and_then (ensure (total_renew_ref_time \<le> ref_time effective_normal) ''renew calls exceed effective normal limit'') (\<lambda>_.
      ensure (all_lte (process_pending_renewals_weight rc max_block_txs) (bl_max_block bl))
        ''process_pending_renewals exceeds max block'')))"

section \<open>The benchmarked weights\<close>

definition w_sum :: "Weight list \<Rightarrow> Weight" where
  "w_sum ws = foldl w_add (hd ws) (tl ws)"

definition westend_store :: "u32 \<Rightarrow> Weight" where
  "westend_store l = w_sum [(16566000, 0), (0, 45519), w_mul (6886, 0) (u32_to_u64 l), db_reads 1, db_writes 2]"

definition westend_apply_block_inherents :: Weight where
  "westend_apply_block_inherents = w_sum [(79062000, 0), (0, 47519), db_reads 4, db_writes 1]"

definition westend_on_initialize_with_expiry :: "u32 \<Rightarrow> Weight" where
  "westend_on_initialize_with_expiry n = w_sum [(6380000, 0), (0, 79311), w_mul (10970164, 0) (u32_to_u64 n),
     db_reads 4, db_reads (sat_mul 2 (u32_to_u64 n)), db_writes 3, db_writes (sat_mul 1 (u32_to_u64 n)),
     w_mul (0, 2557) (u32_to_u64 n)]"

definition westend_renew :: Weight where
  "westend_renew = w_sum [(32681000, 0), (0, 47519), db_reads 3, db_writes 1]"

definition westend_force_renew :: Weight where
  "westend_force_renew = w_sum [(33795000, 0), (0, 47519), db_reads 3, db_writes 2]"

definition westend_enable_auto_renew :: Weight where
  "westend_enable_auto_renew = w_sum [(33148000, 0), (0, 47519), db_reads 3, db_writes 1]"

definition westend_process_pending_renewals :: "u32 \<Rightarrow> Weight" where
  "westend_process_pending_renewals n = w_sum [(4138000, 0), (0, 79311), w_mul (14386961, 0) (u32_to_u64 n),
     db_reads 3, db_reads (sat_mul 1 (u32_to_u64 n)), db_writes 3, db_writes (sat_mul 2 (u32_to_u64 n)),
     w_mul (0, 2560) (u32_to_u64 n)]"

definition paseo_store :: "u32 \<Rightarrow> Weight" where
  "paseo_store l = w_sum [(16642000, 0), (0, 45519), w_mul (6842, 0) (u32_to_u64 l), db_reads 1, db_writes 2]"

definition paseo_apply_block_inherents :: Weight where
  "paseo_apply_block_inherents = w_sum [(76084000, 0), (0, 47519), db_reads 4, db_writes 1]"

definition paseo_on_initialize_with_expiry :: "u32 \<Rightarrow> Weight" where
  "paseo_on_initialize_with_expiry n = w_sum [(6299000, 0), (0, 79311), w_mul (11335739, 0) (u32_to_u64 n),
     db_reads 5, db_reads (sat_mul 2 (u32_to_u64 n)), db_writes 3, db_writes (sat_mul 1 (u32_to_u64 n)),
     w_mul (0, 2557) (u32_to_u64 n)]"

definition paseo_renew :: Weight where
  "paseo_renew = w_sum [(33879000, 0), (0, 47519), db_reads 3, db_writes 1]"

definition paseo_force_renew :: Weight where
  "paseo_force_renew = w_sum [(33581000, 0), (0, 47519), db_reads 3, db_writes 2]"

definition paseo_enable_auto_renew :: Weight where
  "paseo_enable_auto_renew = w_sum [(33630000, 0), (0, 47519), db_reads 3, db_writes 1]"

definition paseo_process_pending_renewals :: "u32 \<Rightarrow> Weight" where
  "paseo_process_pending_renewals n = w_sum [(4153000, 0), (0, 79311), w_mul (15829093, 0) (u32_to_u64 n),
     db_reads 4, db_reads (sat_mul 1 (u32_to_u64 n)), db_writes 3, db_writes (sat_mul 2 (u32_to_u64 n)),
     w_mul (0, 2560) (u32_to_u64 n)]"

section \<open>Monotonicity\<close>

named_theorems weight_mono

lemma all_lte_refl [simp, weight_mono]: "all_lte a a"
  by (simp add: all_lte_def)

lemma all_lte_trans: "all_lte a b \<Longrightarrow> all_lte b c \<Longrightarrow> all_lte a c"
  by (auto simp: all_lte_def)

lemma sat_mul_mono: "b \<le> c \<Longrightarrow> sat_mul a b \<le> sat_mul a (c :: 'a::len word)"
  by (simp add: word_nat mult_le_mono min.coboundedI1)

lemma w_add_mono [weight_mono]: "all_lte a a' \<Longrightarrow> all_lte b b' \<Longrightarrow> all_lte (w_add a b) (w_add a' b')"
  by (auto simp: all_lte_def w_add_def word_nat)

lemma u32_to_u64_le [simp]: "(u32_to_u64 m \<le> u32_to_u64 n) = (m \<le> n)"
  by (simp add: word_le_nat_alt)

lemma w_mul_mono [weight_mono]: "m \<le> n \<Longrightarrow> all_lte (w_mul a (u32_to_u64 m)) (w_mul a (u32_to_u64 n))"
  by (auto simp: all_lte_def w_mul_def intro!: sat_mul_mono)

lemma db_mono [weight_mono]:
  "m \<le> n \<Longrightarrow> all_lte (db_reads (sat_mul k (u32_to_u64 m))) (db_reads (sat_mul k (u32_to_u64 n)))"
  "m \<le> n \<Longrightarrow> all_lte (db_writes (sat_mul k (u32_to_u64 m))) (db_writes (sat_mul k (u32_to_u64 n)))"
  by (auto simp: all_lte_def db_reads_def db_writes_def intro!: sat_mul_mono)

lemma runtime_weights_mono:
  assumes "m \<le> n"
  shows "all_lte (westend_store m) (westend_store n)" "all_lte (paseo_store m) (paseo_store n)"
    "all_lte (westend_on_initialize_with_expiry m) (westend_on_initialize_with_expiry n)"
    "all_lte (paseo_on_initialize_with_expiry m) (paseo_on_initialize_with_expiry n)"
    "all_lte (westend_process_pending_renewals m) (westend_process_pending_renewals n)"
    "all_lte (paseo_process_pending_renewals m) (paseo_process_pending_renewals n)"
  unfolding westend_store_def paseo_store_def westend_on_initialize_with_expiry_def paseo_on_initialize_with_expiry_def
    westend_process_pending_renewals_def paseo_process_pending_renewals_def w_sum_def list.sel foldl_Cons foldl_Nil
  using assms by (intro weight_mono; simp)+

section \<open>What a passed check gives\<close>

lemma sat_add_le_iff: "c \<noteq> - 1 \<Longrightarrow> (sat_add a b \<le> (c :: u64)) = (unat a + unat b \<le> unat c)"
  using unat_le_max [of c] by (auto simp: word_nat word_eq_unat unat_minus_one_eq)

lemma sat_add3_le_iff:
  assumes "c \<noteq> - 1"
  shows "(sat_add (sat_add a b) d \<le> (c :: u64)) = (unat a + unat b + unat d \<le> unat c)"
proof -
  have "unat c < 2 ^ 64 - 1" using assms unat_le_max [of c] by (auto simp: word_eq_unat unat_minus_one_eq le_less)
  then show ?thesis by (auto simp: word_nat min_def split: if_splits)
qed

lemma sat_mul_le_iff: "c \<noteq> - 1 \<Longrightarrow> (sat_mul a b \<le> (c :: u64)) = (unat a * unat b \<le> unat c)"
  using unat_le_max [of c] by (auto simp: word_nat word_eq_unat unat_minus_one_eq)

lemma ensure_weight_sanity_Inr:
  assumes "ensure_weight_sanity cfg wi bl pov extra = Inr ()"
  obtains max_extrinsic eff where "bl_normal_max_extrinsic bl = Some max_extrinsic"
    "effective_normal_budget bl pov = Inr eff" "all_lte (wi_store wi (MaxTransactionSize cfg)) max_extrinsic"
    "sat_mul (ref_time (w_add (wi_store wi (bl_normal_length bl div MaxBlockTransactions cfg)) (bl_normal_base_extrinsic bl)))
       (u32_to_u64 (MaxBlockTransactions cfg)) \<le> ref_time eff"
    "all_lte (w_add (w_add (on_initialize_with_expiry cfg (MaxBlockTransactions cfg)) (wi_apply_block_inherents wi)) extra)
       (bl_max_block bl)"
  using assms by (auto simp: ensure_weight_sanity_def Let_def res_simps)

lemma renewal_ensure_weight_sanity_Inr:
  "renewal_ensure_weight_sanity cfg rc wi bl pov = Inr () \<Longrightarrow> effective_normal_budget bl pov = Inr eff \<Longrightarrow>
   sat_mul (ref_time (w_add (wi_renew wi) (bl_normal_base_extrinsic bl))) (u32_to_u64 (MaxBlockTransactions cfg)) \<le> ref_time eff"
  by (auto simp: renewal_ensure_weight_sanity_def Let_def res_simps)

lemma sat_price_exact:
  fixes a b eff :: u64
  assumes "sat_mul (sat_add a b) (u32_to_u64 k) \<le> eff" and "eff \<noteq> - 1" and "k \<noteq> 0"
  shows "unat (sat_add a b) = unat a + unat b"
proof -
  have "unat (sat_add a b) * unat k \<le> unat eff" using assms(1,2) by (simp add: sat_mul_le_iff)
  moreover have "0 < unat k" using assms(3) by (simp add: unat_gt_0)
  ultimately have "unat (sat_add a b) \<le> unat eff"
    by (metis le_trans mult.right_neutral mult_le_mono2 Suc_leI One_nat_def)
  then have "unat a + unat b \<le> unat eff" using assms(2) by (simp add: sat_add_le_iff flip: word_le_nat_alt)
  then show ?thesis using unat_le_max [of eff] by (simp add: unat_sat_add)
qed

text \<open>A full block at one price pays for every block of items that cost at most that much.\<close>

lemma sat_block_fits:
  fixes price eff :: u64
  assumes "sat_mul price (u32_to_u64 k) \<le> eff" and "eff \<noteq> - 1"
    and "length xs \<le> unat k" and "\<forall>x\<in>set xs. f x \<le> unat price"
  shows "sum_list (map f xs) \<le> unat eff"
proof -
  have "sum_list (map f xs) \<le> length xs * unat price"
    using sum_list_mono [of xs f "\<lambda>_. unat price"] assms(4) by (simp add: sum_list_triv)
  also have "\<dots> \<le> unat price * unat k" using assms(3) by (simp add: mult.commute)
  also have "\<dots> \<le> unat eff" using assms(1,2) by (simp add: sat_mul_le_iff)
  finally show ?thesis .
qed

text \<open>The comment on the renewal check holds \<open>renew\<close> for the heaviest renewal call. In both runtimes
  \<open>force_renew\<close> weighs more, by about one database write.\<close>

lemma renew_not_heaviest:
  "ref_time westend_renew < ref_time westend_force_renew" "ref_time westend_renew < ref_time westend_enable_auto_renew"
  "ref_time paseo_renew < ref_time paseo_force_renew"
  by (simp_all add: westend_renew_def westend_force_renew_def westend_enable_auto_renew_def paseo_renew_def
      paseo_force_renew_def w_sum_def w_add_def db_reads_def db_writes_def RocksDbWeight_def sat_add_def sat_mul_def
      word_less_nat_alt)

section \<open>The Westend runtime\<close>

definition westend_weight_info :: weight_info where
  "westend_weight_info = \<lparr>wi_store = westend_store, wi_apply_block_inherents = westend_apply_block_inherents,
     wi_renew = westend_renew\<rparr>"

definition paseo_weight_info :: weight_info where
  "paseo_weight_info = \<lparr>wi_store = paseo_store, wi_apply_block_inherents = paseo_apply_block_inherents,
     wi_renew = paseo_renew\<rparr>"

definition westend_params :: runtime_params where
  "westend_params = \<lparr>rp_days = 14400, rp_alice = [1], rp_on_initialize_with_expiry = westend_on_initialize_with_expiry,
     rp_process_pending_renewals = westend_process_pending_renewals\<rparr>"

text \<open>The limits FRAME builds for two seconds and 10 MiB of proof: ninety percent for normal
  extrinsics, five percent reserved for \<open>on_initialize\<close>.\<close>

definition demo_limits :: block_limits where
  "demo_limits = \<lparr>bl_max_block = (2000000000000, 10485760), bl_normal_max_total = Some (1800000000000, 9437184),
     bl_normal_max_extrinsic = Some (1699875000000, 8912896), bl_normal_base_extrinsic = ExtrinsicBaseWeight,
     bl_normal_length = 9437184\<rparr>"

lemmas weight_eval = w_sum_def w_add_def w_sub_def w_mul_def db_reads_def db_writes_def RocksDbWeight_def
  sat_add_def sat_sub_def sat_mul_def u32_to_u64_def all_lte_def checked_mul_def ExtrinsicBaseWeight_def

lemma westend_limits [simp]:
  "MaxBlockTransactions (westend_config westend_params) = 512"
  "MaxTransactionSize (westend_config westend_params) = 2097152"
  "on_initialize_with_expiry (westend_config westend_params) = westend_on_initialize_with_expiry"
  "process_pending_renewals_weight (westend_renewal_config westend_params) = westend_process_pending_renewals"
  by (simp_all add: westend_config_def storage_config_def westend_params_def westend_renewal_config_def
      DEFAULT_MAX_BLOCK_TRANSACTIONS_def DEFAULT_MAX_TRANSACTION_SIZE_def)

lemma westend_budget: "effective_normal_budget demo_limits (Some 85) = Inr (1700000000000, 8912896)"
  by (simp add: effective_normal_budget_def demo_limits_def weight_eval Let_def ensure_def word_le_nat_alt min_def)

lemma westend_sanity:
  "ensure_weight_sanity (westend_config westend_params) westend_weight_info demo_limits (Some 85)
     (westend_process_pending_renewals 512) = Inr ()"
  by (simp add: ensure_weight_sanity_def westend_budget Let_def)
    (simp add: demo_limits_def westend_weight_info_def westend_store_def westend_apply_block_inherents_def
      westend_on_initialize_with_expiry_def westend_process_pending_renewals_def weight_eval ensure_def word_le_nat_alt
      word_less_nat_alt)

lemma westend_renewal_sanity:
  "renewal_ensure_weight_sanity (westend_config westend_params) (westend_renewal_config westend_params) westend_weight_info
     demo_limits (Some 85) = Inr ()"
  by (simp add: renewal_ensure_weight_sanity_def westend_budget Let_def)
    (simp add: demo_limits_def westend_weight_info_def westend_renew_def westend_process_pending_renewals_def weight_eval
      ensure_def word_le_nat_alt word_less_nat_alt)
lemma paseo_sanity:
  fixes allowed :: "u32 list" and cap :: u64
  defines "p \<equiv> westend_params\<lparr>rp_on_initialize_with_expiry := paseo_on_initialize_with_expiry,
    rp_process_pending_renewals := paseo_process_pending_renewals\<rparr>"
  shows "ensure_weight_sanity (paseo_config allowed p) paseo_weight_info demo_limits (Some 85)
      (paseo_process_pending_renewals 512) = Inr ()"
    and "renewal_ensure_weight_sanity (paseo_config allowed p) (paseo_renewal_config cap p) paseo_weight_info
      demo_limits (Some 85) = Inr ()"
  by (simp_all add: p_def ensure_weight_sanity_def renewal_ensure_weight_sanity_def westend_budget Let_def paseo_config_def
      paseo_renewal_config_def storage_config_def DEFAULT_MAX_BLOCK_TRANSACTIONS_def DEFAULT_MAX_TRANSACTION_SIZE_def)
    (simp_all add: demo_limits_def paseo_weight_info_def paseo_store_def paseo_apply_block_inherents_def paseo_renew_def
      paseo_on_initialize_with_expiry_def paseo_process_pending_renewals_def weight_eval ensure_def word_le_nat_alt
      word_less_nat_alt)

end
