(* ===== verification/Runtime_Properties.thy ===== *)
theory Runtime_Properties
  imports Demo Weights
begin

text \<open>
  Properties of what surrounds the two pallets: the transaction extension that walks wrapped
  calls, the XCM call filter, priorities, HOP promotion, migrations and the runtime wiring.
\<close>

section \<open>The extension\<close>

text \<open>C5. A signed transaction that the extension accepts carries no store call and no renewal call
  inside a utility wrapper, at any depth: such calls are only accepted at the top level, where
  their authorization is checked and charged.\<close>

theorem no_nested_storage_calls:
  assumes ok: "ext_validate h (runtime_leaves sw rw cfg rc h) (Signed who) call sr = Inr v"
    and inner: "nested call x"
  shows "(\<forall>c. x = RC_TransactionStorage c \<longrightarrow> \<not> is_store_call c) \<and> (\<forall>c. x \<noteq> RC_DataRenewal c)"
proof -
  obtain d u where "0 < d" "validate_leaf (runtime_leaves sw rw cfg rc h) who x d sr = Inr u"
    using runtime_leaves.validated_nested [OF ok inner] by blast
  then show ?thesis
    by (auto simp: runtime_leaves_def LeafTuple_def StorageLeaves_def RenewalLeaves_def split: if_splits)
qed

theorem no_nested_storage_calls_witness:
  "nested (RC_Utility (U_batch [RC_Utility (U_as_derivative (RC_TransactionStorage (Call_store [7])))]))
     (RC_TransactionStorage (Call_store [7])) \<and>
   (\<nexists>v. ext_validate demo_host (runtime_leaves (\<lambda>_. (0, 0)) (0, 0) demo_cfg demo_rc demo_host) (Signed [1])
      (RC_Utility (U_batch [RC_Utility (U_as_derivative (RC_TransactionStorage (Call_store [7])))]))
      (demo_state, demo_rn) = Inr v)
   \<and> (\<exists>v. ext_validate demo_host (runtime_leaves (\<lambda>_. (0, 0)) (0, 0) demo_cfg demo_rc demo_host) (Signed [1])
      (RC_Utility (U_batch [RC_Other 0])) (demo_state, demo_rn) = Inr v)"
proof -
  let ?x = "RC_TransactionStorage (Call_store [7])"
  let ?d = "RC_Utility (U_as_derivative ?x)"
  have "nested ?d ?x" by (rule nested.inner [of _ "[?x]"]) (simp_all add: inspect_utility_wrapper_def)
  then have n: "nested (RC_Utility (U_batch [?d])) ?x"
    by (rule nested.deeper [of _ "[?d]" ?d, rotated 2]) (simp_all add: inspect_utility_wrapper_def)
  from no_nested_storage_calls [OF _ n] n show ?thesis
    by (auto simp: ext_validate_def walk.simps validate_visitor_def runtime_leaves_def LeafTuple_def
        StorageLeaves_def RenewalLeaves_def MAX_WRAPPER_DEPTH_def inspect_utility_wrapper_def)
qed

lemma not_full_room:
  assumes "\<not> block_transactions_full cfg s" and "length (BlockTransactions s) \<le> unat (MaxBlockTransactions cfg)"
  shows "length (BlockTransactions s) < unat (MaxBlockTransactions cfg)"
proof -
  have "unat (of_nat (length (BlockTransactions s)) :: u32) = length (BlockTransactions s)"
    using assms(2) unat_u32_less [of "MaxBlockTransactions cfg"] by (intro unat_of_nat_u32) simp
  with assms(1) show ?thesis
    by (simp add: block_transactions_full_def block_transactions_count_def word_le_nat_alt)
qed

text \<open>The extension on a single call that a leaf claims.\<close>

lemma ext_leaf:
  assumes "validate_leaf l who call 0 s = Inr (Some (v, scope))"
  shows "ext_validate h l (Signed who) call s =
      Inr (combine_with h (vt_default h) v, Some who,
           case scope of Some sc \<Rightarrow> StorageAuthorized who sc | None \<Rightarrow> Signed who)"
  using assms by (cases scope) (simp_all add: ext_validate_def walk.simps validate_visitor_def)

lemma ext_prepare_leaf:
  assumes "prepare_leaf l who call 0 s = Inr (True, s')"
  shows "ext_prepare l (Some who) call s = Inr s'"
  using assms by (simp add: ext_prepare_def walk.simps)

text \<open>C13. The life of a signed store, end to end: if the extension validates it, then on the same
  state its preparation succeeds and charges the authorization, and dispatching the call with the
  origin the extension handed over stores the data as the last entry of the block, charged to
  the preimage authorization of the content or to the signer's account.\<close>

theorem validated_store_is_stored:
  assumes specs: "multihash_wrap_spec h" "hash_len_spec h"
    and small: "length data < 2 ^ 32" and bounded: "length (BlockTransactions s) \<le> unat (MaxBlockTransactions cfg)"
    and ext: "extrinsic_index s = Some ext"
    and ok: "ext_validate h (runtime_leaves sw rw cfg rc h) (Signed who)
      (RC_TransactionStorage (Call_store data)) (s, r) = Inr (v, val, orig)"
  shows "\<exists>scope s1 s2 e. orig = StorageAuthorized who scope
    \<and> scope \<in> {Preimage (blake2_256 h data), Account who}
    \<and> ext_prepare (runtime_leaves sw rw cfg rc h) val (RC_TransactionStorage (Call_store data)) (s, r) = Inr (s1, r)
    \<and> dispatch cfg h orig (Call_store data) s1 = Inr s2
    \<and> Authorizations s2 scope = map_option (consume_extent (of_nat (length data))) (Authorizations s scope)
    \<and> BlockTransactions s2 = BlockTransactions s @ [e] \<and> ti_content_hash e = blake2_256 h data
    \<and> unat (ti_size e) = length data"
proof -
  let ?call = "RC_TransactionStorage (Call_store data)"
  let ?l = "runtime_leaves sw rw cfg rc h"
  let ?scope = "store_scope who (blake2_256 h data) s"
  obtain v' sc where leaf: "validate_signed cfg h who (Call_store data) s = Inr (v', sc)"
    using ok by (cases "validate_signed cfg h who (Call_store data) s")
      (auto simp: ext_validate_def walk.simps validate_visitor_def runtime_leaves_def LeafTuple_def StorageLeaves_def)
  then obtain a where okd: "data_size_ok cfg (length data)" "\<not> block_transactions_full cfg s"
    and act: "get_active_authorization ?scope s = Some a" and sc: "sc = Some ?scope"
    by (auto simp: validate_signed_def check_signed_store_eq res_simps split: if_splits option.splits)
  have "validate_leaf ?l who ?call 0 (s, r) = Inr (Some (v', sc))"
    using leaf by (simp add: runtime_leaves_def LeafTuple_def StorageLeaves_def)
  from ext_leaf [OF this, of h] ok sc have orig: "orig = StorageAuthorized who ?scope" "val = Some who" by auto
  let ?s1 = "s\<lparr>Authorizations := (Authorizations s)(?scope \<mapsto> consume_extent (of_nat (length data)) a)\<rparr>"
  have "prepare_leaf ?l who ?call 0 (s, r) = Inr (True, ?s1, r)"
    using okd act by (simp add: runtime_leaves_def LeafTuple_def StorageLeaves_def pre_dispatch_signed_def
        check_signed_store_eq)
  then have prep: "ext_prepare ?l val ?call (s, r) = Inr (?s1, r)" unfolding orig(2) by (rule ext_prepare_leaf)
  have len: "unat (of_nat (length data) :: u32) = length data" using small by (intro unat_of_nat_u32) simp
  have "length (BlockTransactions s) < unat (MaxBlockTransactions cfg)" using okd(2) bounded by (rule not_full_room)
  then obtain s2 where s2: "do_store cfg h data Blake2b256 RAW_CODEC ?s1 = Inr s2"
    using do_store_Inl [OF specs, of cfg data Blake2b256 RAW_CODEC ?s1] ext okd(1) len
    by (cases "do_store cfg h data Blake2b256 RAW_CODEC ?s1") auto
  moreover have "?scope \<in> {Preimage (blake2_256 h data), Account who}" by (simp add: store_scope_def split: option.split)
  moreover have "Authorizations s ?scope = Some a"
    using act by (auto simp: get_active_authorization_def split: option.splits if_splits)
  ultimately show ?thesis
    using orig prep do_store_Inr [OF s2] len by (auto simp: store_def entry_at_def)
qed

theorem validated_store_is_stored_witness:
  "\<exists>v val orig s1 s2. ext_validate demo_host (runtime_leaves (\<lambda>_. (0, 0)) (0, 0) demo_cfg demo_rc demo_host) (Signed [1])
      (RC_TransactionStorage (Call_store [7, 8, 9])) (demo_state, demo_rn) = Inr (v, val, orig)
    \<and> ext_prepare (runtime_leaves (\<lambda>_. (0, 0)) (0, 0) demo_cfg demo_rc demo_host) val
        (RC_TransactionStorage (Call_store [7, 8, 9])) (demo_state, demo_rn) = Inr (s1, demo_rn)
    \<and> dispatch demo_cfg demo_host orig (Call_store [7, 8, 9]) s1 = Inr s2 \<and> length (BlockTransactions s2) = 1"
proof -
  let ?l = "runtime_leaves (\<lambda>_. (0, 0)) (0, 0) demo_cfg demo_rc demo_host"
  let ?call = "RC_TransactionStorage (Call_store [7, 8, 9])"
  have "get_active_authorization (Account [1]) demo_state = Some demo_grant"
    by (simp add: get_active_authorization_def demo_grant_def expired_def now_def word_le_nat_alt)
  then have "\<exists>r. validate_leaf ?l [1] ?call 0 (demo_state, demo_rn) = Inr (Some r)"
    by (simp add: runtime_leaves_def LeafTuple_def StorageLeaves_def validate_signed_def check_signed_store_eq
        data_size_ok_def block_transactions_full_def block_transactions_count_def store_scope_def
        get_active_authorization_def word_le_nat_alt)
  then obtain v val orig where ok: "ext_validate demo_host ?l (Signed [1]) ?call (demo_state, demo_rn) = Inr (v, val, orig)"
    using ext_leaf by (metis surj_pair)
  show ?thesis
    using validated_store_is_stored [OF demo_multihash_wrap demo_hash_len _ _ _ ok] ok
    by (auto simp del: dispatch.simps)
qed

section \<open>The XCM call filter\<close>

text \<open>A call that the XCM \<open>SafeCallFilter\<close> lets through is no store call, and has none inside a
  utility wrapper at any depth.\<close>

lemma call_filter_sound:
  assumes "SafeCallFilter call" and "x = call \<or> nested call x"
  shows "\<forall>c. x = RC_TransactionStorage c \<longrightarrow> \<not> is_store_call c"
proof (intro allI impI)
  fix c assume x: "x = RC_TransactionStorage c"
  have filt: "\<not> is_storage_mutating_call call 0" using assms(1) by (simp add: SafeCallFilter_def inspector_contains_def)
  show "\<not> is_store_call c"
  proof (cases "is_sub_type call")
    case None
    then have "nested call x" using assms(2) x by auto
    from not_mutating_nested [OF this filt None, of c] x show ?thesis by simp
  next
    case (Some k)
    then have "\<not> nested call x" by (cases call) (auto elim: nestedE)
    with assms(2) x have "call = RC_TransactionStorage c" by simp
    with filt show ?thesis by (simp add: is_storage_mutating_call.simps)
  qed
qed

lemma call_filter_sound_witness:
  "nested (RC_Utility (U_batch [RC_TransactionStorage (Call_store [7])])) (RC_TransactionStorage (Call_store [7])) \<and>
   \<not> SafeCallFilter (RC_Utility (U_batch [RC_TransactionStorage (Call_store [7])])) \<and>
   SafeCallFilter (RC_Utility (U_batch [RC_Other 0]))"
proof -
  have n: "nested (RC_Utility (U_batch [RC_TransactionStorage (Call_store [7])])) (RC_TransactionStorage (Call_store [7]))"
    by (rule nested.inner [of _ "[RC_TransactionStorage (Call_store [7])]"])
      (simp_all add: inspect_utility_wrapper_def)
  then have "\<not> SafeCallFilter (RC_Utility (U_batch [RC_TransactionStorage (Call_store [7])]))"
    using call_filter_sound [OF _ disjI2 [OF n]] by auto
  then show ?thesis
    using n by (simp add: SafeCallFilter_def inspector_contains_def is_storage_mutating_call.simps MAX_WRAPPER_DEPTH_def
        inspect_utility_wrapper_def)
qed

text \<open>The XCM \<open>SafeCallFilter\<close> does not stop renewal calls: every call of the renewal pallet
  passes it, plain or batched, although the comments on the filter list \<open>renew\<close> among the
  calls it blocks.\<close>

lemma call_filter_passes_renewals:
  "SafeCallFilter (RC_DataRenewal c) \<and> SafeCallFilter (RC_Utility (U_batch [RC_DataRenewal c]))"
  by (simp add: SafeCallFilter_def inspector_contains_def is_storage_mutating_call.simps MAX_WRAPPER_DEPTH_def
      inspect_utility_wrapper_def)

section \<open>Priorities\<close>

text \<open>With either boost strategy the boost never saturates the priority of a store, a store
  never outranks a cleanup transaction, and under the flat strategy every store within its
  allowance outranks every store beyond it.\<close>

lemma store_priorities:
  "unat (sat_add STORE_PRIORITY (FlatBoost e)) = unat STORE_PRIORITY + unat (FlatBoost e)
   \<and> unat (sat_add STORE_PRIORITY (ProportionalBoost e)) = unat STORE_PRIORITY + unat (ProportionalBoost e)
   \<and> sat_add STORE_PRIORITY (FlatBoost e) < CLEANUP_PRIORITY
   \<and> sat_add STORE_PRIORITY (ProportionalBoost e) < CLEANUP_PRIORITY
   \<and> (in_budget e \<and> \<not> in_budget e' \<longrightarrow> sat_add STORE_PRIORITY (FlatBoost e') < sat_add STORE_PRIORITY (FlatBoost e))"
proof -
  have room: "unat STORE_PRIORITY + unat ALLOWANCE_PRIORITY_BOOST < 2 ^ 64"
    by (simp add: STORE_PRIORITY_eq ALLOWANCE_PRIORITY_BOOST_def)
  note sums = flat.no_saturation [OF room, of e] proportional.no_saturation [OF room, of e]
  have "unat (FlatBoost e) \<le> 1000000000" "unat (ProportionalBoost e) \<le> 1000000000"
    using flat.bounded [of e] proportional.bounded [of e] by (simp_all add: word_nat ALLOWANCE_PRIORITY_BOOST_def)
  then have "sat_add STORE_PRIORITY (FlatBoost e) < CLEANUP_PRIORITY"
    "sat_add STORE_PRIORITY (ProportionalBoost e) < CLEANUP_PRIORITY"
    using sums by (simp_all add: word_less_nat_alt CLEANUP_PRIORITY_def unat_minus_one_eq STORE_PRIORITY_eq)
  moreover have "sat_add STORE_PRIORITY (FlatBoost e') < sat_add STORE_PRIORITY (FlatBoost e)"
    if "in_budget e" "\<not> in_budget e'"
    using that sums(1) flat.no_saturation [OF room, of e']
    by (simp add: word_less_nat_alt FlatBoost_def ALLOWANCE_PRIORITY_BOOST_def)
  ultimately show ?thesis using sums by blast
qed

lemma store_priorities_witness:
  "in_budget demo_extent \<and> sat_add STORE_PRIORITY (FlatBoost (demo_extent\<lparr>ae_bytes := 101\<rparr>))
     < sat_add STORE_PRIORITY (FlatBoost demo_extent)"
proof -
  have "in_budget demo_extent \<and> \<not> in_budget (demo_extent\<lparr>ae_bytes := 101\<rparr>)"
    by (simp add: in_budget_def demo_extent_def word_le_nat_alt)
  with store_priorities [of demo_extent "demo_extent\<lparr>ae_bytes := 101\<rparr>"] show ?thesis by blast
qed

section \<open>HOP promotion\<close>

text \<open>A HOP promotion (second version) is accepted exactly when it does not come from the
  network, its size and the block's room allow it, its timestamp is within the tolerance, it
  names recipients, the signer has a live account authorization, and the signature covers the data,
  the timestamp, this chain's genesis hash and the recipients; it is then not propagated.\<close>

lemma promotion_accepted:
  "authorize_promote_v2 cfg hc h now_ms source signer signature t rh data s = Inr (v, w) \<longleftrightarrow>
     source \<noteq> External \<and> data_size_ok cfg (length data) \<and> \<not> block_transactions_full cfg s
     \<and> (if unat now_ms < unat t then unat t - unat now_ms else unat now_ms - unat t) \<le> unat (SubmitTimestampTolerance hc)
     \<and> rh \<noteq> EMPTY_RECIPIENTS_HASH
     \<and> get_active_authorization (Account (into_account hc signer)) s \<noteq> None
     \<and> sig_verify hc signature
         (blake2_256 h (HOP_SUBMIT_CONTEXT_V2 @ blake2_256 h data @ to_le_bytes t @ genesis_block_hash hc @ rh))
         (into_account hc signer)
     \<and> v = (provides h (PromoteTxParams hc) (blake2_256 h data))\<lparr>vt_propagate := False\<rparr> \<and> w = (0, 0)"
  by (auto simp: authorize_promote_v2_Inr active_account_iff word_le_nat_alt unat_abs_diff promoted_validity_def
      signing_payload_v2_def payload_bytes_v2_def)



text \<open>C22. An accepted promotion is stored: dispatched on the same state with the origin of an
  authorized general transaction, it appends the data and makes the content known on chain,
  without charging any authorization.\<close>

theorem promotion_stored:
  assumes specs: "multihash_wrap_spec h" "hash_len_spec h"
    and small: "length data < 2 ^ 32" and bounded: "length (BlockTransactions s) \<le> unat (MaxBlockTransactions cfg)"
    and ext: "extrinsic_index s = Some ext"
    and ok: "authorize_promote_v2 cfg hc h now_ms source signer signature t rh data s = Inr v"
  shows "\<exists>s'. promote_v2 cfg h GeneralAuthorized signer signature t rh data s = Inr s'
    \<and> is_promoted_on_chain (blake2_256 h data) s' \<and> Authorizations s' = Authorizations s
    \<and> length (BlockTransactions s') = Suc (length (BlockTransactions s))"
proof -
  have okd: "data_size_ok cfg (length data)" "\<not> block_transactions_full cfg s"
    using ok by (auto simp: authorize_promote_v2_Inr)
  have "unat (of_nat (length data) :: u32) = length data" using small by (intro unat_of_nat_u32) simp
  with not_full_room [OF okd(2) bounded] obtain s' where s': "do_store cfg h data Blake2b256 RAW_CODEC s = Inr s'"
    using do_store_Inl [OF specs, of cfg data Blake2b256 RAW_CODEC s] ext okd(1)
    by (cases "do_store cfg h data Blake2b256 RAW_CODEC s") auto
  with do_store_Inr [OF s'] show ?thesis
    by (auto simp: promote_v2_def ensure_general_authorized_def is_promoted_on_chain_def contains_transaction_def)
qed

theorem promotion_stored_witness:
  "\<exists>v s'. authorize_promote_v2 demo_cfg demo_hop demo_host 1000 Local [1] [1] 1000 [3] [7, 8, 9] demo_state = Inr v
     \<and> promote_v2 demo_cfg demo_host GeneralAuthorized [1] [1] 1000 [3] [7, 8, 9] demo_state = Inr s'
     \<and> is_promoted_on_chain (blake2_256 demo_host [7, 8, 9]) s'"
proof -
  obtain v where v: "authorize_promote_v2 demo_cfg demo_hop demo_host 1000 Local [1] [1] 1000 [3] [7, 8, 9] demo_state = Inr v"
    by (simp add: authorize_promote_v2_Inr data_size_ok_def block_transactions_full_def block_transactions_count_def
        demo_hop_def runtime_hop_config_def abs_diff_def EMPTY_RECIPIENTS_HASH_def active_account_iff
        get_active_authorization_def demo_grant_def expired_def now_def word_le_nat_alt)
  have "\<exists>s'. promote_v2 demo_cfg demo_host GeneralAuthorized [1] [1] 1000 [3] [7, 8, 9] demo_state = Inr s'
     \<and> is_promoted_on_chain (blake2_256 demo_host [7, 8, 9]) s'"
    using promotion_stored [OF demo_multihash_wrap demo_hash_len _ _ _ v] by (auto simp del: demo_host_simps)
  with v show ?thesis by blast
qed

section \<open>Migrations\<close>

text \<open>C18. The stepped migration from v2 to v3 preserves what readers see. Given weight for every
  stored block, it runs to completion, raises the version to at least 3 and leaves every block in the current
  layout: a block within the retention period reads, through the storage map, as the old reader
  with the v2 fallback read it before, and an older one is gone.\<close>

theorem v2_to_v3_preserves:
  assumes order: "distinct order" "\<forall>b. Transactions s b \<noteq> None \<longrightarrow> b \<in> set order" and budget: "length order < budget"
    and ok: "migratable cfg s"
  shows "\<exists>s'. v2_to_v3_step cfg order budget None s = Inr (None, s') \<and> 3 \<le> on_chain_storage_version s'
    \<and> (\<forall>b. tx_get s' b = (if b < sat_sub (block_number s) (RetentionPeriod s) then None else transactions_at cfg s b))"
proof -
  obtain s' where s': "step_loop cfg order (sat_sub (now s) (RetentionPeriod s)) budget None s = Inr (None, s')"
    "Transactions s' = (\<lambda>b. if b \<in> set (keys_after order None)
        then migrated cfg (sat_sub (now s) (RetentionPeriod s)) (Transactions s) b else Transactions s b)"
    "3 \<le> on_chain_storage_version s'"
    using step_loop_complete [of order cfg s None budget "sat_sub (now s) (RetentionPeriod s)"] order(1) ok budget
    by (auto simp: keys_after_def)
  have "tx_get s' b = (if b < sat_sub (now s) (RetentionPeriod s) then None else transactions_at cfg s b)" for b
  proof (cases "Transactions s b")
    case None
    then show ?thesis
      by (simp add: tx_get_def s'(2) transactions_at_def migrated_def)
  next
    case (Some v)
    then have "b \<in> set order" using order(2) by auto
    then show ?thesis
      using ok Some by (cases v) (auto simp: tx_get_def s'(2) transactions_at_def migrated_def migratable_def keys_after_def)
  qed
  then show ?thesis using s' budget by (auto simp: v2_to_v3_step_def now_def)
qed

theorem v2_to_v3_preserves_witness:
  "\<exists>s'. v2_to_v3_step demo_cfg [3, 4] 3 None (demo_state\<lparr>Transactions := [3 \<mapsto> LayoutV2 []], on_chain_storage_version := 2\<rparr>) = Inr (None, s')
     \<and> tx_get s' 3 = Some []"
proof -
  let ?s = "demo_state\<lparr>Transactions := [3 \<mapsto> LayoutV2 []], on_chain_storage_version := 2\<rparr>"
  have "\<exists>s'. v2_to_v3_step demo_cfg [3, 4] 3 None ?s = Inr (None, s') \<and> 3 \<le> on_chain_storage_version s'
    \<and> (\<forall>b. tx_get s' b = (if b < sat_sub (block_number ?s) (RetentionPeriod ?s) then None else transactions_at demo_cfg ?s b))"
    by (rule v2_to_v3_preserves) (auto simp: migratable_def split: if_splits)
  then show ?thesis
    by (auto simp: transactions_at_def sat_sub_def word_less_nat_alt word_le_nat_alt)
qed

text \<open>The v0-to-v1 migration is not safe on an entry that is already in the v1 layout: the old
  decoder accepts its bytes, reads the hashing byte and the start of the codec as the size, and the
  migrated entry of a raw Blake2b blob records 21760 bytes, whatever its size was.\<close>

lemma v0_to_v1_garbles_v1:
  assumes "length (v2_chunk_root e) = 32" and "length (v2_content_hash e) = 32"
    and "v2_hashing e = Blake2b256" and "v2_cid_codec e = RAW_CODEC"
  shows "\<exists>e'. migrate_v0_value (LayoutV2 [e]) = Some (LayoutV2 [e']) \<and> v2_size e' = 21760 \<and> v2_block_chunks e' = 0"
proof -
  have bytes: "le_bytes 8 (RAW_CODEC :: u64) = [0x55, 0, 0, 0, 0, 0, 0, 0]" "le_bytes 3 (RAW_CODEC :: u64) = [0x55, 0, 0]"
    by (simp_all add: le_bytes_def RAW_CODEC_def upt_rec drop_bit_word_numeral)
  show ?thesis
    using decode_v0_of_v1 [OF assms(1,2), of "[]"] assms(3,4)
    by (auto simp: migrate_v0_value_def decode_as_v0_def v1_of_v0_def bytes)
qed

lemma v0_to_v1_garbles_v1_witness:
  "\<exists>e'. migrate_v0_value (LayoutV2 [\<lparr>v2_chunk_root = replicate 32 1, v2_content_hash = replicate 32 2,
      v2_hashing = Blake2b256, v2_cid_codec = RAW_CODEC, v2_size = 3, v2_block_chunks = 2\<rparr>]) = Some (LayoutV2 [e'])
    \<and> v2_size e' = 21760"
  using v0_to_v1_garbles_v1 [of "\<lparr>v2_chunk_root = replicate 32 1, v2_content_hash = replicate 32 2,
      v2_hashing = Blake2b256, v2_cid_codec = RAW_CODEC, v2_size = 3, v2_block_chunks = 2\<rparr>"]
  by auto

text \<open>One upgrade does not bring a Westend chain at storage version 1 to the current version: the
  single-block migrations stop at 2, because the ones from 3 on find the chain at 2, the stepped
  migration then sets 3, and the budgets of the authorizers keep their old layout until the same
  migrations run again in a second upgrade, which ends at 5.\<close>

lemma westend_needs_two_upgrades:
  assumes "on_chain_storage_version s = 1"
  shows "on_chain_storage_version (westend_single_block_migrations cfg oa ob old s) = 2
    \<and> AllowedAuthorizers (westend_single_block_migrations cfg oa ob old s) = AllowedAuthorizers s
    \<and> (\<forall>s3. on_chain_storage_version s3 = 3 \<longrightarrow>
        on_chain_storage_version (westend_single_block_migrations cfg oa ob old s3) = 5)"
  using assms
  by (auto simp: westend_single_block_migrations_def versioned_def set_retention_period_if_zero_def
      v1_to_v2_on_runtime_upgrade_def v3_to_v4_on_runtime_upgrade_def)

section \<open>Wiring\<close>

text \<open>Who may grant authorizations. On Paseo: Root, the sibling parachains on the list, and a
  signed account with an unexpired entry among the allowed authorizers; on Westend: Root, every
  sibling parachain, the two development accounts, and such a signed account. Only the last kind
  carries a budget and a deadline, and on Westend a development account never does.\<close>

lemma authorizer_origins:
  "(paseo_authorizer ids s orig = Inr auth \<longleftrightarrow>
      auth = None \<and> (orig = Root \<or> (\<exists>i \<in> set ids. orig = XcmOrigin (1, [Parachain i])))
      \<or> (\<exists>w b. orig = Signed w \<and> AllowedAuthorizers s w = Some b \<and> \<not> is_expired b (block_number s)
          \<and> auth = Some \<lparr>ao_authorizer = w, ao_valid_until = ab_valid_until b, ao_feeless = ab_feeless b\<rparr>))
   \<and> (westend_authorizer alice s orig = Inr auth \<longleftrightarrow>
      auth = None \<and> (orig = Root \<or> (\<exists>i. orig = XcmOrigin (1, [Parachain i])) \<or> orig = Signed alice \<or> orig = Signed EXTRA_AUTHORIZER)
      \<or> (\<exists>w b. orig = Signed w \<and> w \<noteq> alice \<and> w \<noteq> EXTRA_AUTHORIZER
          \<and> AllowedAuthorizers s w = Some b \<and> \<not> is_expired b (block_number s)
          \<and> auth = Some \<lparr>ao_authorizer = w, ao_valid_until = ab_valid_until b, ao_feeless = ab_feeless b\<rparr>))"
  by (cases orig) (auto simp: paseo_authorizer_def westend_authorizer_def EitherOf_def authorizer_parts
      sibling_locations TestAccounts_iff ensure_allowed_authorizers_def now_def split: option.splits)

text \<open>The constants of both runtimes pass the integrity tests of the three pallets, the seven pool
  families have seven different tag prefixes, promotions rank below stores, and with the host's
  chunk size of 256 bytes a full block of blobs of maximal size has fewer than \<open>2 ^ 32\<close> chunks,
  so that the chunk counts are exact.\<close>

lemma runtime_constants:
  assumes "14 * rp_days rp \<noteq> 0"
  shows "integrity_test (westend_config rp) \<and> renewal_integrity_test (westend_config rp) (westend_renewal_config rp)
    \<and> hop_integrity_test (westend_config rp) (runtime_hop_config into verify gen)
    \<and> integrity_test (paseo_config ids rp) \<and> renewal_integrity_test (paseo_config ids rp) (paseo_renewal_config cap rp)
    \<and> hop_integrity_test (paseo_config ids rp) (runtime_hop_config into verify gen)
    \<and> assert_pool_families_distinct (paseo_config ids rp)
        [(''RenewTxParams'', RenewTxParams (paseo_renewal_config cap rp)),
         (''PromoteTxParams'', PromoteTxParams (runtime_hop_config into verify gen))]
    \<and> (CHUNK_SIZE h = 256 \<longrightarrow> chunks_fit (paseo_config ids rp) h \<and> chunks_fit (westend_config rp) h)"
proof -
  note fams = integrity_test_def renewal_integrity_test_def hop_integrity_test_def
    assert_pool_families_distinct_def assert_distinct_iff pool_families_def westend_config_def paseo_config_def
    westend_renewal_config_def paseo_renewal_config_def runtime_hop_config_def
  have fam: "StoreTxParams (storage_config d w a) = tx_params ''TransactionStorageStore'' STORE_PRIORITY d"
    "AuthorizeTxParams (storage_config d w a) = tx_params ''TransactionStorageAuthorize'' STORE_PRIORITY d"
    "RemoveExpiredAccountAuthorizationTxParams (storage_config d w a) =
       tx_params ''TransactionStorageRemoveExpiredAccountAuthorization'' CLEANUP_PRIORITY d"
    "RemoveExpiredPreimageAuthorizationTxParams (storage_config d w a) =
       tx_params ''TransactionStorageRemoveExpiredPreimageAuthorization'' CLEANUP_PRIORITY d"
    "RemoveExhaustedAuthorizerTxParams (storage_config d w a) =
       tx_params ''TransactionStorageRemoveExhaustedAuthorizer'' CLEANUP_PRIORITY d" for d w a
    by (simp_all add: storage_config_def)
  have pre: "vp_tag_prefix (tx_params p x d) = p" "vp_priority (tx_params p x d) = x" for p x d
    by (simp_all add: tx_params_def)
  have "0 < STORE_PRIORITY" by (simp add: STORE_PRIORITY_eq word_gt_0)
  then show ?thesis
    using assms by (simp add: fams fam pre GenesisConfig_default_def DAYS_eq chunks_fit_def div_ceil_def)
qed

lemma runtime_constants_witness:
  "integrity_test (westend_config demo_params) \<and> integrity_test (paseo_config AllowedParachainIds demo_params)"
  using runtime_constants [of demo_params] by (simp add: demo_params_def)
section \<open>The budget of a block\<close>



end
