(* ===== verification/Sdk_Types.thy ===== *)
theory Sdk_Types
  imports Cids
begin

text \<open>
  Common types of the Rust client library (\<open>sdk/rust/src/types.rs\<close>, the codec of
  \<open>cid.rs\<close>): errors with their codes, hints and retry classification, chunks, options,
  storage references and progress events. Lengths (\<open>usize\<close>) are natural numbers. The lemmas
  show that the code of an error identifies its variant.
\<close>

section \<open>Errors\<close>

datatype SdkError =
    ChunkTooLarge u64
  | FileTooLarge u64
  | EmptyData
  | InvalidCid string
  | AuthNotFound string
  | InsufficientAuthorization u64 u64
  | AuthorizationExpired u32 u32
  | StorageFailed string
  | DagEncodingFailed string
  | NetworkError string
  | InvalidConfig string
  | ChunkingFailed string
  | RetrievalFailed string
  | RenewalNotFound u32 u32
  | RenewalFailed string
  | CidCalculationFailed string
  | TransactionFailed string
  | InvalidChunkSize string

fun error_code :: "SdkError \<Rightarrow> string" where
  "error_code (ChunkTooLarge _) = ''CHUNK_TOO_LARGE''"
| "error_code (FileTooLarge _) = ''FILE_TOO_LARGE''"
| "error_code EmptyData = ''EMPTY_DATA''"
| "error_code (InvalidCid _) = ''INVALID_CID''"
| "error_code (AuthNotFound _) = ''AUTHORIZATION_NOT_FOUND''"
| "error_code (InsufficientAuthorization _ _) = ''INSUFFICIENT_AUTHORIZATION''"
| "error_code (AuthorizationExpired _ _) = ''AUTHORIZATION_EXPIRED''"
| "error_code (StorageFailed _) = ''STORAGE_FAILED''"
| "error_code (DagEncodingFailed _) = ''DAG_ENCODING_FAILED''"
| "error_code (NetworkError _) = ''NETWORK_ERROR''"
| "error_code (InvalidConfig _) = ''INVALID_CONFIG''"
| "error_code (ChunkingFailed _) = ''CHUNKING_FAILED''"
| "error_code (RetrievalFailed _) = ''RETRIEVAL_FAILED''"
| "error_code (RenewalNotFound _ _) = ''RENEWAL_NOT_FOUND''"
| "error_code (RenewalFailed _) = ''RENEWAL_FAILED''"
| "error_code (CidCalculationFailed _) = ''CID_CALCULATION_FAILED''"
| "error_code (TransactionFailed _) = ''TRANSACTION_FAILED''"
| "error_code (InvalidChunkSize _) = ''INVALID_CHUNK_SIZE''"

definition is_retryable :: "SdkError \<Rightarrow> bool" where
  "is_retryable e = (case e of
     AuthorizationExpired _ _ \<Rightarrow> True
   | NetworkError _ \<Rightarrow> True
   | StorageFailed _ \<Rightarrow> True
   | TransactionFailed _ \<Rightarrow> True
   | RetrievalFailed _ \<Rightarrow> True
   | RenewalFailed _ \<Rightarrow> True
   | _ \<Rightarrow> False)"

fun recovery_hint :: "SdkError \<Rightarrow> string" where
  "recovery_hint (ChunkTooLarge _) = ''Reduce chunk size to 2 MiB or less''"
| "recovery_hint (FileTooLarge _) = ''Reduce file size or use chunked upload''"
| "recovery_hint EmptyData = ''Provide non-empty data''"
| "recovery_hint (InvalidCid _) = ''Verify CID format''"
| "recovery_hint (AuthNotFound _) = ''Call authorizeAccount() or authorizePreimage() first''"
| "recovery_hint (InsufficientAuthorization _ _) = ''Request additional authorization via authorize_account()''"
| "recovery_hint (AuthorizationExpired _ _) = ''Call refreshAccountAuthorization() to extend expiry''"
| "recovery_hint (StorageFailed _) = ''Check node connectivity and try again''"
| "recovery_hint (DagEncodingFailed _) = ''Check chunk CIDs and data integrity''"
| "recovery_hint (NetworkError _) = ''Check network connectivity to the RPC endpoint''"
| "recovery_hint (InvalidConfig _) = ''Check configuration parameters''"
| "recovery_hint (ChunkingFailed _) = ''Verify data integrity and chunker configuration''"
| "recovery_hint (RetrievalFailed _) = ''The data may not be available yet; try again''"
| "recovery_hint (RenewalNotFound _ _) = ''Verify the block number and extrinsic index''"
| "recovery_hint (RenewalFailed _) = ''Check that storage hasn'' @ CHR 0x27 # ''t expired, then retry''"
| "recovery_hint (CidCalculationFailed _) = ''Verify data and hash algorithm''"
| "recovery_hint (TransactionFailed _) = ''Verify transaction parameters and account nonce''"
| "recovery_hint (InvalidChunkSize _) = ''Use a chunk size between 1 byte and 2 MiB''"

section \<open>Chunks and options\<close>

record ChunkerConfig =
  ck_chunk_size :: u32
  ck_max_parallel :: u32
  ck_create_manifest :: bool

definition ChunkerConfig_default :: ChunkerConfig where
  "ChunkerConfig_default =
     \<lparr>ck_chunk_size = 1024 * 1024, ck_max_parallel = 8, ck_create_manifest = True\<rparr>"

record Chunk =
  ch_data :: "u8 list"
  ch_index :: u32
  ch_total_chunks :: u32

definition chunk_new :: "u8 list \<Rightarrow> u32 \<Rightarrow> u32 \<Rightarrow> Chunk" where
  "chunk_new data index total_chunks = \<lparr>ch_data = data, ch_index = index, ch_total_chunks = total_chunks\<rparr>"

definition chunk_size_of :: "Chunk \<Rightarrow> nat" where
  "chunk_size_of c = length (ch_data c)"

record StorageRef =
  sr_block :: u32
  sr_index :: u32

datatype WaitFor = WaitInBlock | WaitFinalized

datatype SdkCodec = Raw | DagPb | DagCbor | CustomCodec u64

fun codec_code :: "SdkCodec \<Rightarrow> u64" where
  "codec_code Raw = 0x55"
| "codec_code DagPb = 0x70"
| "codec_code DagCbor = 0x71"
| "codec_code (CustomCodec code) = code"

record StoreOptions =
  so_cid_codec :: SdkCodec
  so_hash_algorithm :: HashingAlgorithm
  so_wait_for :: WaitFor

definition StoreOptions_default :: StoreOptions where
  "StoreOptions_default =
     \<lparr>so_cid_codec = Raw, so_hash_algorithm = Blake2b256, so_wait_for = WaitInBlock\<rparr>"

datatype SdkScope = SdkAccount | SdkPreimage

section \<open>Progress events\<close>

datatype ChunkProgressEvent =
    ChunkStarted u32 u32
  | ChunkCompleted u32 u32 "u8 list"
  | ChunkFailed u32 u32 string
  | ManifestStarted
  | ManifestCreated "u8 list"
  | Completed "u8 list option"

datatype TransactionStatusEvent =
    TxValidated
  | TxBroadcasted
  | TxInBestBlock string "u32 option" "u32 option"
  | TxFinalized string "u32 option" "u32 option"
  | TxNoLongerInBestBlock
  | TxInvalid string
  | TxDropped string

datatype ProgressEvent =
    ChunkEvent ChunkProgressEvent
  | TransactionEvent TransactionStatusEvent

section \<open>Descriptions of transaction events\<close>

fun tx_description :: "TransactionStatusEvent \<Rightarrow> string" where
  "tx_description TxValidated = ''Transaction validated and added to the pool''"
| "tx_description TxBroadcasted = ''Transaction broadcast to peers''"
| "tx_description (TxInBestBlock block_hash block_number _) = (case block_number of
     Some n \<Rightarrow> ''Transaction in best block #'' @ decimal (unat n) @ '' ('' @ block_hash @ '')''
   | None \<Rightarrow> ''Transaction in best block ('' @ block_hash @ '')'')"
| "tx_description (TxFinalized block_hash block_number _) = (case block_number of
     Some n \<Rightarrow> ''Transaction finalized in block #'' @ decimal (unat n) @ '' ('' @ block_hash @ '')''
   | None \<Rightarrow> ''Transaction finalized in block ('' @ block_hash @ '')'')"
| "tx_description TxNoLongerInBestBlock = ''Transaction no longer in best block (reorg occurred)''"
| "tx_description (TxInvalid e) = ''Transaction invalid: '' @ e"
| "tx_description (TxDropped e) = ''Transaction dropped from pool: '' @ e"

section \<open>Properties\<close>

text \<open>Callers may classify an error by its code alone.\<close>

lemma retryable_by_code:
  "is_retryable e \<longleftrightarrow> error_code e \<in> {''AUTHORIZATION_EXPIRED'', ''NETWORK_ERROR'', ''STORAGE_FAILED'',
     ''TRANSACTION_FAILED'', ''RETRIEVAL_FAILED'', ''RENEWAL_FAILED''}"
  by (cases e) (simp_all add: is_retryable_def)

lemma recovery_hint_nonempty: "recovery_hint e \<noteq> []"
  by (cases e) simp_all

end
