(* ===== verification/Sdk_Chunker.thy ===== *)
theory Sdk_Chunker
  imports Sdk_Types "HOL-Library.Multiset"
begin

text \<open>
  The chunker of the client library (\<open>sdk/rust/src/chunker.rs\<close>). The trait \<open>Chunker\<close> is
  the locale \<open>chunker\<close>: what the rest of the library relies on when it is handed chunks. Inside
  it, \<open>reassemble_chunks\<close> is shown to restore the data, also from chunks that arrived in
  another order and were sorted by index. \<open>FixedSizeChunker\<close> is the interpretation.
\<close>

section \<open>Constants and operations\<close>

definition MAX_CHUNK_SIZE :: nat where
  "MAX_CHUNK_SIZE = 2 * 1024 * 1024"

definition MAX_FILE_SIZE :: nat where
  "MAX_FILE_SIZE = 64 * 1024 * 1024"

definition DEFAULT_CHUNK_SIZE :: nat where
  "DEFAULT_CHUNK_SIZE = 1024 * 1024"

definition validate_chunk_size :: "nat \<Rightarrow> SdkError + unit" where
  "validate_chunk_size n =
     (if n = 0 then Inl (InvalidChunkSize ''Chunk size cannot be zero'')
      else if MAX_CHUNK_SIZE < n then Inl (ChunkTooLarge (of_nat n))
      else Inr ())"

record FixedSizeChunker =
  fs_config :: ChunkerConfig

definition fixed_new :: "ChunkerConfig \<Rightarrow> SdkError + FixedSizeChunker" where
  "fixed_new config =
     (if ck_chunk_size config = 0 then Inl (InvalidChunkSize ''Chunk size cannot be zero'')
      else if of_nat MAX_CHUNK_SIZE < ck_chunk_size config
      then Inl (ChunkTooLarge (u32_to_u64 (ck_chunk_size config)))
      else Inr \<lparr>fs_config = config\<rparr>)"

definition fixed_default_config :: FixedSizeChunker where
  "fixed_default_config = \<lparr>fs_config = ChunkerConfig_default\<rparr>"

definition fixed_chunk_size :: "FixedSizeChunker \<Rightarrow> nat" where
  "fixed_chunk_size c = unat (ck_chunk_size (fs_config c))"

definition fixed_num_chunks :: "FixedSizeChunker \<Rightarrow> nat \<Rightarrow> nat" where
  "fixed_num_chunks c data_size =
     (if data_size = 0 then 0 else div_ceil data_size (unat (ck_chunk_size (fs_config c))))"

definition fixed_chunk :: "FixedSizeChunker \<Rightarrow> u8 list \<Rightarrow> SdkError + Chunk list" where
  "fixed_chunk c data =
     (if data = [] then Inl EmptyData
      else if MAX_FILE_SIZE < length data then Inl (FileTooLarge (of_nat (length data)))
      else let size = unat (ck_chunk_size (fs_config c));
               n = of_nat (fixed_num_chunks c (length data)) in
        Inr (map (\<lambda>(index, chunk_data). chunk_new chunk_data (of_nat index) n)
               (enumerate 0 (chunks size data))))"

text \<open>The loop of \<open>reassemble_chunks\<close>, at position \<open>i\<close>.\<close>

fun check_chunks :: "u32 \<Rightarrow> nat \<Rightarrow> Chunk list \<Rightarrow> SdkError + unit" where
  "check_chunks expected i [] = Inr ()"
| "check_chunks expected i (c # cs) =
     (if ch_total_chunks c \<noteq> expected
      then Inl (ChunkingFailed (''Chunk '' @ decimal i @ '' has inconsistent total_chunks: expected ''
        @ decimal (unat expected) @ '', got '' @ decimal (unat (ch_total_chunks c))))
      else if ch_index c \<noteq> of_nat i
      then Inl (ChunkingFailed (''Chunk index mismatch: expected '' @ decimal i
        @ '', got '' @ decimal (unat (ch_index c))))
      else check_chunks expected (Suc i) cs)"

definition reassemble_chunks :: "Chunk list \<Rightarrow> SdkError + u8 list" where
  "reassemble_chunks cs =
     (case cs of
        [] \<Rightarrow> Inl EmptyData
      | c # _ \<Rightarrow>
          let expected = ch_total_chunks c; actual = of_nat (length cs) in
          if expected \<noteq> actual
          then Inl (ChunkingFailed (''Chunk count mismatch: expected '' @ decimal (unat expected)
            @ '' chunks, got '' @ decimal (unat actual)))
          else and_then (check_chunks expected 0 cs) (\<lambda>_. Inr (concat (map ch_data cs))))"

section \<open>What a chunker promises\<close>

lemma check_chunks_iff:
  "check_chunks expected i cs = Inr u \<longleftrightarrow>
     (\<forall>j < length cs. ch_total_chunks (cs ! j) = expected \<and> ch_index (cs ! j) = of_nat (i + j))"
proof (induction cs arbitrary: i)
  case (Cons c cs)
  have "(\<forall>j < length (c # cs). ch_total_chunks ((c # cs) ! j) = expected \<and> ch_index ((c # cs) ! j) = of_nat (i + j))
      \<longleftrightarrow> (ch_total_chunks c = expected \<and> ch_index c = of_nat i)
        \<and> (\<forall>j < length cs. ch_total_chunks (cs ! j) = expected \<and> ch_index (cs ! j) = of_nat (Suc i + j))"
    by (auto simp: All_less_Suc2 simp del: of_nat_add of_nat_Suc)
  with Cons.IH [of "Suc i"] show ?case by simp
qed simp

text \<open>\<open>reassemble_chunks\<close> accepts exactly complete sequences in order.\<close>

lemma reassemble_iff:
  "reassemble_chunks cs = Inr data \<longleftrightarrow>
     cs \<noteq> [] \<and> data = concat (map ch_data cs)
     \<and> (\<forall>j < length cs. ch_total_chunks (cs ! j) = of_nat (length cs) \<and> ch_index (cs ! j) = of_nat j)"
proof (cases cs)
  case Nil
  then show ?thesis by (simp add: reassemble_chunks_def)
next
  case (Cons c rest)
  have "(ch_total_chunks c = of_nat (length cs) \<and> (\<forall>j < length cs. ch_total_chunks (cs ! j) = ch_total_chunks c
        \<and> ch_index (cs ! j) = of_nat j)) \<longleftrightarrow>
      (\<forall>j < length cs. ch_total_chunks (cs ! j) = of_nat (length cs) \<and> ch_index (cs ! j) = of_nat j)"
    (is "?a \<and> ?b \<longleftrightarrow> ?c")
  proof
    assume ?c
    then have "ch_total_chunks (cs ! 0) = of_nat (length cs)" using Cons by blast
    with \<open>?c\<close> Cons show "?a \<and> ?b" by simp
  qed auto
  then show ?thesis
    using check_chunks_iff [of "ch_total_chunks c" 0 cs] Cons
    by (auto simp: reassemble_chunks_def Let_def res_simps simp del: of_nat_Suc check_chunks.simps)
qed

locale chunker =
  fixes chunk :: "'c \<Rightarrow> u8 list \<Rightarrow> SdkError + Chunk list" and usable :: "'c \<Rightarrow> bool"
  assumes complete: "usable c \<Longrightarrow> chunk c data = Inr cs \<Longrightarrow> concat (map ch_data cs) = data"
    and numbered: "usable c \<Longrightarrow> chunk c data = Inr cs \<Longrightarrow> i < length cs \<Longrightarrow>
      ch_index (cs ! i) = of_nat i \<and> ch_total_chunks (cs ! i) = of_nat (length cs)"
    and sized: "usable c \<Longrightarrow> chunk c data = Inr cs \<Longrightarrow> d \<in> set cs \<Longrightarrow>
      ch_data d \<noteq> [] \<and> length (ch_data d) \<le> MAX_CHUNK_SIZE"
    and counted: "usable c \<Longrightarrow> chunk c data = Inr cs \<Longrightarrow> cs \<noteq> [] \<and> length cs < 2 ^ 32"
begin

lemma reassembled: "usable c \<Longrightarrow> chunk c data = Inr cs \<Longrightarrow> reassemble_chunks cs = Inr data"
  using complete numbered counted by (auto simp: reassemble_iff)

lemma indices_unat: "usable c \<Longrightarrow> chunk c data = Inr cs \<Longrightarrow> i < length cs \<Longrightarrow> unat (ch_index (cs ! i)) = i"
  using numbered counted [of c data cs] by (auto intro!: unat_of_nat_u32)

text \<open>The indices identify the chunks, so that their order can be restored.\<close>

lemma sort_restores:
  assumes "usable c" and "chunk c data = Inr cs" and "mset cs' = mset cs"
  shows "sort_key ch_index cs' = cs"
proof (rule sort_key_inj_key_eq [OF assms(3)])
  have inj: "inj_on ch_index (set cs)"
    by (rule inj_onI) (metis assms(1,2) in_set_conv_nth indices_unat)
  then show "inj_on ch_index (set cs')" using assms(3) by (metis mset_eq_setD)
  show "sorted (map ch_index cs)"
    by (auto simp: sorted_iff_nth_mono word_le_nat_alt indices_unat [OF assms(1,2)])
qed

lemma reassembled_any_order:
  assumes "usable c" and "chunk c data = Inr cs" and "mset cs' = mset cs"
  shows "reassemble_chunks (sort_key ch_index cs') = Inr data"
  using sort_restores [OF assms] reassembled [OF assms(1,2)] by simp

end

section \<open>The fixed-size chunker\<close>

definition fixed_usable :: "FixedSizeChunker \<Rightarrow> bool" where
  "fixed_usable c \<longleftrightarrow> 0 < fixed_chunk_size c \<and> fixed_chunk_size c \<le> MAX_CHUNK_SIZE"

lemma max_chunk_size_u32 [simp]: "unat (of_nat MAX_CHUNK_SIZE :: u32) = MAX_CHUNK_SIZE"
  by (rule unat_of_nat_u32) (simp add: MAX_CHUNK_SIZE_def)

lemma fixed_new_Inr: "fixed_new config = Inr c \<longleftrightarrow> c = \<lparr>fs_config = config\<rparr> \<and> fixed_usable c"
  by (auto simp: fixed_new_def fixed_usable_def fixed_chunk_size_def word_less_nat_alt unat_gt_0)

lemma fixed_default_usable: "fixed_usable fixed_default_config"
  by (simp add: fixed_usable_def fixed_chunk_size_def fixed_default_config_def ChunkerConfig_default_def
      MAX_CHUNK_SIZE_def)

lemma fixed_chunk_Inr:
  assumes "fixed_usable c"
  shows "fixed_chunk c data = Inr cs \<longleftrightarrow>
     data \<noteq> [] \<and> length data \<le> MAX_FILE_SIZE
     \<and> cs = map (\<lambda>(i, d). chunk_new d (of_nat i) (of_nat (length (chunks (fixed_chunk_size c) data))))
         (enumerate 0 (chunks (fixed_chunk_size c) data))"
proof -
  have "fixed_num_chunks c (length data) = length (chunks (fixed_chunk_size c) data)" if "data \<noteq> []"
    using that assms by (simp add: fixed_num_chunks_def fixed_usable_def fixed_chunk_size_def length_chunks)
  then show ?thesis by (auto simp: fixed_chunk_def Let_def fixed_chunk_size_def)
qed

lemma length_chunks_le: "length (chunks n xs) \<le> length xs"
proof (induction n xs rule: chunks.induct)
  case (1 n xs)
  show ?case
  proof (cases "xs = [] \<or> n = 0")
    case False
    with 1 have "length (chunks n (drop n xs)) \<le> length xs - n" by simp
    moreover have "length xs - n < length xs" using False by simp
    ultimately have "Suc (length (chunks n (drop n xs))) \<le> length xs" by linarith
    with False show ?thesis by (simp add: chunks.simps [of n xs])
  qed (simp add: chunks.simps [of n xs])
qed

interpretation fixed: chunker fixed_chunk fixed_usable
proof
  fix c data cs
  assume u: "fixed_usable c" and "fixed_chunk c data = Inr cs"
  then have ne: "data \<noteq> []" "length data \<le> MAX_FILE_SIZE"
    and cs: "cs = map (\<lambda>(i, d). chunk_new d (of_nat i) (of_nat (length (chunks (fixed_chunk_size c) data))))
      (enumerate 0 (chunks (fixed_chunk_size c) data))"
    using fixed_chunk_Inr by blast+
  have len: "length cs = length (chunks (fixed_chunk_size c) data)" by (simp add: cs)
  have dat: "map ch_data cs = chunks (fixed_chunk_size c) data"
    by (simp add: cs chunk_new_def case_prod_unfold comp_def)
  show con: "concat (map ch_data cs) = data"
    using u by (simp add: dat concat_chunks fixed_usable_def)
  show "ch_index (cs ! i) = of_nat i \<and> ch_total_chunks (cs ! i) = of_nat (length cs)" if "i < length cs" for i
    using that by (simp add: cs chunk_new_def nth_enumerate_eq)
  show "ch_data d \<noteq> [] \<and> length (ch_data d) \<le> MAX_CHUNK_SIZE" if "d \<in> set cs" for d
  proof -
    have "ch_data d \<in> set (chunks (fixed_chunk_size c) data)" using that by (simp flip: dat)
    from chunks_nonempty [OF this] u show ?thesis by (auto simp: fixed_usable_def)
  qed
  show "cs \<noteq> [] \<and> length cs < 2 ^ 32"
    using con ne length_chunks_le [of "fixed_chunk_size c" data] len by (auto simp: MAX_FILE_SIZE_def)
qed

text \<open>It accepts every file that is not empty and not above the limit.\<close>

lemma fixed_chunk_total:
  assumes "data \<noteq> []" and "length data \<le> MAX_FILE_SIZE"
  shows "\<exists>cs. fixed_chunk c data = Inr cs"
  using assms by (simp add: fixed_chunk_def)

lemma fixed_chunk_count:
  assumes "fixed_usable c" and "fixed_chunk c data = Inr cs"
  shows "length cs = fixed_num_chunks c (length data)"
    and "map ch_data cs = chunks (fixed_chunk_size c) data"
proof -
  have cs: "data \<noteq> []" "cs = map (\<lambda>(i, d). chunk_new d (of_nat i) (of_nat (length (chunks (fixed_chunk_size c) data))))
      (enumerate 0 (chunks (fixed_chunk_size c) data))"
    using assms fixed_chunk_Inr by blast+
  then show "length cs = fixed_num_chunks c (length data)"
    using assms(1) by (simp add: fixed_num_chunks_def fixed_usable_def fixed_chunk_size_def length_chunks)
  show "map ch_data cs = chunks (fixed_chunk_size c) data"
    by (simp add: cs(2) chunk_new_def case_prod_unfold comp_def)
qed

end
