(* ===== verification/Sdk_Dag.thy ===== *)
theory Sdk_Dag
  imports Sdk_Chunker
begin

text \<open>
  The DAG-PB manifest of the client library (\<open>sdk/rust/src/dag.rs\<close>): protobuf varints, UnixFS
  file data, links, nodes, and \<open>UnixFsDagBuilder::build\<close>. The reference is a reader of the
  protobuf messages that the comments of the source give; the lemmas show that it reads back from
  an encoded manifest exactly what was put in, and how long a manifest is at least.
\<close>

section \<open>Encoder\<close>

function encode_varint :: "u64 \<Rightarrow> u8 list" where
  "encode_varint value =
     (let byte = ucast (value AND 0x7F); value' = drop_bit 7 value in
      if value' \<noteq> 0 then (byte OR 0x80) # encode_varint value' else [byte])"
  by pat_completeness auto
termination
proof (relation "measure unat")
  fix v byte v' :: u64
  assume v': "v' = drop_bit 7 v" "v' \<noteq> 0"
  then have "unat v' = unat v div 128" by (simp add: drop_bit_eq_div unat_div)
  moreover have "0 < unat v'" using v'(2) by (simp add: unat_gt_0)
  moreover from calculation have "unat v div 128 < unat v" by (intro div_less_dividend) (auto intro: gr0I)
  ultimately show "(v', v) \<in> measure unat" by simp
qed simp

declare encode_varint.simps [simp del]

definition encode_unixfs_file_data :: "u64 list \<Rightarrow> u64 \<Rightarrow> u8 list" where
  "encode_unixfs_file_data block_sizes total_size =
     [1 * 8, 2] @ [3 * 8] @ encode_varint total_size
     @ concat (map (\<lambda>size. (4 * 8) # encode_varint size) block_sizes)"

definition encode_dag_link :: "u8 list \<Rightarrow> u8 list \<Rightarrow> u64 \<Rightarrow> u8 list" where
  "encode_dag_link cid_bytes name tsize =
     [1 * 8 + 2] @ encode_varint (of_nat (length cid_bytes)) @ cid_bytes
     @ (if name = [] then [] else [2 * 8 + 2] @ encode_varint (of_nat (length name)) @ name)
     @ [3 * 8] @ encode_varint tsize"

definition encode_dag_node :: "u8 list list \<Rightarrow> u8 list \<Rightarrow> u8 list" where
  "encode_dag_node links data =
     concat (map (\<lambda>link. [2 * 8 + 2] @ encode_varint (of_nat (length link)) @ link) links)
     @ (if data = [] then [] else [1 * 8 + 2] @ encode_varint (of_nat (length data)) @ data)"

section \<open>Building a manifest\<close>

definition MAX_MANIFEST_CHUNKS :: nat where
  "MAX_MANIFEST_CHUNKS = 1000000"

record DagManifest =
  dm_root_cid :: CidData
  dm_chunk_cids :: "CidData list"
  dm_total_size :: u64
  dm_dag_bytes :: "u8 list"

text \<open>The two loops of \<open>build\<close>, with the error of the first failing iteration.\<close>

fun chunk_cids :: "host \<Rightarrow> HashingAlgorithm \<Rightarrow> Chunk list \<Rightarrow> SdkError + CidData list" where
  "chunk_cids h algo [] = Inr []"
| "chunk_cids h algo (c # cs) =
     and_then (map_err (\<lambda>_. DagEncodingFailed ''Failed to calculate chunk CID: CidError'')
       (calculate_cid h (ch_data c) \<lparr>cc_codec = codec_code Raw, cc_hashing = algo\<rparr>)) (\<lambda>cd.
     and_then (chunk_cids h algo cs) (\<lambda>cds. Inr (cd # cds)))"

fun dag_links :: "host \<Rightarrow> (CidData \<times> Chunk) list \<Rightarrow> SdkError + u8 list list" where
  "dag_links h [] = Inr []"
| "dag_links h ((cd, c) # rest) =
     and_then (ok_or (cid_data_to_bytes h cd) (DagEncodingFailed ''Failed to serialize CID'')) (\<lambda>cid_bytes.
     and_then (dag_links h rest) (\<lambda>links.
     Inr (encode_dag_link cid_bytes [] (of_nat (length (ch_data c))) # links)))"

definition build :: "host \<Rightarrow> Chunk list \<Rightarrow> HashingAlgorithm \<Rightarrow> SdkError + DagManifest" where
  "build h cs algo =
     (if cs = [] then Inl EmptyData
      else if MAX_MANIFEST_CHUNKS < length cs
      then Inl (DagEncodingFailed (''Too many chunks ('' @ decimal (length cs)
        @ '') for single manifest. Maximum is '' @ decimal MAX_MANIFEST_CHUNKS
        @ ''. Consider using hierarchical DAG structure for files this large.''))
      else and_then (chunk_cids h algo cs) (\<lambda>cids.
        let block_sizes = map (\<lambda>c. of_nat (length (ch_data c))) cs;
            total_size = sum_list block_sizes;
            unixfs_data = encode_unixfs_file_data block_sizes total_size in
        and_then (dag_links h (zip cids cs)) (\<lambda>links.
        let dag_bytes = encode_dag_node links unixfs_data in
        and_then (map_err (\<lambda>_. DagEncodingFailed ''Failed to calculate root CID: CidError'')
          (calculate_cid h dag_bytes \<lparr>cc_codec = codec_code DagPb, cc_hashing = algo\<rparr>)) (\<lambda>root_cid.
        Inr \<lparr>dm_root_cid = root_cid, dm_chunk_cids = cids, dm_total_size = total_size,
             dm_dag_bytes = dag_bytes\<rparr>))))"

section \<open>Reader\<close>

fun decode_varint :: "u8 list \<Rightarrow> (nat \<times> u8 list) option" where
  "decode_varint [] = None"
| "decode_varint (b # bs) =
     (if b < 0x80 then Some (unat b, bs)
      else case decode_varint bs of
        None \<Rightarrow> None
      | Some (n, rest) \<Rightarrow> Some (unat b - 128 + 128 * n, rest))"

definition read_uint :: "u8 \<Rightarrow> u8 list \<Rightarrow> (nat \<times> u8 list) option" where
  "read_uint tag bs = (case bs of [] \<Rightarrow> None | b # r \<Rightarrow> if b = tag then decode_varint r else None)"

definition read_bytes :: "u8 \<Rightarrow> u8 list \<Rightarrow> (u8 list \<times> u8 list) option" where
  "read_bytes tag bs =
     (case read_uint tag bs of
        None \<Rightarrow> None
      | Some (n, r) \<Rightarrow> if n \<le> length r then Some (take n r, drop n r) else None)"

text \<open>A repeated field, read as long as it occurs.\<close>

lemma decode_varint_shrinks: "decode_varint bs = Some (n, r) \<Longrightarrow> length r < length bs"
  by (induction bs arbitrary: n r) (force split: if_splits option.splits)+

lemma read_uint_shrinks: "read_uint t bs = Some (n, r) \<Longrightarrow> length r < length bs"
  by (cases bs) (auto simp: read_uint_def split: if_splits dest: decode_varint_shrinks)

lemma read_bytes_shrinks: "read_bytes t bs = Some (x, r) \<Longrightarrow> length r < length bs"
  by (fastforce simp: read_bytes_def split: option.splits if_splits dest: read_uint_shrinks)

function read_uints :: "u8 \<Rightarrow> u8 list \<Rightarrow> nat list \<times> u8 list" where
  "read_uints tag bs =
     (case read_uint tag bs of
        None \<Rightarrow> ([], bs)
      | Some (n, r) \<Rightarrow> (let (ns, rest) = read_uints tag r in (n # ns, rest)))"
  by pat_completeness auto
termination
  by (relation "measure (\<lambda>(t, bs). length bs)") (auto dest: read_uint_shrinks)

function read_all_bytes :: "u8 \<Rightarrow> u8 list \<Rightarrow> u8 list list \<times> u8 list" where
  "read_all_bytes tag bs =
     (case read_bytes tag bs of
        None \<Rightarrow> ([], bs)
      | Some (x, r) \<Rightarrow> (let (xs, rest) = read_all_bytes tag r in (x # xs, rest)))"
  by pat_completeness auto
termination
  by (relation "measure (\<lambda>(t, bs). length bs)") (auto dest: read_bytes_shrinks)

declare read_uints.simps [simp del] read_all_bytes.simps [simp del]

text \<open>A link without a name, UnixFS file data, and a whole manifest: links with their sizes, the
  file size and the block sizes.\<close>

definition read_link :: "u8 list \<Rightarrow> (u8 list \<times> nat) option" where
  "read_link bs =
     (case read_bytes 0x0A bs of
        None \<Rightarrow> None
      | Some (cid, r) \<Rightarrow>
          (case read_uint 0x18 r of Some (tsize, []) \<Rightarrow> Some (cid, tsize) | _ \<Rightarrow> None))"

definition read_unixfs :: "u8 list \<Rightarrow> (nat \<times> nat list) option" where
  "read_unixfs bs =
     (case read_uint 0x08 bs of
        Some (ty, r) \<Rightarrow>
          if ty \<noteq> 2 then None
          else (case read_uint 0x18 r of
            Some (filesize, r') \<Rightarrow>
              (case read_uints 0x20 r' of (sizes, []) \<Rightarrow> Some (filesize, sizes) | _ \<Rightarrow> None)
          | None \<Rightarrow> None)
      | None \<Rightarrow> None)"

definition read_manifest :: "u8 list \<Rightarrow> ((u8 list \<times> nat) option list \<times> (nat \<times> nat list) option) option" where
  "read_manifest bs =
     (let (links, r) = read_all_bytes 0x12 bs in
      case read_bytes 0x0A r of
        Some (data, []) \<Rightarrow> Some (map read_link links, read_unixfs data)
      | _ \<Rightarrow> None)"

section \<open>Round trips\<close>

lemma low_bits: "unat (ucast (v AND 0x7F :: u64) :: u8) = unat v mod 128"
proof -
  have "v AND 0x7F = take_bit 7 v" by (simp add: take_bit_eq_mask mask_eq_exp_minus_1)
  then have "unat (v AND 0x7F) = unat v mod 128" by (simp add: take_bit_eq_mod unat_mod)
  moreover have "unat v mod 128 < 256" using mod_less_divisor [of 128 "unat v"] by linarith
  ultimately show ?thesis
    by (simp add: unsigned_ucast_eq take_bit_nat_eq_self)
qed

lemma continuation_bit: "unat b < 128 \<Longrightarrow> unat (b OR 0x80 :: u8) = unat b + 128"
proof -
  assume b: "unat b < 128"
  have "b AND 0x80 = 0"
  proof (rule bit_word_eqI)
    fix n assume "n < LENGTH(8)"
    have "bit b 7 \<longleftrightarrow> bit (unat b) 7" by (simp add: bit_simps)
    with b have "\<not> bit b 7" by (simp add: bit_iff_odd)
    moreover have "(0x80 :: u8) = 2 ^ 7" by simp
    ultimately show "bit (b AND 0x80) n = bit (0 :: u8) n"
      by (auto simp only: bit_and_iff bit_exp_iff bit_0_eq bot_apply bot_bool_def)
  qed
  then have "b OR 0x80 = b + 0x80" by (simp flip: disjunctive_add_eq_or)
  with b show ?thesis by (simp add: unat_word_ariths)
qed

lemma decode_encode_varint: "decode_varint (encode_varint v @ rest) = Some (unat v, rest)"
proof (induction v rule: encode_varint.induct)
  case (1 v)
  let ?b = "ucast (v AND 0x7F) :: u8"
  have b: "unat ?b = unat v mod 128" "unat ?b < 128" by (simp_all add: low_bits)
  have d: "unat (drop_bit 7 v) = unat v div 128" by (simp add: drop_bit_eq_div unat_div)
  show ?case
  proof (cases "drop_bit 7 v = 0")
    case True
    with d have "unat v div 128 = 0" by simp
    with True b show ?thesis
      by (simp add: encode_varint.simps [of v] word_less_nat_alt div_eq_0_iff)
  next
    case False
    have "\<not> ?b OR 0x80 < 0x80" using continuation_bit [OF b(2)] by (simp add: word_less_nat_alt)
    with False 1 [OF refl refl] continuation_bit [OF b(2)] b d show ?thesis
      by (simp add: encode_varint.simps [of v] Let_def)
  qed
qed

lemma encode_varint_length: "0 < length (encode_varint v)"
  by (simp add: encode_varint.simps [of v] Let_def)

lemma encode_varint_bound: "unat v < 128 ^ Suc k \<Longrightarrow> length (encode_varint v) \<le> Suc k"
proof (induction k arbitrary: v)
  case 0
  then have "drop_bit 7 v = 0" by (simp add: word_eq_unat drop_bit_eq_div unat_div)
  then show ?case by (simp add: encode_varint.simps [of v])
next
  case (Suc k)
  have "unat (drop_bit 7 v) < 128 ^ Suc k"
    using Suc.prems by (simp add: drop_bit_eq_div unat_div less_mult_imp_div_less mult.commute)
  from Suc.IH [OF this] show ?case by (simp add: encode_varint.simps [of v] Let_def)
qed

lemma encode_varint_le: "length (encode_varint v) \<le> 10"
  using unat_u64_less [of v] encode_varint_bound [of v 9] by simp

lemma read_uint_encoded [simp]: "read_uint t (t # encode_varint v @ rest) = Some (unat v, rest)"
  by (simp add: read_uint_def decode_encode_varint)

lemma read_uint_other: "rest = [] \<or> hd rest \<noteq> t \<Longrightarrow> read_uint t rest = None"
  by (cases rest) (auto simp: read_uint_def)

lemma read_bytes_encoded:
  "length x < 2 ^ 64 \<Longrightarrow> read_bytes t (t # encode_varint (of_nat (length x)) @ x @ rest) = Some (x, rest)"
  by (simp add: read_bytes_def unat_of_nat_u64)

lemma read_bytes_other: "rest = [] \<or> hd rest \<noteq> t \<Longrightarrow> read_bytes t rest = None"
  by (simp add: read_bytes_def read_uint_other)

lemma read_uints_encoded:
  assumes "rest = [] \<or> hd rest \<noteq> t"
  shows "read_uints t (concat (map (\<lambda>v. t # encode_varint v) vs) @ rest) = (map unat vs, rest)"
proof (induction vs)
  case Nil
  then show ?case using assms by (simp add: read_uints.simps [of t rest] read_uint_other)
next
  case (Cons v vs)
  then show ?case by (simp add: read_uints.simps [of t "t # _"])
qed

lemma read_all_bytes_encoded:
  assumes "rest = [] \<or> hd rest \<noteq> t" and "\<forall>x \<in> set xs. length x < 2 ^ 64"
  shows "read_all_bytes t (concat (map (\<lambda>x. [t] @ encode_varint (of_nat (length x)) @ x) xs) @ rest) = (xs, rest)"
  using assms(2)
proof (induction xs)
  case Nil
  then show ?case using assms(1) by (simp add: read_all_bytes.simps [of t rest] read_bytes_other)
next
  case (Cons x xs)
  then show ?case by (simp add: read_all_bytes.simps [of t "t # _"] read_bytes_encoded)
qed

lemma read_link_encoded: "length cid < 2 ^ 64 \<Longrightarrow> read_link (encode_dag_link cid [] n) = Some (cid, unat n)"
  using read_bytes_encoded [of cid "0x0A" "0x18 # encode_varint n"] read_uint_encoded [of "0x18" n "[]"]
  by (simp add: read_link_def encode_dag_link_def)

lemma read_unixfs_encoded: "read_unixfs (encode_unixfs_file_data sizes n) = Some (unat n, map unat sizes)"
proof -
  have "read_uint 8 (8 # 2 # r) = Some (2, r)" for r by (simp add: read_uint_def)
  moreover have "read_uints 0x20 (concat (map (\<lambda>v. 0x20 # encode_varint v) sizes)) = (map unat sizes, [])"
    using read_uints_encoded [of "[]" "0x20" sizes] by simp
  ultimately show ?thesis by (simp add: read_unixfs_def encode_unixfs_file_data_def)
qed

lemma read_manifest_encoded:
  assumes "\<forall>l \<in> set links. length l < 2 ^ 64" and "data \<noteq> []" and "length data < 2 ^ 64"
  shows "read_manifest (encode_dag_node links data) = Some (map read_link links, read_unixfs data)"
proof -
  let ?d = "0x0A # encode_varint (of_nat (length data)) @ data"
  have "read_all_bytes 0x12 (encode_dag_node links data) = (links, ?d)"
    using read_all_bytes_encoded [of ?d "0x12" links] assms(1,2) by (simp add: encode_dag_node_def)
  then show ?thesis
    using read_bytes_encoded [of data "0x0A" "[]"] assms(3) by (simp add: read_manifest_def)
qed

section \<open>Manifests of chunked data\<close>

definition raw_cid :: "host \<Rightarrow> HashingAlgorithm \<Rightarrow> u8 list \<Rightarrow> CidData" where
  "raw_cid h algo d = \<lparr>cd_content_hash = hash_with h algo d, cd_hashing = algo, cd_codec = 0x55\<rparr>"

definition raw_cid_bytes :: "host \<Rightarrow> HashingAlgorithm \<Rightarrow> u8 list \<Rightarrow> Cid" where
  "raw_cid_bytes h algo d = cid_v1_bytes h 0x55 (multihash_code algo, hash_with h algo d)"

lemma calculate_cid_eq:
  assumes "multihash_wrap_spec h" and "hash_len_spec h"
  shows "calculate_cid h d cc = Inr \<lparr>cd_content_hash = hash_with h (cc_hashing cc) d,
    cd_hashing = cc_hashing cc, cd_codec = cc_codec cc\<rparr>"
  using calculate_cid_total [OF assms] calculate_cid_Inr by metis

lemma chunk_cids_eq:
  assumes "multihash_wrap_spec h" and "hash_len_spec h"
  shows "chunk_cids h algo cs = Inr (map (raw_cid h algo \<circ> ch_data) cs)"
  by (induction cs) (simp_all add: calculate_cid_eq [OF assms] raw_cid_def)

lemma dag_links_eq:
  assumes "multihash_wrap_spec h" and "hash_len_spec h"
  shows "dag_links h (zip (map (raw_cid h algo \<circ> ch_data) cs) cs) =
    Inr (map (\<lambda>c. encode_dag_link (raw_cid_bytes h algo (ch_data c)) [] (of_nat (length (ch_data c)))) cs)"
  by (induction cs) (simp_all add: cid_data_to_bytes_def cid_try_from_ok [OF assms(1)] length_hash_with [OF assms(2)]
      raw_cid_def raw_cid_bytes_def)

definition manifest_links :: "host \<Rightarrow> HashingAlgorithm \<Rightarrow> Chunk list \<Rightarrow> u8 list list" where
  "manifest_links h algo cs =
     map (\<lambda>c. encode_dag_link (raw_cid_bytes h algo (ch_data c)) [] (of_nat (length (ch_data c)))) cs"

definition manifest_data :: "Chunk list \<Rightarrow> u8 list" where
  "manifest_data cs = (let sizes = map (\<lambda>c. of_nat (length (ch_data c))) cs in
     encode_unixfs_file_data sizes (sum_list sizes))"

lemma build_eq:
  assumes "multihash_wrap_spec h" and "hash_len_spec h" and "cs \<noteq> []" and "length cs \<le> MAX_MANIFEST_CHUNKS"
  shows "build h cs algo = Inr
    \<lparr>dm_root_cid = \<lparr>cd_content_hash = hash_with h algo (encode_dag_node (manifest_links h algo cs) (manifest_data cs)),
       cd_hashing = algo, cd_codec = 0x70\<rparr>,
     dm_chunk_cids = map (raw_cid h algo \<circ> ch_data) cs,
     dm_total_size = sum_list (map (\<lambda>c. of_nat (length (ch_data c))) cs),
     dm_dag_bytes = encode_dag_node (manifest_links h algo cs) (manifest_data cs)\<rparr>"
  using assms(3,4)
  by (simp add: build_def chunk_cids_eq [OF assms(1,2)] dag_links_eq [OF assms(1,2)] calculate_cid_eq [OF assms(1,2)]
      manifest_links_def manifest_data_def Let_def)

lemma cid_bytes_bounds:
  assumes "hash_len_spec h" and "cid_len_spec h"
  shows "36 \<le> length (raw_cid_bytes h algo d)" "length (raw_cid_bytes h algo d) \<le> 54"
  using assms(2) length_hash_with [OF assms(1)] by (simp_all add: cid_len_spec_def raw_cid_bytes_def)

lemma link_bounds:
  "length cid + 4 \<le> length (encode_dag_link cid [] n)" "length (encode_dag_link cid [] n) \<le> length cid + 22"
  using encode_varint_length [of n] encode_varint_length [of "of_nat (length cid)"]
    encode_varint_le [of n] encode_varint_le [of "of_nat (length cid)"]
  unfolding encode_dag_link_def length_append by (simp_all del: length_greater_0_conv)

lemma concat_lower: "(\<And>x. x \<in> set xs \<Longrightarrow> lo \<le> length (f x)) \<Longrightarrow> lo * length xs \<le> length (concat (map f xs))"
  by (induction xs) (auto simp: add_mono)

lemma concat_upper: "(\<And>x. x \<in> set xs \<Longrightarrow> length (f x) \<le> hi) \<Longrightarrow> length (concat (map f xs)) \<le> hi * length xs"
  by (induction xs) (auto simp: add_mono)

lemma unixfs_bounds:
  "4 + 2 * length sizes \<le> length (encode_unixfs_file_data sizes n)"
  "length (encode_unixfs_file_data sizes n) \<le> 13 + 11 * length sizes"
proof -
  have "2 \<le> length (0x20 # encode_varint v) \<and> length (0x20 # encode_varint v) \<le> 11" for v
    using encode_varint_length [of v] encode_varint_le [of v] by (simp add: Suc_le_eq)
  then have "2 * length sizes \<le> length (concat (map (\<lambda>v. 0x20 # encode_varint v) sizes))
      \<and> length (concat (map (\<lambda>v. 0x20 # encode_varint v) sizes)) \<le> 11 * length sizes"
    by (intro conjI concat_lower concat_upper) blast+
  then show "4 + 2 * length sizes \<le> length (encode_unixfs_file_data sizes n)"
    "length (encode_unixfs_file_data sizes n) \<le> 13 + 11 * length sizes"
    using encode_varint_length [of n] encode_varint_le [of n]
    unfolding encode_unixfs_file_data_def length_append by (simp_all del: length_greater_0_conv)
qed

lemma manifest_data_bounds:
  "4 + 2 * length cs \<le> length (manifest_data cs)" "length (manifest_data cs) \<le> 13 + 11 * length cs"
  using unixfs_bounds [of "map (\<lambda>c. of_nat (length (ch_data c))) cs" "sum_list (map (\<lambda>c. of_nat (length (ch_data c))) cs)"]
  by (simp_all add: manifest_data_def Let_def)

text \<open>A manifest has at least 44 bytes for each chunk.\<close>

lemma manifest_length:
  assumes "hash_len_spec h" and "cid_len_spec h"
  shows "44 * length cs < length (encode_dag_node (manifest_links h algo cs) (manifest_data cs))"
proof -
  let ?f = "\<lambda>l. [2 * 8 + 2] @ encode_varint (of_nat (length l)) @ l"
  have "42 \<le> length (?f l)" if "l \<in> set (manifest_links h algo cs)" for l
  proof -
    have "40 \<le> length l"
      using that link_bounds(1) [of "raw_cid_bytes h algo _"] cid_bytes_bounds(1) [OF assms]
      by (auto simp: manifest_links_def intro: order_trans [OF _ link_bounds(1)])
    then show ?thesis using encode_varint_length [of "of_nat (length l)"] unfolding length_append
      by (simp del: length_greater_0_conv)
  qed
  then have "42 * length (manifest_links h algo cs) \<le> length (concat (map ?f (manifest_links h algo cs)))"
    by (rule concat_lower)
  with manifest_data_bounds(1) [of cs] show ?thesis by (auto simp: encode_dag_node_def manifest_links_def)
qed

lemma sum_list_sizes:
  "length (concat (map ch_data cs)) < 2 ^ 64 \<Longrightarrow>
   unat (sum_list (map (\<lambda>c. of_nat (length (ch_data c))) cs) :: u64) = length (concat (map ch_data cs))"
proof -
  have "sum_list (map (\<lambda>c. of_nat (length (ch_data c))) cs) = (of_nat (length (concat (map ch_data cs))) :: u64)"
    by (induction cs) simp_all
  then show "length (concat (map ch_data cs)) < 2 ^ 64 \<Longrightarrow> ?thesis" by (simp add: unat_of_nat_u64)
qed

text \<open>Reading the manifest of chunked data: a link for each chunk, with the CID and the size of
  the chunk, and the sizes.\<close>

lemma manifest_read:
  assumes "hash_len_spec h" and "cid_len_spec h"
    and "length cs \<le> MAX_MANIFEST_CHUNKS" and "length (concat (map ch_data cs)) < 2 ^ 64"
  shows "read_manifest (encode_dag_node (manifest_links h algo cs) (manifest_data cs)) =
    Some (map (\<lambda>c. Some (raw_cid_bytes h algo (ch_data c), length (ch_data c))) cs,
          Some (length (concat (map ch_data cs)), map (length \<circ> ch_data) cs))"
proof -
  have each: "length (ch_data c) \<le> length (concat (map ch_data cs))" if "c \<in> set cs" for c
    using that by (induction cs) auto
  have size: "unat (of_nat (length (ch_data c)) :: u64) = length (ch_data c)" if "c \<in> set cs" for c
    using each [OF that] assms(4) by (intro unat_of_nat_u64) simp
  have cid: "length (raw_cid_bytes h algo d) < 2 ^ 64" for d
    using cid_bytes_bounds(2) [OF assms(1,2), of algo d] by simp
  have "length l < 2 ^ 64" if l: "l \<in> set (manifest_links h algo cs)" for l
  proof -
    obtain c :: Chunk where "l = encode_dag_link (raw_cid_bytes h algo (ch_data c)) [] (of_nat (length (ch_data c)))"
      using l by (auto simp: manifest_links_def)
    then have "length l \<le> 76"
      using link_bounds(2) [of "raw_cid_bytes h algo (ch_data c)" "of_nat (length (ch_data c))"]
        cid_bytes_bounds(2) [OF assms(1,2), of algo "ch_data c"] by simp
    then show ?thesis by simp
  qed
  moreover have "manifest_data cs \<noteq> []" "length (manifest_data cs) < 2 ^ 64"
    using manifest_data_bounds [of cs] assms(3) by (auto simp: MAX_MANIFEST_CHUNKS_def)
  ultimately have "read_manifest (encode_dag_node (manifest_links h algo cs) (manifest_data cs)) =
      Some (map read_link (manifest_links h algo cs), read_unixfs (manifest_data cs))"
    by (intro read_manifest_encoded) auto
  moreover have "map read_link (manifest_links h algo cs) =
      map (\<lambda>c. Some (raw_cid_bytes h algo (ch_data c), length (ch_data c))) cs"
    using size by (simp add: manifest_links_def read_link_encoded [OF cid])
  moreover have "read_unixfs (manifest_data cs) = Some (length (concat (map ch_data cs)), map (length \<circ> ch_data) cs)"
    using size by (simp only: manifest_data_def Let_def read_unixfs_encoded sum_list_sizes [OF assms(4)]) simp
  ultimately show ?thesis by simp
qed

end
