(* ===== verification/Sdk_Client.thy ===== *)
theory Sdk_Client
  imports Sdk_Dag
begin

text \<open>
  The offline part of the client library: storage operations and batches
  (\<open>sdk/rust/src/storage.rs\<close>), the authorization estimator (\<open>authorization.rs\<close>), the
  renewal tracker (\<open>renewal.rs\<close>) and \<open>BulletinClient\<close> (\<open>client.rs\<close>). A progress
  callback is modelled by the events it receives, which are returned beside the result. The
  lemmas give what a prepared batch holds, and the effect of the tracker's operations.
\<close>

section \<open>Storage operations\<close>

record StorageOperation =
  op_data :: "u8 list"
  op_cid_config :: CidConfig
  op_wait_for :: WaitFor

definition storage_op_new :: "u8 list \<Rightarrow> StoreOptions \<Rightarrow> SdkError + StorageOperation" where
  "storage_op_new data options =
     (let cid_config = \<lparr>cc_codec = codec_code (so_cid_codec options), cc_hashing = so_hash_algorithm options\<rparr> in
      Inr \<lparr>op_data = data, op_cid_config = cid_config, op_wait_for = so_wait_for options\<rparr>)"

definition storage_op_calculate_cid :: "host \<Rightarrow> StorageOperation \<Rightarrow> SdkError + CidData" where
  "storage_op_calculate_cid h op =
     map_err (\<lambda>_. CidCalculationFailed ''Failed to calculate CID: CidError'')
       (calculate_cid h (op_data op) (op_cid_config op))"

definition storage_op_size :: "StorageOperation \<Rightarrow> nat" where
  "storage_op_size op = length (op_data op)"

definition storage_op_validate :: "StorageOperation \<Rightarrow> SdkError + unit" where
  "storage_op_validate op =
     (if op_data op = [] then Inl EmptyData
      else if MAX_CHUNK_SIZE < length (op_data op) then Inl (ChunkTooLarge (of_nat (length (op_data op))))
      else Inr ())"

record BatchStorageOperation =
  bo_operations :: "StorageOperation list"
  bo_wait_for :: WaitFor

text \<open>The loop of \<open>from_chunks\<close>: the first operation that does not validate ends it.\<close>

fun batch_operations :: "CidConfig \<Rightarrow> WaitFor \<Rightarrow> u8 list list \<Rightarrow> SdkError + StorageOperation list" where
  "batch_operations cc w [] = Inr []"
| "batch_operations cc w (data # rest) =
     (let op = \<lparr>op_data = data, op_cid_config = cc, op_wait_for = w\<rparr> in
      and_then (storage_op_validate op) (\<lambda>_.
      and_then (batch_operations cc w rest) (\<lambda>ops. Inr (op # ops))))"

definition batch_from_chunks :: "u8 list list \<Rightarrow> StoreOptions \<Rightarrow> SdkError + BatchStorageOperation" where
  "batch_from_chunks chunk_data options =
     (let cid_config = \<lparr>cc_codec = codec_code (so_cid_codec options), cc_hashing = so_hash_algorithm options\<rparr> in
      and_then (batch_operations cid_config (so_wait_for options) chunk_data) (\<lambda>operations.
      Inr \<lparr>bo_operations = operations, bo_wait_for = so_wait_for options\<rparr>))"

definition batch_new :: "Chunk list \<Rightarrow> StoreOptions \<Rightarrow> SdkError + BatchStorageOperation" where
  "batch_new cs options = batch_from_chunks (map ch_data cs) options"

definition batch_total_size :: "BatchStorageOperation \<Rightarrow> nat" where
  "batch_total_size b = sum_list (map storage_op_size (bo_operations b))"

fun collect_cids :: "host \<Rightarrow> StorageOperation list \<Rightarrow> SdkError + CidData list" where
  "collect_cids h [] = Inr []"
| "collect_cids h (op # ops) =
     and_then (storage_op_calculate_cid h op) (\<lambda>cd. and_then (collect_cids h ops) (\<lambda>cds. Inr (cd # cds)))"

definition batch_calculate_cids :: "host \<Rightarrow> BatchStorageOperation \<Rightarrow> SdkError + CidData list" where
  "batch_calculate_cids h b = collect_cids h (bo_operations b)"

section \<open>Authorization estimates\<close>

record SdkAuthorization =
  sa_scope :: SdkScope
  sa_transactions :: u32
  sa_max_size :: u64
  sa_expires_at :: "u32 option"

record AuthorizationManager =
  am_default_scope :: SdkScope
  am_auto_refresh :: bool

definition AuthorizationManager_default :: AuthorizationManager where
  "AuthorizationManager_default = \<lparr>am_default_scope = SdkAccount, am_auto_refresh = False\<rparr>"

definition with_account_auth :: AuthorizationManager where
  "with_account_auth = \<lparr>am_default_scope = SdkAccount, am_auto_refresh = False\<rparr>"

definition with_preimage_auth :: AuthorizationManager where
  "with_preimage_auth = \<lparr>am_default_scope = SdkPreimage, am_auto_refresh = False\<rparr>"

definition with_auto_refresh :: "bool \<Rightarrow> AuthorizationManager \<Rightarrow> AuthorizationManager" where
  "with_auto_refresh enabled m = m\<lparr>am_auto_refresh := enabled\<rparr>"

definition manager_check_authorization :: "SdkAuthorization \<Rightarrow> u64 \<Rightarrow> u32 \<Rightarrow> SdkError + unit" where
  "manager_check_authorization available required_size num_transactions =
     (if sa_transactions available < num_transactions
      then Inl (InsufficientAuthorization (u32_to_u64 num_transactions) (u32_to_u64 (sa_transactions available)))
      else if sa_max_size available < required_size
      then Inl (InsufficientAuthorization required_size (sa_max_size available))
      else Inr ())"

definition calculate_requirements :: "u64 \<Rightarrow> nat \<Rightarrow> bool \<Rightarrow> u32 \<times> u64" where
  "calculate_requirements total_size n include_manifest =
     (let transactions = (if n < 2 ^ 32 then of_nat n else - 1) in
      if include_manifest
      then let manifest_estimate = sat_add (sat_mul (of_nat n) 10) 1000 in
        (sat_add transactions 1, sat_add total_size manifest_estimate)
      else (transactions, total_size))"

definition estimate_authorization :: "u64 \<Rightarrow> bool \<Rightarrow> u32 \<times> u64" where
  "estimate_authorization data_size create_manifest =
     (let n = (if data_size = 0 then 1 else div_ceil (unat data_size) DEFAULT_CHUNK_SIZE) in
      calculate_requirements data_size n create_manifest)"

section \<open>Renewals\<close>

record RenewalOperation =
  ro_storage_ref :: StorageRef

definition renewal_op_from_raw :: "u32 \<Rightarrow> u32 \<Rightarrow> RenewalOperation" where
  "renewal_op_from_raw block index = \<lparr>ro_storage_ref = \<lparr>sr_block = block, sr_index = index\<rparr>\<rparr>"

definition renewal_op_validate :: "RenewalOperation \<Rightarrow> SdkError + unit" where
  "renewal_op_validate op =
     (if sr_block (ro_storage_ref op) = 0 then Inl (RenewalFailed ''Block 0 is not a valid renewal target'')
      else Inr ())"

record TrackedEntry =
  te_storage_ref :: StorageRef
  te_content_hash :: "u8 list"
  te_size :: u64
  te_expires_at :: u32

record RenewalTracker =
  rt_entries :: "TrackedEntry list"

definition tracker_new :: RenewalTracker where
  "tracker_new = \<lparr>rt_entries = []\<rparr>"

definition track :: "StorageRef \<Rightarrow> u8 list \<Rightarrow> u64 \<Rightarrow> u32 \<Rightarrow> RenewalTracker \<Rightarrow> RenewalTracker" where
  "track storage_ref content_hash sz retention_period t =
     (let expires_at = sat_add (sr_block storage_ref) retention_period in
      t\<lparr>rt_entries := rt_entries t @ [\<lparr>te_storage_ref = storage_ref, te_content_hash = content_hash,
          te_size = sz, te_expires_at = expires_at\<rparr>]\<rparr>)"

text \<open>The loop of \<open>update_after_renewal\<close>: the first entry with the old reference.\<close>

fun update_first :: "StorageRef \<Rightarrow> StorageRef \<Rightarrow> u32 \<Rightarrow> TrackedEntry list \<Rightarrow> bool \<times> TrackedEntry list" where
  "update_first old_ref new_ref retention_period [] = (False, [])"
| "update_first old_ref new_ref retention_period (e # es) =
     (if sr_block (te_storage_ref e) = sr_block old_ref \<and> sr_index (te_storage_ref e) = sr_index old_ref
      then (True, e\<lparr>te_storage_ref := new_ref, te_expires_at := sat_add (sr_block new_ref) retention_period\<rparr> # es)
      else let (found, es') = update_first old_ref new_ref retention_period es in (found, e # es'))"

definition update_after_renewal ::
    "StorageRef \<Rightarrow> StorageRef \<Rightarrow> u32 \<Rightarrow> RenewalTracker \<Rightarrow> bool \<times> RenewalTracker" where
  "update_after_renewal old_ref new_ref retention_period t =
     (let (found, es) = update_first old_ref new_ref retention_period (rt_entries t) in
      (found, t\<lparr>rt_entries := es\<rparr>))"

definition expiring_before :: "u32 \<Rightarrow> RenewalTracker \<Rightarrow> TrackedEntry list" where
  "expiring_before block t = filter (\<lambda>e. te_expires_at e \<le> block) (rt_entries t)"

definition remove_by_content_hash :: "u8 list \<Rightarrow> RenewalTracker \<Rightarrow> bool \<times> RenewalTracker" where
  "remove_by_content_hash content_hash t =
     (let initial_len = length (rt_entries t);
          es = filter (\<lambda>e. te_content_hash e \<noteq> content_hash) (rt_entries t) in
      (length es \<noteq> initial_len, t\<lparr>rt_entries := es\<rparr>))"

definition tracker_clear :: "RenewalTracker \<Rightarrow> RenewalTracker" where
  "tracker_clear t = t\<lparr>rt_entries := []\<rparr>"

section \<open>The client\<close>

record ClientConfig =
  cl_default_chunk_size :: u32
  cl_max_parallel :: u32
  cl_create_manifest :: bool

definition ClientConfig_default :: ClientConfig where
  "ClientConfig_default =
     \<lparr>cl_default_chunk_size = 1024 * 1024, cl_max_parallel = 8, cl_create_manifest = True\<rparr>"

record BulletinClient =
  bc_config :: ClientConfig
  bc_auth_manager :: AuthorizationManager

definition client_new :: BulletinClient where
  "client_new = \<lparr>bc_config = ClientConfig_default, bc_auth_manager = AuthorizationManager_default\<rparr>"

definition with_config :: "ClientConfig \<Rightarrow> BulletinClient" where
  "with_config config = \<lparr>bc_config = config, bc_auth_manager = AuthorizationManager_default\<rparr>"

definition with_auth_manager :: "AuthorizationManager \<Rightarrow> BulletinClient \<Rightarrow> BulletinClient" where
  "with_auth_manager m client = client\<lparr>bc_auth_manager := m\<rparr>"

definition prepare_store :: "u8 list \<Rightarrow> StoreOptions \<Rightarrow> SdkError + StorageOperation" where
  "prepare_store data options =
     and_then (storage_op_new data options) (\<lambda>op. and_then (storage_op_validate op) (\<lambda>_. Inr op))"

definition client_estimate :: "BulletinClient \<Rightarrow> u64 \<Rightarrow> u32 \<times> u64" where
  "client_estimate client data_size = estimate_authorization data_size (cl_create_manifest (bc_config client))"

definition prepare_renew :: "StorageRef \<Rightarrow> SdkError + RenewalOperation" where
  "prepare_renew storage_ref =
     (let op = \<lparr>ro_storage_ref = storage_ref\<rparr> in and_then (renewal_op_validate op) (\<lambda>_. Inr op))"

definition prepare_renew_raw :: "u32 \<Rightarrow> u32 \<Rightarrow> SdkError + RenewalOperation" where
  "prepare_renew_raw block index = prepare_renew \<lparr>sr_block = block, sr_index = index\<rparr>"

text \<open>The manifest step of \<open>prepare_store_chunked\<close>, with the events it reports when \<open>cb\<close> says
  that a callback is registered.\<close>

definition manifest_step ::
    "host \<Rightarrow> bool \<Rightarrow> Chunk list \<Rightarrow> HashingAlgorithm \<Rightarrow> ProgressEvent list \<times> (SdkError + u8 list)" where
  "manifest_step h cb cs algo =
     (let started = (if cb then [ChunkEvent ManifestStarted] else []) in
      case build h cs algo of
        Inl e \<Rightarrow> (started, Inl e)
      | Inr manifest \<Rightarrow>
          if cb then
            (case cid_data_to_bytes h (dm_root_cid manifest) of
               None \<Rightarrow> (started, Inl (DagEncodingFailed ''Failed to convert manifest CID to bytes''))
             | Some cid_bytes \<Rightarrow> (started @ [ChunkEvent (ManifestCreated cid_bytes)], Inr (dm_dag_bytes manifest)))
          else (started, Inr (dm_dag_bytes manifest)))"

definition prepare_store_chunked ::
    "host \<Rightarrow> BulletinClient \<Rightarrow> u8 list \<Rightarrow> ChunkerConfig option \<Rightarrow> StoreOptions \<Rightarrow> bool
      \<Rightarrow> ProgressEvent list \<times> (SdkError + (BatchStorageOperation \<times> u8 list option))" where
  "prepare_store_chunked h client data config options cb =
     (if data = [] then ([], Inl EmptyData)
      else
        let chunker_config = (case config of Some c \<Rightarrow> c
              | None \<Rightarrow> \<lparr>ck_chunk_size = cl_default_chunk_size (bc_config client),
                         ck_max_parallel = cl_max_parallel (bc_config client),
                         ck_create_manifest = cl_create_manifest (bc_config client)\<rparr>) in
        case and_then (fixed_new chunker_config) (\<lambda>c. fixed_chunk c data) of
          Inl e \<Rightarrow> ([], Inl e)
        | Inr cs \<Rightarrow>
            let started = (if cb then [ChunkEvent (ChunkStarted 0 (of_nat (length cs)))] else []);
                (ev, manifest) = (if ck_create_manifest chunker_config
                  then let (ev, m) = manifest_step h cb cs (so_hash_algorithm options) in (ev, map_ok Some m)
                  else ([], Inr None)) in
            (started @ ev,
             and_then manifest (\<lambda>manifest_data.
             and_then (batch_from_chunks (map ch_data cs) options) (\<lambda>batch.
             Inr (batch, manifest_data)))))"

section \<open>Batches\<close>

lemma batch_operations_iff:
  "batch_operations cc w ds = Inr ops \<longleftrightarrow>
     (\<forall>d \<in> set ds. d \<noteq> [] \<and> length d \<le> MAX_CHUNK_SIZE)
     \<and> ops = map (\<lambda>d. \<lparr>op_data = d, op_cid_config = cc, op_wait_for = w\<rparr>) ds"
  by (induction ds arbitrary: ops) (auto simp: res_simps storage_op_validate_def Let_def not_less split: if_splits)

lemma batch_from_chunks_Inr:
  "batch_from_chunks ds options = Inr b \<longleftrightarrow>
     (\<forall>d \<in> set ds. d \<noteq> [] \<and> length d \<le> MAX_CHUNK_SIZE)
     \<and> b = \<lparr>bo_operations = map (\<lambda>d. \<lparr>op_data = d, op_cid_config =
           \<lparr>cc_codec = codec_code (so_cid_codec options), cc_hashing = so_hash_algorithm options\<rparr>,
           op_wait_for = so_wait_for options\<rparr>) ds, bo_wait_for = so_wait_for options\<rparr>"
  by (auto simp: batch_from_chunks_def res_simps batch_operations_iff Let_def)

lemma batch_cids:
  assumes "multihash_wrap_spec h" and "hash_len_spec h" and "batch_from_chunks ds options = Inr b"
  shows "batch_calculate_cids h b = Inr (map (\<lambda>d. \<lparr>cd_content_hash = hash_with h (so_hash_algorithm options) d,
    cd_hashing = so_hash_algorithm options, cd_codec = codec_code (so_cid_codec options)\<rparr>) ds)"
proof -
  have "collect_cids h ops = Inr (map (\<lambda>op. \<lparr>cd_content_hash = hash_with h (cc_hashing (op_cid_config op)) (op_data op),
      cd_hashing = cc_hashing (op_cid_config op), cd_codec = cc_codec (op_cid_config op)\<rparr>) ops)" for ops
    by (induction ops) (simp_all add: storage_op_calculate_cid_def calculate_cid_eq [OF assms(1,2)])
  then show ?thesis using assms(3) by (simp add: batch_calculate_cids_def batch_from_chunks_Inr comp_def)
qed

section \<open>Chunked uploads\<close>

definition chosen_config :: "BulletinClient \<Rightarrow> ChunkerConfig option \<Rightarrow> ChunkerConfig" where
  "chosen_config client config = (case config of Some c \<Rightarrow> c
     | None \<Rightarrow> \<lparr>ck_chunk_size = cl_default_chunk_size (bc_config client),
                ck_max_parallel = cl_max_parallel (bc_config client),
                ck_create_manifest = cl_create_manifest (bc_config client)\<rparr>)"

lemma manifest_step_ok:
  assumes "multihash_wrap_spec h" and "hash_len_spec h" and "cs \<noteq> []" and "length cs \<le> MAX_MANIFEST_CHUNKS"
  shows "snd (manifest_step h cb cs algo) = Inr (encode_dag_node (manifest_links h algo cs) (manifest_data cs))"
  by (simp add: manifest_step_def build_eq [OF assms] cid_data_to_bytes_def cid_try_from_ok [OF assms(1)]
      length_hash_with [OF assms(2)])

text \<open>Preparing an upload succeeds for files of an admissible size cut with an admissible chunk
  size, unless there are too many chunks for a manifest; the callback does not change the outcome.\<close>

lemma prepare_store_chunked_ok:
  assumes spec: "multihash_wrap_spec h" "hash_len_spec h"
    and new: "fixed_new (chosen_config client config) = Inr c" and chunk: "fixed_chunk c data = Inr cs"
    and len: "length cs \<le> MAX_MANIFEST_CHUNKS"
  shows "\<exists>b. snd (prepare_store_chunked h client data config options cb) =
      Inr (b, if ck_create_manifest (chosen_config client config)
        then Some (encode_dag_node (manifest_links h (so_hash_algorithm options) cs) (manifest_data cs)) else None)
    \<and> batch_from_chunks (map ch_data cs) options = Inr b"
proof -
  have u: "fixed_usable c" using new unfolding fixed_new_Inr by blast
  have data: "data \<noteq> []" using chunk by (auto simp: fixed_chunk_def)
  have cs: "cs \<noteq> []" using fixed.counted [OF u chunk] by simp
  obtain b where b: "batch_from_chunks (map ch_data cs) options = Inr b"
    using fixed.sized [OF u chunk] by (auto simp: batch_from_chunks_Inr)
  moreover have "snd (prepare_store_chunked h client data config options cb) =
      Inr (b, if ck_create_manifest (chosen_config client config)
        then Some (encode_dag_node (manifest_links h (so_hash_algorithm options) cs) (manifest_data cs)) else None)"
    unfolding prepare_store_chunked_def Let_def chosen_config_def [symmetric]
    using data new chunk b manifest_step_ok [OF spec cs len, of cb "so_hash_algorithm options"]
    by (simp add: case_prod_unfold)
  ultimately show ?thesis by blast
qed

section \<open>Estimates and the tracker\<close>

text \<open>For files the chunker accepts the estimate is exact in the number of transactions.\<close>

lemma estimate_eq:
  assumes "0 < n" and "n \<le> MAX_FILE_SIZE"
  shows "unat (fst (estimate_authorization (of_nat n) m)) = div_ceil n DEFAULT_CHUNK_SIZE + (if m then 1 else 0)"
    and "unat (snd (estimate_authorization (of_nat n) m)) =
      n + (if m then 10 * div_ceil n DEFAULT_CHUNK_SIZE + 1000 else 0)"
proof -
  have n: "unat (of_nat n :: u64) = n" using assms by (simp add: MAX_FILE_SIZE_def unat_of_nat_u64)
  with assms(1) have nz: "(of_nat n :: u64) \<noteq> 0" by (metis less_numeral_extra(3) unsigned_0)
  have d: "div_ceil n DEFAULT_CHUNK_SIZE \<le> 65"
    using assms(2) div_le_mono [of n MAX_FILE_SIZE DEFAULT_CHUNK_SIZE]
    by (simp add: div_ceil_def MAX_FILE_SIZE_def DEFAULT_CHUNK_SIZE_def)
  then have k: "unat (of_nat (div_ceil n DEFAULT_CHUNK_SIZE) :: u32) = div_ceil n DEFAULT_CHUNK_SIZE"
    "unat (of_nat (div_ceil n DEFAULT_CHUNK_SIZE) :: u64) = div_ceil n DEFAULT_CHUNK_SIZE"
    by (simp_all add: unat_of_nat_u32 unat_of_nat_u64)
  have e: "estimate_authorization (of_nat n) m = calculate_requirements (of_nat n) (div_ceil n DEFAULT_CHUNK_SIZE) m"
    using n nz by (simp add: estimate_authorization_def)
  show "unat (fst (estimate_authorization (of_nat n) m)) = div_ceil n DEFAULT_CHUNK_SIZE + (if m then 1 else 0)"
    using d k by (simp add: e calculate_requirements_def Let_def unat_sat_add)
  show "unat (snd (estimate_authorization (of_nat n) m)) =
      n + (if m then 10 * div_ceil n DEFAULT_CHUNK_SIZE + 1000 else 0)"
    using d k n assms(2) by (simp add: e calculate_requirements_def Let_def unat_sat_add unat_sat_mul MAX_FILE_SIZE_def)
qed

lemma update_first_found:
  "fst (update_first old new p es) \<longleftrightarrow> (\<exists>e \<in> set es. te_storage_ref e = old)"
proof (induction es)
  case (Cons e es)
  have "te_storage_ref e = old \<longleftrightarrow>
      sr_block (te_storage_ref e) = sr_block old \<and> sr_index (te_storage_ref e) = sr_index old"
    by (auto intro: StorageRef.equality)
  with Cons show ?case by (auto simp: case_prod_unfold)
qed simp

text \<open>An invariant of the tracker: with one retention period, every entry expires that many blocks
  after the block it refers to.\<close>

definition tracks :: "u32 \<Rightarrow> RenewalTracker \<Rightarrow> bool" where
  "tracks p t \<longleftrightarrow> (\<forall>e \<in> set (rt_entries t). te_expires_at e = sat_add (sr_block (te_storage_ref e)) p)"

lemma update_first_tracks:
  "\<forall>e \<in> set es. te_expires_at e = sat_add (sr_block (te_storage_ref e)) p \<Longrightarrow>
   \<forall>e \<in> set (snd (update_first old new p es)). te_expires_at e = sat_add (sr_block (te_storage_ref e)) p"
  by (induction es) (auto simp: case_prod_unfold Let_def)

lemma tracker_keeps:
  "tracks p tracker_new" "tracks p t \<Longrightarrow> tracks p (track r c n p t)"
  "tracks p t \<Longrightarrow> tracks p (snd (update_after_renewal old new p t))"
  "tracks p t \<Longrightarrow> tracks p (snd (remove_by_content_hash c t))" "tracks p (tracker_clear t)"
  using update_first_tracks [of "rt_entries t" p old new]
  by (auto simp: tracks_def tracker_new_def track_def update_after_renewal_def remove_by_content_hash_def
      tracker_clear_def case_prod_unfold Let_def)

end
