(* ===== verification/Sdk_Transaction.thy ===== *)
theory Sdk_Transaction
  imports Sdk_Client Primitives
begin

text \<open>
  The submission layer of the client library (\<open>sdk/rust/src/transaction.rs\<close>). What the node
  answers is data: the status stream of a submitted transaction is the list of its items, each with
  what the code asks about the block it names, and a storage read is the bytes found. The loop of
  \<open>submit_and_watch\<close> is a function on that list, with the events the callback receives. The
  lemmas say which item of the stream decides the result.
\<close>

section \<open>The status stream\<close>

text \<open>The block of a status: its hash and the extrinsic's, the number that \<open>get_block_number\<close>
  finds for it, and what \<open>wait_for_success\<close> returns.\<close>

record TxInBlock =
  ib_block_hash :: string
  ib_extrinsic_hash :: string
  ib_number :: "u32 option"
  ib_success :: "string + unit"

datatype TxStatus =
    StValidated
  | StBroadcasted
  | StInBestBlock TxInBlock
  | StInFinalizedBlock TxInBlock
  | StNoLongerInBestBlock
  | StInvalid string
  | StDropped string
  | StError string

record SubmitResult =
  su_block_hash :: string
  su_extrinsic_hash :: string

definition notify :: "bool \<Rightarrow> TransactionStatusEvent \<Rightarrow> ProgressEvent list" where
  "notify cb e = (if cb then [TransactionEvent e] else [])"

definition emit :: "ProgressEvent list \<Rightarrow> ProgressEvent list \<times> 'a \<Rightarrow> ProgressEvent list \<times> 'a" where
  "emit ev r = (ev @ fst r, snd r)"

definition watch_result ::
    "(string \<Rightarrow> SdkError) \<Rightarrow> string option \<Rightarrow> string option \<Rightarrow> SdkError + SubmitResult" where
  "watch_result make_error block_hash extrinsic_hash =
     (case (block_hash, extrinsic_hash) of
        (Some b, Some x) \<Rightarrow> Inr \<lparr>su_block_hash = b, su_extrinsic_hash = x\<rparr>
      | _ \<Rightarrow> Inl (make_error ''Transaction stream ended without block inclusion''))"

fun watch ::
    "WaitFor \<Rightarrow> bool \<Rightarrow> (string \<Rightarrow> SdkError) \<Rightarrow> string option \<Rightarrow> string option \<Rightarrow> (string + TxStatus) list
      \<Rightarrow> ProgressEvent list \<times> (SdkError + SubmitResult)" where
  "watch w cb make_error b x [] = ([], watch_result make_error b x)"
| "watch w cb make_error b x (Inl e # rest) = ([], Inl (make_error (''Status error: '' @ e)))"
| "watch w cb make_error b x (Inr st # rest) = (case st of
     StValidated \<Rightarrow> emit (notify cb TxValidated) (watch w cb make_error b x rest)
   | StBroadcasted \<Rightarrow> emit (notify cb TxBroadcasted) (watch w cb make_error b x rest)
   | StInBestBlock ib \<Rightarrow>
       let b' = Some (ib_block_hash ib); x' = Some (ib_extrinsic_hash ib) in
       emit (notify cb (TxInBestBlock (ib_block_hash ib) (ib_number ib) None))
         (if w = WaitInBlock
          then ([], and_then (map_err (\<lambda>e. make_error (''Transaction failed: '' @ e)) (ib_success ib))
                      (\<lambda>_. watch_result make_error b' x'))
          else watch w cb make_error b' x' rest)
   | StInFinalizedBlock ib \<Rightarrow>
       let b' = Some (ib_block_hash ib); x' = Some (ib_extrinsic_hash ib) in
       emit (notify cb (TxFinalized (ib_block_hash ib) (ib_number ib) None))
         ([], and_then (map_err (\<lambda>e. make_error (''Transaction failed: '' @ e)) (ib_success ib))
                (\<lambda>_. watch_result make_error b' x'))
   | StNoLongerInBestBlock \<Rightarrow> emit (notify cb TxNoLongerInBestBlock) (watch w cb make_error b x rest)
   | StInvalid message \<Rightarrow>
       (notify cb (TxInvalid message), Inl (make_error (''Transaction invalid: '' @ message)))
   | StDropped message \<Rightarrow>
       (notify cb (TxDropped message), Inl (make_error (''Transaction dropped: '' @ message)))
   | StError message \<Rightarrow> ([], Inl (make_error (''Transaction error: '' @ message))))"

text \<open>\<open>submitted\<close> is what \<open>submit_at_best_block\<close> returns: an error, or the stream.\<close>

definition submit_and_watch ::
    "SdkError + (string + TxStatus) list \<Rightarrow> WaitFor \<Rightarrow> bool \<Rightarrow> (string \<Rightarrow> SdkError)
      \<Rightarrow> ProgressEvent list \<times> (SdkError + SubmitResult)" where
  "submit_and_watch submitted w cb make_error =
     (case submitted of Inl e \<Rightarrow> ([], Inl e) | Inr stream \<Rightarrow> watch w cb make_error None None stream)"

section \<open>The authorization query\<close>

record StoredAuthorization =
  st_transactions :: u32
  st_transactions_allowance :: u32
  st_bytes :: u64
  st_extra :: u64
  st_bytes_allowance :: u64
  st_expiration :: u32

text \<open>The derived \<open>Decode\<close>: six integers one after the other; bytes that follow are ignored.\<close>

definition decode_stored_authorization :: "u8 list \<Rightarrow> StoredAuthorization option" where
  "decode_stored_authorization bs =
     (if length bs < 36 then None
      else Some \<lparr>st_transactions = from_le (take 4 bs), st_transactions_allowance = from_le (take 4 (drop 4 bs)),
        st_bytes = from_le (take 8 (drop 8 bs)), st_extra = from_le (take 8 (drop 16 bs)),
        st_bytes_allowance = from_le (take 8 (drop 24 bs)), st_expiration = from_le (take 4 (drop 32 bs))\<rparr>)"

text \<open>\<open>latest\<close> is what the calls to the node give: the error of the one that failed (encoding the
  key, finding the latest block, reading it), or that block's number and the raw value under the
  authorization's key. \<open>decode_error\<close> is the codec's error text, which the code only reports.\<close>

definition query_account_authorization ::
    "string \<Rightarrow> string + (u32 \<times> u8 list option) \<Rightarrow> SdkError + (u32 \<times> u64) option" where
  "query_account_authorization decode_error latest =
     and_then (map_err NetworkError latest) (\<lambda>(current_block_number, maybe_auth).
     case maybe_auth of
       None \<Rightarrow> Inr None
     | Some bytes \<Rightarrow>
         and_then (ok_or (decode_stored_authorization bytes)
           (NetworkError (''Failed to decode authorization: '' @ decode_error))) (\<lambda>auth.
         if st_expiration auth \<le> current_block_number then Inr None
         else Inr (Some (sat_sub (st_transactions_allowance auth) (st_transactions auth),
                         sat_sub (st_bytes_allowance auth) (st_bytes auth)))))"

definition check_authorization_for_store ::
    "SdkError + (u32 \<times> u64) option \<Rightarrow> string \<Rightarrow> u32 \<Rightarrow> u64 \<Rightarrow> SdkError + unit" where
  "check_authorization_for_store query who required_transactions required_bytes =
     and_then query (\<lambda>auth_data.
     case auth_data of
       Some (transactions, bytes) \<Rightarrow>
         manager_check_authorization
           \<lparr>sa_scope = SdkAccount, sa_transactions = transactions, sa_max_size = bytes, sa_expires_at = None\<rparr>
           required_bytes required_transactions
     | None \<Rightarrow> Inl (AuthNotFound who))"

section \<open>Transactions\<close>

record StoreReceipt =
  rc_block_hash :: string
  rc_extrinsic_hash :: string
  rc_data_size :: u64

definition store_with_progress ::
    "SdkError + (u32 \<times> u64) option \<Rightarrow> string \<Rightarrow> SdkError + (string + TxStatus) list \<Rightarrow> u8 list \<Rightarrow> WaitFor \<Rightarrow> bool
      \<Rightarrow> ProgressEvent list \<times> (SdkError + StoreReceipt)" where
  "store_with_progress query who submitted data w cb =
     (let data_size = of_nat (length data) in
      case check_authorization_for_store query who 1 data_size of
        Inl e \<Rightarrow> ([], Inl e)
      | Inr _ \<Rightarrow>
          let (ev, res) = submit_and_watch submitted w cb (\<lambda>e. StorageFailed (''Store failed: '' @ e)) in
          (ev, and_then res (\<lambda>result. Inr \<lparr>rc_block_hash = su_block_hash result,
             rc_extrinsic_hash = su_extrinsic_hash result, rc_data_size = data_size\<rparr>)))"

definition client_store ::
    "SdkError + (u32 \<times> u64) option \<Rightarrow> string \<Rightarrow> SdkError + (string + TxStatus) list \<Rightarrow> u8 list \<Rightarrow> WaitFor
      \<Rightarrow> SdkError + StoreReceipt" where
  "client_store query who submitted data w = snd (store_with_progress query who submitted data w False)"

record AuthorizationReceipt =
  ar_account :: AccountId
  ar_transactions :: u32
  ar_bytes :: u64
  ar_block_hash :: string

definition client_authorize_account ::
    "SdkError + (string + TxStatus) list \<Rightarrow> AccountId \<Rightarrow> u32 \<Rightarrow> u64 \<Rightarrow> WaitFor \<Rightarrow> SdkError + AuthorizationReceipt" where
  "client_authorize_account submitted who transactions bytes w =
     and_then (snd (submit_and_watch submitted w False (\<lambda>e. TransactionFailed (''Authorization failed: '' @ e))))
       (\<lambda>result. Inr \<lparr>ar_account = who, ar_transactions = transactions, ar_bytes = bytes,
          ar_block_hash = su_block_hash result\<rparr>)"

record PreimageAuthorizationReceipt =
  pa_content_hash :: ContentHash
  pa_max_size :: u64
  pa_block_hash :: string

definition client_authorize_preimage ::
    "SdkError + (string + TxStatus) list \<Rightarrow> ContentHash \<Rightarrow> u64 \<Rightarrow> WaitFor \<Rightarrow> SdkError + PreimageAuthorizationReceipt" where
  "client_authorize_preimage submitted content_hash max_size w =
     and_then (snd (submit_and_watch submitted w False (\<lambda>e. TransactionFailed (''Authorization failed: '' @ e))))
       (\<lambda>result. Inr \<lparr>pa_content_hash = content_hash, pa_max_size = max_size, pa_block_hash = su_block_hash result\<rparr>)"

record RenewReceipt =
  rr_entry :: TransactionRef
  rr_block_hash :: string

definition client_renew ::
    "SdkError + (string + TxStatus) list \<Rightarrow> TransactionRef \<Rightarrow> WaitFor \<Rightarrow> SdkError + RenewReceipt" where
  "client_renew submitted entry w =
     and_then (snd (submit_and_watch submitted w False (\<lambda>e. RenewalFailed (''Renew failed: '' @ e))))
       (\<lambda>result. Inr \<lparr>rr_entry = entry, rr_block_hash = su_block_hash result\<rparr>)"

definition client_force_renew ::
    "SdkError + (string + TxStatus) list \<Rightarrow> TransactionRef \<Rightarrow> WaitFor \<Rightarrow> SdkError + RenewReceipt" where
  "client_force_renew submitted entry w =
     and_then (snd (submit_and_watch submitted w False (\<lambda>e. RenewalFailed (''Force renew failed: '' @ e))))
       (\<lambda>result. Inr \<lparr>rr_entry = entry, rr_block_hash = su_block_hash result\<rparr>)"

definition client_refresh_account_authorization ::
    "SdkError + (string + TxStatus) list \<Rightarrow> WaitFor \<Rightarrow> SdkError + unit" where
  "client_refresh_account_authorization submitted w =
     and_then (snd (submit_and_watch submitted w False (\<lambda>e. TransactionFailed (''Refresh failed: '' @ e)))) (\<lambda>_. Inr ())"

definition client_refresh_preimage_authorization ::
    "SdkError + (string + TxStatus) list \<Rightarrow> WaitFor \<Rightarrow> SdkError + unit" where
  "client_refresh_preimage_authorization submitted w =
     and_then (snd (submit_and_watch submitted w False (\<lambda>e. TransactionFailed (''Refresh failed: '' @ e)))) (\<lambda>_. Inr ())"

definition client_remove_expired_account_authorization ::
    "SdkError + (string + TxStatus) list \<Rightarrow> WaitFor \<Rightarrow> SdkError + unit" where
  "client_remove_expired_account_authorization submitted w =
     and_then (snd (submit_and_watch submitted w False (\<lambda>e. TransactionFailed (''Removal failed: '' @ e)))) (\<lambda>_. Inr ())"

definition client_remove_expired_preimage_authorization ::
    "SdkError + (string + TxStatus) list \<Rightarrow> WaitFor \<Rightarrow> SdkError + unit" where
  "client_remove_expired_preimage_authorization submitted w =
     and_then (snd (submit_and_watch submitted w False (\<lambda>e. TransactionFailed (''Removal failed: '' @ e)))) (\<lambda>_. Inr ())"

section \<open>What a result means\<close>

text \<open>The statuses that end the loop, for a confirmation level.\<close>

definition confirms :: "WaitFor \<Rightarrow> TxInBlock \<Rightarrow> TxStatus \<Rightarrow> bool" where
  "confirms w ib st \<longleftrightarrow> st = StInFinalizedBlock ib \<or> (w = WaitInBlock \<and> st = StInBestBlock ib)"

lemma watch_result_Some [simp]:
  "watch_result me (Some b) (Some x) = Inr \<lparr>su_block_hash = b, su_extrinsic_hash = x\<rparr>"
  "watch_result me None None = Inl (me ''Transaction stream ended without block inclusion'')"
  by (simp_all add: watch_result_def)

lemma snd_emit [simp]: "snd (emit ev r) = snd r"
  by (simp add: emit_def)

text \<open>A success is the confirmed, successful block, or what was remembered when the stream ran dry.\<close>

lemma watch_success:
  assumes "snd (watch w cb me b x items) = Inr r"
  shows "(\<exists>ib st. Inr st \<in> set items \<and> confirms w ib st \<and> ib_success ib = Inr ()
        \<and> r = \<lparr>su_block_hash = ib_block_hash ib, su_extrinsic_hash = ib_extrinsic_hash ib\<rparr>)
    \<or> (\<exists>ib. w = WaitFinalized \<and> Inr (StInBestBlock ib) \<in> set items
        \<and> r = \<lparr>su_block_hash = ib_block_hash ib, su_extrinsic_hash = ib_extrinsic_hash ib\<rparr>)
    \<or> watch_result me b x = Inr r"
  using assms
proof (induction w cb me b x items rule: watch.induct)
  case (3 w cb me b x st rest)
  show ?case
  proof (cases st)
    case (StInBestBlock ib)
    show ?thesis
    proof (cases "w = WaitInBlock")
      case True
      with 3 StInBestBlock show ?thesis
        by (auto simp: Let_def res_simps confirms_def intro!: exI [of _ ib] exI [of _ "StInBestBlock ib"])
    next
      case False
      then have "w = WaitFinalized" by (cases w) simp_all
      with 3(3) [OF StInBestBlock refl refl False] 3(5) StInBestBlock show ?thesis
        by (fastforce simp: Let_def)
    qed
  next
    case (StInFinalizedBlock ib)
    with 3 show ?thesis
      by (auto simp: Let_def res_simps confirms_def intro!: exI [of _ ib] exI [of _ "StInFinalizedBlock ib"])
  qed (use 3 in auto)
qed auto

end
