(* ===== verification/Sdk_Properties.thy ===== *)
theory Sdk_Properties
  imports Demo Sdk_Transaction
begin

text \<open>
  Properties of the client library, alone and against the chain: cutting and reassembling files,
  manifests, prepared uploads and the entries the chain makes of them, authorization estimates and
  the preflight check, the renewal tracker, and what a reported success means.
\<close>

section \<open>A small file\<close>

lemma demo_file:
  obtains cs where "fixed_chunk fixed_default_config [7, 8, 9] = Inr cs" "length cs \<le> MAX_MANIFEST_CHUNKS"
proof -
  obtain cs where cs: "fixed_chunk fixed_default_config [7, 8, 9] = Inr cs"
    using fixed_chunk_total [of "[7, 8, 9]" fixed_default_config] by (auto simp: MAX_FILE_SIZE_def)
  moreover have "length cs \<le> MAX_MANIFEST_CHUNKS"
    using fixed_chunk_count(1) [OF fixed_default_usable cs]
    by (simp add: fixed_num_chunks_def fixed_default_config_def ChunkerConfig_default_def div_ceil_def MAX_MANIFEST_CHUNKS_def)
  ultimately show ?thesis by (rule that)
qed

section \<open>Files\<close>

text \<open>C25. Cutting a file into chunks loses nothing: every file that is not empty and at most 64 MiB is
  accepted, the number of chunks is the size divided by the chunk size, rounded up, and
  \<open>reassemble_chunks\<close> restores the file from the chunks in whatever order they arrive, once they
  are sorted by index.\<close>

theorem chunks_reassemble:
  assumes "fixed_new config = Inr c" and "data \<noteq> []" and "length data \<le> MAX_FILE_SIZE"
  shows "\<exists>cs. fixed_chunk c data = Inr cs \<and> length cs = div_ceil (length data) (unat (ck_chunk_size config))
    \<and> (\<forall>cs'. mset cs' = mset cs \<longrightarrow> reassemble_chunks (sort_key ch_index cs') = Inr data)"
proof -
  have c: "fixed_usable c" "fs_config c = config" using assms(1) fixed_new_Inr by auto
  obtain cs where cs: "fixed_chunk c data = Inr cs" using fixed_chunk_total [OF assms(2,3)] by blast
  have "length cs = div_ceil (length data) (unat (ck_chunk_size config))"
    using fixed_chunk_count(1) [OF c(1) cs] assms(2) by (simp add: fixed_num_chunks_def c(2))
  with cs fixed.reassembled_any_order [OF c(1) cs] show ?thesis by blast
qed

theorem chunks_reassemble_witness:
  "\<exists>cs. fixed_chunk \<lparr>fs_config = ChunkerConfig_default\<lparr>ck_chunk_size := 2\<rparr>\<rparr> [1, 2, 3, 4, 5] = Inr cs \<and> length cs = 3
    \<and> reassemble_chunks (sort_key ch_index (rev cs)) = Inr [1, 2, 3, 4, 5]"
proof -
  let ?config = "ChunkerConfig_default\<lparr>ck_chunk_size := 2\<rparr>"
  have "fixed_new ?config = Inr \<lparr>fs_config = ?config\<rparr>"
    by (simp add: fixed_new_def MAX_CHUNK_SIZE_def word_less_nat_alt)
  from chunks_reassemble [OF this, of "[1, 2, 3, 4, 5]"] show ?thesis
    by (auto simp: MAX_FILE_SIZE_def div_ceil_def)
qed



section \<open>Uploads\<close>

text \<open>C24. What the client prepares, the chain stores. A prepared chunked upload holds the whole file, cut
  into pieces in order; every piece passes the size check of both runtimes, and when the chain stores
  a piece with the prepared hashing and codec, the entry has the content hash of the CID that the
  client computed for it.\<close>

theorem prepared_upload_storable:
  assumes "multihash_wrap_spec h" and "hash_len_spec h"
    and "snd (prepare_store_chunked h client data config options cb) = Inr (b, m)"
  shows "concat (map op_data (bo_operations b)) = data
    \<and> (\<forall>op \<in> set (bo_operations b).
        data_size_ok (westend_config rp) (length (op_data op)) \<and> data_size_ok (paseo_config ids rp) (length (op_data op))
        \<and> (\<exists>cid. storage_op_calculate_cid h op = Inr cid
          \<and> (\<forall>s s'. do_store cfg h (op_data op) (cc_hashing (op_cid_config op)) (cc_codec (op_cid_config op)) s = Inr s' \<longrightarrow>
              ti_content_hash (last (BlockTransactions s')) = cd_content_hash cid)))"
proof -
  obtain c cs where c: "fixed_new (chosen_config client config) = Inr c" "fixed_chunk c data = Inr cs"
    and b: "batch_from_chunks (map ch_data cs) options = Inr b"
    using assms(3) by (auto simp: prepare_store_chunked_def chosen_config_def Let_def res_simps case_prod_unfold
        split: if_splits sum.splits)
  have u: "fixed_usable c" using c(1) fixed_new_Inr by blast
  have ops: "\<forall>d \<in> set (map ch_data cs). d \<noteq> [] \<and> length d \<le> MAX_CHUNK_SIZE"
    "map op_data (bo_operations b) = map ch_data cs"
    using b by (auto simp: batch_from_chunks_Inr comp_def)
  have "data_size_ok (westend_config rp) (length (op_data op)) \<and> data_size_ok (paseo_config ids rp) (length (op_data op))"
    if "op \<in> set (bo_operations b)" for op
  proof -
    have "op_data op \<in> set (map ch_data cs)" using that by (simp flip: ops(2))
    with ops(1) show ?thesis
      by (auto simp: data_size_ok_def westend_config_def paseo_config_def MAX_CHUNK_SIZE_def)
  qed
  moreover have "\<exists>cid. storage_op_calculate_cid h op = Inr cid
      \<and> (\<forall>s s'. do_store cfg h (op_data op) (cc_hashing (op_cid_config op)) (cc_codec (op_cid_config op)) s = Inr s' \<longrightarrow>
          ti_content_hash (last (BlockTransactions s')) = cd_content_hash cid)" for op
    using do_store_Inr [of cfg h "op_data op" "cc_hashing (op_cid_config op)" "cc_codec (op_cid_config op)"]
    by (fastforce simp: storage_op_calculate_cid_def calculate_cid_eq [OF assms(1,2)] stored_entry_def entry_at_def)
  ultimately show ?thesis using fixed.complete [OF u c(2)] ops(2) by simp
qed

theorem prepared_upload_storable_witness:
  "\<exists>b m. snd (prepare_store_chunked demo_host client_new [7, 8, 9] None StoreOptions_default True) = Inr (b, m)
    \<and> concat (map op_data (bo_operations b)) = [7, 8, 9]"
proof -
  have "fixed_new (chosen_config client_new None) = Inr fixed_default_config"
    using fixed_default_usable
    by (simp add: fixed_new_Inr fixed_default_config_def chosen_config_def client_new_def ClientConfig_default_def
        ChunkerConfig_default_def)
  moreover obtain cs where "fixed_chunk fixed_default_config [7, 8, 9] = Inr cs" "length cs \<le> MAX_MANIFEST_CHUNKS"
    by (rule demo_file)
  ultimately obtain b m where
    p: "snd (prepare_store_chunked demo_host client_new [7, 8, 9] None StoreOptions_default True) = Inr (b, m)"
    using prepare_store_chunked_ok [OF demo_multihash_wrap demo_hash_len] by blast
  with prepared_upload_storable [OF demo_multihash_wrap demo_hash_len p] show ?thesis by blast
qed

text \<open>The client's authorization estimate counts the transactions of an upload with a manifest
  exactly, but not its bytes: for every file of 30 or more default-sized chunks the file and its
  manifest together are larger than the estimate, because a manifest has more than 44 bytes for each
  chunk where the estimate has 10.\<close>

lemma manifest_estimate_short:
  assumes "multihash_wrap_spec h" and "hash_len_spec h" and "cid_len_spec h"
    and "fixed_chunk fixed_default_config data = Inr cs" and "30 \<le> length cs"
  shows "\<exists>m. build h cs algo = Inr m
    \<and> unat (fst (estimate_authorization (of_nat (length data)) True)) = length cs + 1
    \<and> unat (snd (estimate_authorization (of_nat (length data)) True)) < length data + length (dm_dag_bytes m)"
proof -
  have data: "data \<noteq> []" "length data \<le> MAX_FILE_SIZE"
    using assms(4) fixed_chunk_Inr [OF fixed_default_usable] by blast+
  have n: "length cs = div_ceil (length data) DEFAULT_CHUNK_SIZE"
    using fixed_chunk_count(1) [OF fixed_default_usable assms(4)] data(1)
    by (simp add: fixed_num_chunks_def fixed_default_config_def ChunkerConfig_default_def DEFAULT_CHUNK_SIZE_def)
  have "div_ceil (length data) DEFAULT_CHUNK_SIZE \<le> Suc (MAX_FILE_SIZE div DEFAULT_CHUNK_SIZE)"
    using div_le_mono [OF data(2), of DEFAULT_CHUNK_SIZE] by (simp add: div_ceil_def)
  then have few: "length cs \<le> MAX_MANIFEST_CHUNKS"
    by (simp add: n MAX_FILE_SIZE_def DEFAULT_CHUNK_SIZE_def MAX_MANIFEST_CHUNKS_def)
  have ne: "cs \<noteq> []" using assms(5) by auto
  have "0 < length data" using data(1) by simp
  from estimate_eq [OF this data(2), of True] manifest_length [OF assms(2,3), of cs algo] assms(5)
  show ?thesis by (simp add: build_eq [OF assms(1,2) ne few] flip: n)
qed

lemma manifest_estimate_short_witness:
  "\<exists>data cs m. fixed_chunk fixed_default_config data = Inr cs \<and> length cs = 64 \<and> build demo_host cs Blake2b256 = Inr m
    \<and> unat (snd (estimate_authorization (of_nat (length data)) True)) < length data + length (dm_dag_bytes m)"
proof -
  obtain data :: "u8 list" where len: "length data = 67108864" using Ex_list_of_length by blast
  then have ne: "data \<noteq> []" by auto
  obtain cs where cs: "fixed_chunk fixed_default_config data = Inr cs"
    using fixed_chunk_total [OF ne, of fixed_default_config] len by (auto simp: MAX_FILE_SIZE_def)
  have n: "length cs = 64"
    using fixed_chunk_count(1) [OF fixed_default_usable cs] ne len
    by (simp add: fixed_num_chunks_def fixed_default_config_def ChunkerConfig_default_def div_ceil_def)
  from manifest_estimate_short [OF demo_multihash_wrap demo_hash_len demo_cid_len cs, of Blake2b256] n cs
  show ?thesis by auto
qed

section \<open>The preflight check\<close>

text \<open>The SCALE encoding of an authorization: the derived \<open>Encode\<close> of \<open>AuthorizationExtent\<close> and
  \<open>Authorization\<close>, fields in order.\<close>

definition encode_authorization :: "PermanentExtent Authorization \<Rightarrow> u8 list" where
  "encode_authorization a =
     (let e = au_extent a in
      le_bytes 4 (ae_transactions e) @ le_bytes 4 (ae_transactions_allowance e) @ le_bytes 8 (ae_bytes e)
      @ le_bytes 8 (bytes_permanent (ae_extra e)) @ le_bytes 8 (ae_bytes_allowance e) @ le_bytes 4 (au_expiration a))"

lemma decode_encode_authorization:
  "decode_stored_authorization (encode_authorization a) = Some
     \<lparr>st_transactions = ae_transactions (au_extent a), st_transactions_allowance = ae_transactions_allowance (au_extent a),
      st_bytes = ae_bytes (au_extent a), st_extra = bytes_permanent (ae_extra (au_extent a)),
      st_bytes_allowance = ae_bytes_allowance (au_extent a), st_expiration = au_expiration a\<rparr>"
  by (simp add: decode_stored_authorization_def encode_authorization_def Let_def)

text \<open>Against the bytes the chain holds, the query gives what is left of a live authorization.\<close>

lemma query_matches_chain:
  "query_account_authorization e (Inr (block_number s, map_option encode_authorization (Authorizations s (Account who))))
     = Inr (map_option (\<lambda>a. (sat_sub (ae_transactions_allowance (au_extent a)) (ae_transactions (au_extent a)),
                             sat_sub (ae_bytes_allowance (au_extent a)) (ae_bytes (au_extent a))))
         (get_active_authorization (Account who) s))"
  by (cases "Authorizations s (Account who)")
    (simp_all add: query_account_authorization_def get_active_authorization_def decode_encode_authorization
      expired_def now_def)

text \<open>C28. The client's preflight check is sound for the priority boost: if it passes on the authorization
  that the chain holds for the account, the chain gives the store, charged to that account, the full
  flat boost.\<close>

theorem preflight_boost:
  assumes "check_authorization_for_store
      (query_account_authorization e (Inr (block_number s, map_option encode_authorization (Authorizations s (Account who)))))
      name 1 (of_nat (length data)) = Inr ()"
    and "data \<noteq> []" and "length data < 2 ^ 64"
  shows "vt_priority (allowance_based_priority cfg h FlatBoost (StorageAuthorized who (Account who))
      (RC_TransactionStorage (Call_store data)) s) = ALLOWANCE_PRIORITY_BOOST"
proof -
  obtain a where a: "get_active_authorization (Account who) s = Some a"
    and t: "\<not> sat_sub (ae_transactions_allowance (au_extent a)) (ae_transactions (au_extent a)) < 1"
    and n: "\<not> sat_sub (ae_bytes_allowance (au_extent a)) (ae_bytes (au_extent a)) < of_nat (length data)"
    using assms(1) by (cases "get_active_authorization (Account who) s")
      (auto simp: query_matches_chain check_authorization_for_store_def manager_check_authorization_def split: if_splits)
  have ext: "account_authorization_extent cfg who s = au_extent a"
    using a by (auto simp: account_authorization_extent_def authorization_extent_def get_active_authorization_def
        split: option.splits if_splits)
  have pos: "0 < length data" using assms(2) by simp
  have room: "unat (ae_bytes (au_extent a)) + length data \<le> unat (ae_bytes_allowance (au_extent a))"
    "unat (ae_transactions (au_extent a)) + 1 \<le> unat (ae_transactions_allowance (au_extent a))"
    using t n assms(3) pos by (auto simp: word_less_nat_alt unat_sat_sub unat_of_nat_u64 simp del: length_greater_0_conv)
  have "ae_bytes_allowance (au_extent a) \<noteq> 0" using room(1) pos by auto
  moreover have "sat_add (ae_bytes (au_extent a)) (of_nat (length data)) \<le> ae_bytes_allowance (au_extent a)"
    "sat_add (ae_transactions (au_extent a)) 1 \<le> ae_transactions_allowance (au_extent a)"
    using room assms(3) by (simp_all add: word_le_nat_alt unat_sat_add unat_of_nat_u64 min_le_iff_disj del: min_Suc_Suc)
  ultimately show ?thesis
    by (simp add: allowance_based_priority_def ext Let_def FlatBoost_def in_budget_def)
qed

theorem preflight_boost_witness:
  "vt_priority (allowance_based_priority demo_cfg demo_host FlatBoost (StorageAuthorized [1] (Account [1]))
     (RC_TransactionStorage (Call_store [7, 8, 9])) demo_state) = ALLOWANCE_PRIORITY_BOOST"
proof (rule preflight_boost [where e = "[]" and name = "[]"])
  have "get_active_authorization (Account [1]) demo_state = Some demo_grant"
    by (simp add: get_active_authorization_def demo_grant_def expired_def now_def word_le_nat_alt)
  then show "check_authorization_for_store (query_account_authorization []
      (Inr (block_number demo_state, map_option encode_authorization (Authorizations demo_state (Account [1])))))
      [] 1 (of_nat (length [7, 8, 9 :: u8])) = Inr ()"
    by (simp only: query_matches_chain)
      (simp add: check_authorization_for_store_def manager_check_authorization_def demo_grant_def demo_extent_def
        sat_sub_def word_less_nat_alt word_le_nat_alt)
qed simp_all

section \<open>The renewal tracker\<close>



section \<open>Submission\<close>



text \<open>The second case is real: a finalised confirmation is reported although the stream ended
  after a best block whose transaction failed.\<close>

lemma unfinalized_success:
  "snd (submit_and_watch (Inr [Inr (StInBestBlock ib)]) WaitFinalized cb make_error)
     = Inr \<lparr>su_block_hash = ib_block_hash ib, su_extrinsic_hash = ib_extrinsic_hash ib\<rparr>"
  by (simp add: submit_and_watch_def Let_def)

end
