(* ===== verification/Stress_Accounts.thy ===== *)
theory Stress_Accounts
  imports Prelude
begin

text \<open>
  Accounts and error messages of the load generator (\<open>stress-test/src/accounts.rs\<close>,
  \<open>is_nonce_error\<close> of \<open>authorize.rs\<close>, \<open>TxPoolError\<close> and \<open>classify_tx_error\<close> of
  \<open>store.rs\<close>): the tracker of nonces, the derivation paths of the accounts, and the
  classification of what a node answers. Messages are strings of ASCII characters. The operations
  of the tracker take its lock for their whole body, so each is one step on the map; integer
  overflow of a nonce wraps.
\<close>

section \<open>Nonces\<close>

record NonceTracker =
  nonces :: "u8 list \<rightharpoonup> u64"

definition nonce_tracker_new :: NonceTracker where
  "nonce_tracker_new = \<lparr>nonces = Map.empty\<rparr>"

text \<open>\<open>init_from_chain\<close> and \<open>refresh\<close>, which have the same body; the argument is the answer of
  the node to \<open>account_nonce\<close>.\<close>

definition init_from_chain :: "string + u64 \<Rightarrow> u8 list \<Rightarrow> NonceTracker \<Rightarrow> string + NonceTracker" where
  "init_from_chain account_nonce who t =
     and_then account_nonce (\<lambda>nonce. Inr (t\<lparr>nonces := (nonces t)(who \<mapsto> nonce)\<rparr>))"

definition next_nonce :: "u8 list \<Rightarrow> NonceTracker \<Rightarrow> u64 \<times> NonceTracker" where
  "next_nonce who t =
     (let current = (case nonces t who of Some n \<Rightarrow> n | None \<Rightarrow> 0)
      in (current, t\<lparr>nonces := (nonces t)(who \<mapsto> current + 1)\<rparr>))"

definition rollback :: "u8 list \<Rightarrow> NonceTracker \<Rightarrow> NonceTracker" where
  "rollback who t = (case nonces t who of
       Some n \<Rightarrow> t\<lparr>nonces := (nonces t)(who \<mapsto> sat_sub n 1)\<rparr>
     | None \<Rightarrow> t)"

definition refresh :: "string + u64 \<Rightarrow> u8 list \<Rightarrow> NonceTracker \<Rightarrow> string + NonceTracker" where
  "refresh account_nonce who t =
     and_then account_nonce (\<lambda>nonce. Inr (t\<lparr>nonces := (nonces t)(who \<mapsto> nonce)\<rparr>))"

text \<open>\<open>batch_init_nonces\<close>: the queries run in any order; \<open>answers\<close> lists them in the order in
  which they complete. The result counts the answered and the failed ones.\<close>

fun batch_init_nonces :: "(u8 list \<times> (string + u64)) list \<Rightarrow> NonceTracker \<Rightarrow> (u64 \<times> u64) \<times> NonceTracker" where
  "batch_init_nonces [] t = ((0, 0), t)"
| "batch_init_nonces ((who, Inr nonce) # answers) t =
     (case batch_init_nonces answers (t\<lparr>nonces := (nonces t)(who \<mapsto> nonce)\<rparr>) of
        ((ok, failed), t') \<Rightarrow> ((ok + 1, failed), t'))"
| "batch_init_nonces ((who, Inl e) # answers) t =
     (case batch_init_nonces answers t of ((ok, failed), t') \<Rightarrow> ((ok, failed + 1), t'))"

text \<open>A caller that asks for nonces until one is not consumed.\<close>

fun take_nonces :: "nat \<Rightarrow> u8 list \<Rightarrow> NonceTracker \<Rightarrow> u64 list \<times> NonceTracker" where
  "take_nonces 0 who t = ([], t)"
| "take_nonces (Suc k) who t =
     (case next_nonce who t of (n, t1) \<Rightarrow> case take_nonces k who t1 of (ns, t2) \<Rightarrow> (n # ns, t2))"

section \<open>Derivation paths\<close>

text \<open>The secret URI of an account; \<open>SecretUri\<close> and \<open>Keypair::from_uri\<close> are code of subxt, the
  parameter \<open>from_uri\<close>.\<close>

definition derivation_uri :: "string \<Rightarrow> u32 \<Rightarrow> string" where
  "derivation_uri prefix index = ''//'' @ prefix @ ''/'' @ decimal (unat index)"

definition keypair_at_derivation_prefix :: "(string \<Rightarrow> 'k) \<Rightarrow> string \<Rightarrow> u32 \<Rightarrow> 'k" where
  "keypair_at_derivation_prefix from_uri prefix index = from_uri (derivation_uri prefix index)"

text \<open>The range \<open>a..b\<close> of \<open>u32\<close> values.\<close>

definition u32_range :: "u32 \<Rightarrow> u32 \<Rightarrow> u32 list" where
  "u32_range a b = map of_nat [unat a ..< unat b]"

definition generate_keypairs :: "(string \<Rightarrow> 'k) \<Rightarrow> u32 \<Rightarrow> string \<Rightarrow> 'k list" where
  "generate_keypairs from_uri count prefix =
     map (keypair_at_derivation_prefix from_uri prefix) (u32_range 0 count)"

section \<open>Error messages\<close>

definition to_lowercase :: "string \<Rightarrow> string" where
  "to_lowercase s = map (\<lambda>c. let n = of_char c :: nat in if 65 \<le> n \<and> n \<le> 90 then char_of (n + 32) else c) s"

fun contains :: "string \<Rightarrow> string \<Rightarrow> bool" where
  "contains [] p = (p = [])"
| "contains (c # s) p = (take (length p) (c # s) = p \<or> contains s p)"

definition is_nonce_error :: "string \<Rightarrow> bool" where
  "is_nonce_error e = (let msg = to_lowercase e in
     contains msg ''stale'' \<or> contains msg ''future'' \<or> contains msg ''outdated''
     \<or> contains msg ''priority is too low'' \<or> contains msg ''nonce too low'' \<or> contains msg ''nonce too high''
     \<or> contains msg ''transaction is outdated''
     \<or> (contains msg ''1010'' \<and> (contains msg ''stale'' \<or> contains msg ''future'')))"

datatype TxPoolError =
    PoolFull | TxDropped | AlreadyImported | StaleNonce | FutureNonce | Banned | ExhaustsResources
  | ConnectionDead | OtherError

fun metric_class :: "TxPoolError \<Rightarrow> string" where
  "metric_class PoolFull = ''pool_full''"
| "metric_class TxDropped = ''dropped''"
| "metric_class AlreadyImported = ''already_imported''"
| "metric_class StaleNonce = ''stale_nonce''"
| "metric_class FutureNonce = ''future_nonce''"
| "metric_class Banned = ''banned''"
| "metric_class ExhaustsResources = ''exhausts_resources''"
| "metric_class ConnectionDead = ''connection_dead''"
| "metric_class OtherError = ''other''"

definition classify_tx_error :: "string \<Rightarrow> TxPoolError" where
  "classify_tx_error e = (let msg = to_lowercase e in
     if contains msg ''1016'' \<or> contains msg ''immediately dropped'' \<or> contains msg ''1014''
        \<or> contains msg ''priority is too low'' then PoolFull
     else if contains msg ''transaction dropped'' \<or> contains msg ''was dropped'' then TxDropped
     else if contains msg ''1013'' \<or> contains msg ''already imported'' then AlreadyImported
     else if contains msg ''1012'' \<or> contains msg ''temporarily banned'' then Banned
     else if contains msg ''stale'' \<or> (contains msg ''1010'' \<and> contains msg ''outdated'') then StaleNonce
     else if contains msg ''1021'' \<or> (contains msg ''1010'' \<and> contains msg ''future'')
        \<or> contains msg ''will be valid in the future'' then FutureNonce
     else if contains msg ''exhaust'' then ExhaustsResources
     else if contains msg ''connection reset'' \<or> contains msg ''background task closed''
        \<or> contains msg ''connection closed'' \<or> contains msg ''broken pipe''
        \<or> contains msg ''restart required'' \<or> contains msg ''not connected''
        \<or> contains msg ''i/o error'' then ConnectionDead
     else if contains msg ''1010'' \<or> contains msg ''invalid transaction'' then StaleNonce
     else OtherError)"

section \<open>Properties\<close>

lemma contains_iff: "contains s p \<longleftrightarrow> (\<exists>a b. s = a @ p @ b)"
proof (induction s p rule: contains.induct)
  case (2 c s p)
  have "(\<exists>a b. c # s = a @ p @ b) \<longleftrightarrow> take (length p) (c # s) = p \<or> (\<exists>a b. s = a @ p @ b)" (is "?l \<longleftrightarrow> ?t \<or> ?r")
  proof
    assume ?l
    then obtain a b where ab: "c # s = a @ p @ b" by blast
    show "?t \<or> ?r"
    proof (cases a)
      case Nil
      with ab show ?thesis by simp
    next
      case (Cons _ a')
      with ab show ?thesis by auto
    qed
  next
    assume "?t \<or> ?r"
    then show ?l
    proof
      assume ?t
      then have "c # s = [] @ p @ drop (length p) (c # s)" by (metis append_Nil append_take_drop_id)
      then show ?l by blast
    next
      assume ?r
      then show ?l by (metis append_Cons)
    qed
  qed
  with 2 show ?case by simp
qed simp

lemma is_nonce_error_iff:
  "is_nonce_error e \<longleftrightarrow> (\<exists>w \<in> {''stale'', ''future'', ''outdated'', ''priority is too low'', ''nonce too low'', ''nonce too high''}.
     contains (to_lowercase e) w)"
proof -
  have "contains m ''outdated''" if c: "contains m ''transaction is outdated''" for m
  proof -
    obtain a b where "m = (a @ ''transaction is '') @ ''outdated'' @ b" using c by (auto simp: contains_iff)
    then show ?thesis unfolding contains_iff by blast
  qed
  then show ?thesis by (auto simp: is_nonce_error_def Let_def)
qed

lemma metric_class_inj: "metric_class a = metric_class b \<longleftrightarrow> a = b"
  by (cases a; cases b) simp_all

lemma slash_not_in_decimal: "CHR ''/'' \<notin> set (decimal n)"
  using decimal_digits [of "CHR ''/''" n] by auto

lemma derivation_uri_inj: "derivation_uri p i = derivation_uri q j \<longleftrightarrow> p = q \<and> i = j"
proof
  assume "derivation_uri p i = derivation_uri q j"
  then have eq: "p @ ''/'' @ decimal (unat i) = q @ ''/'' @ decimal (unat j)" by (simp add: derivation_uri_def)
  then have "rev (decimal (unat i)) @ CHR ''/'' # rev p = rev (decimal (unat j)) @ CHR ''/'' # rev q"
    by (metis append.assoc append_Cons append_Nil rev.simps(2) rev_append rev_rev_ident singleton_rev_conv)
  from split_unique [OF _ _ this] show "p = q \<and> i = j"
    using slash_not_in_decimal by (simp add: word_unat_eq_iff conj_commute)
qed simp

lemma next_nonce_Some: "nonces t who = Some n \<Longrightarrow>
    next_nonce who t = (n, t\<lparr>nonces := (nonces t)(who \<mapsto> n + 1)\<rparr>)"
  by (simp add: next_nonce_def)

text \<open>A tracker hands out consecutive nonces, and only for the account that asked.\<close>

lemma take_nonces_Some:
  assumes "nonces t who = Some n"
  shows "take_nonces k who t = (map (\<lambda>i. n + of_nat i) [0..<k],
    if k = 0 then t else t\<lparr>nonces := (nonces t)(who \<mapsto> n + of_nat k)\<rparr>)"
  using assms
proof (induction k arbitrary: t n)
  case (Suc k)
  have "map (\<lambda>i. n + of_nat i) [0..<Suc k] = n # map (\<lambda>i. (n + 1) + of_nat i) [0..<k]"
    by (simp add: upt_conv_Cons map_Suc_upt [symmetric] add.assoc del: upt_Suc)
  moreover have "nonces (t\<lparr>nonces := (nonces t)(who \<mapsto> n + 1)\<rparr>) who = Some (n + 1)" by simp
  ultimately show ?case
    using Suc.IH [of "t\<lparr>nonces := (nonces t)(who \<mapsto> n + 1)\<rparr>" "n + 1"]
    by (auto simp: next_nonce_Some [OF Suc.prems] add.assoc)
qed simp

lemma take_nonces_distinct:
  assumes "nonces t who = Some n" and "k \<le> 2 ^ 64"
  shows "distinct (fst (take_nonces k who t))"
proof -
  have "inj_on (\<lambda>i. n + of_nat i :: u64) {0..<k}"
  proof (rule inj_onI)
    fix i j
    assume "i \<in> {0..<k}" "j \<in> {0..<k}" "n + of_nat i = n + (of_nat j :: u64)"
    then show "i = j" using assms(2) by (simp add: of_nat_eq_iff_u64)
  qed
  then show ?thesis by (simp add: take_nonces_Some [OF assms(1)] distinct_map)
qed

text \<open>\<open>rollback\<close> undoes the last \<open>next_nonce\<close>. It is not tied to the nonce that was not
  consumed: when another task has taken a nonce in between, the next one handed out is that
  task's.\<close>

lemma rollback_undoes:
  assumes "nonces t who = Some n" and "n \<noteq> - 1"
  shows "rollback who (snd (next_nonce who t)) = t"
proof -
  have "unat (n + 1) = Suc (unat n)" by (rule unat_plus_one [OF assms(2)])
  then have "sat_sub (n + 1) 1 = n" by (simp add: sat_sub_def word_le_nat_alt)
  then show ?thesis using assms(1) by (simp add: next_nonce_def rollback_def fun_upd_idem)
qed

lemma rollback_reuses:
  assumes "nonces t who = Some n" and "n \<noteq> - 1" and "n + 1 \<noteq> - 1"
    and "next_nonce who t = (a, t1)" and "next_nonce who t1 = (b, t2)"
  shows "fst (next_nonce who (rollback who t2)) = b \<and> b = a + 1"
proof -
  have t1: "a = n" "nonces t1 who = Some (n + 1)" using assms(1,4) by (auto simp: next_nonce_def)
  have "rollback who t2 = t1"
    using rollback_undoes [OF t1(2) assms(3)] assms(5) by simp
  then show ?thesis using t1 assms(5) next_nonce_Some [OF t1(2)] by simp
qed

text \<open>The two counts are those of the answered and of the failed queries, and an account that
  was not asked about keeps its nonce.\<close>

lemma batch_init_counts:
  "fst (batch_init_nonces answers t) =
     (of_nat (length (filter (\<lambda>a. is_ok (snd a)) answers)), of_nat (length (filter (\<lambda>a. \<not> is_ok (snd a)) answers)))"
proof (induction answers t rule: batch_init_nonces.induct)
  case (2 who nonce answers t)
  then show ?case by (auto simp: split_beta)
next
  case (3 who e answers t)
  then show ?case by (auto simp: split_beta)
qed simp

lemma batch_init_others:
  "who \<notin> fst ` set answers \<Longrightarrow> nonces (snd (batch_init_nonces answers t)) who = nonces t who"
proof (induction answers t rule: batch_init_nonces.induct)
  case (2 w nonce answers t)
  then show ?case by (auto simp: split_beta)
next
  case (3 w e answers t)
  then show ?case by (auto simp: split_beta)
qed simp

end
