(* ===== verification/Stress_Plan.thy ===== *)
theory Stress_Plan
  imports Stress_Accounts
begin

text \<open>
  What the load generator plans before it sends anything (first half of
  \<open>stress-test/src/pipeline.rs\<close>): the weighted mix of payload sizes, the bytes authorized for
  an account, the split of the accounts into iterations and of an iteration into batches.
  A \<open>usize\<close> is a \<open>u64\<close>. Shown here: how often a size is drawn, that what is authorized
  covers every payload, that the iterations and batches cut the accounts without loss or overlap,
  and that no two accounts share a derivation path.
\<close>

section \<open>Payload sizes\<close>

record PayloadSizeMix =
  mix_sizes :: "u64 list"
  mix_weights :: "u32 list"
  mix_total :: u32

datatype MixError = NeedAtLeastOne | AllWeightsZero

fun mix_fold :: "(u64 \<times> u32) list \<Rightarrow> PayloadSizeMix \<Rightarrow> PayloadSizeMix" where
  "mix_fold [] m = m"
| "mix_fold ((sz, w) # pairs) m =
     (if w = 0 then mix_fold pairs m
      else mix_fold pairs \<lparr>mix_sizes = mix_sizes m @ [sz], mix_weights = mix_weights m @ [w],
             mix_total = sat_add (mix_total m) w\<rparr>)"

definition from_weighted_sizes :: "(u64 \<times> u32) list \<Rightarrow> MixError + PayloadSizeMix" where
  "from_weighted_sizes pairs =
     (if pairs = [] then Inl NeedAtLeastOne
      else let m = mix_fold pairs \<lparr>mix_sizes = [], mix_weights = [], mix_total = 0\<rparr>
        in if mix_total m = 0 then Inl AllWeightsZero else Inr m)"

definition max_payload_bytes :: "PayloadSizeMix \<Rightarrow> u64" where
  "max_payload_bytes m = (case mix_sizes m of [] \<Rightarrow> 0 | x # xs \<Rightarrow> fold max xs x)"

definition min_payload_bytes :: "PayloadSizeMix \<Rightarrow> u64" where
  "min_payload_bytes m = (case mix_sizes m of [] \<Rightarrow> 0 | x # xs \<Rightarrow> fold min xs x)"

text \<open>\<open>sample\<close> on the number \<open>r\<close> that \<open>gen_range(0..total)\<close> returned. The sizes and the weights
  have the same length; the last size is the answer when the weights are used up.\<close>

fun sample_from :: "u64 \<Rightarrow> u64 list \<Rightarrow> u32 list \<Rightarrow> u32 \<Rightarrow> u64" where
  "sample_from last_size (sz # sizes) (w # weights) r =
     (if r < w then sz else sample_from last_size sizes weights (r - w))"
| "sample_from last_size _ _ r = last_size"

definition sample :: "PayloadSizeMix \<Rightarrow> u32 \<Rightarrow> u64" where
  "sample m r = sample_from (last (mix_sizes m)) (mix_sizes m) (mix_weights m) r"

datatype StorePayloadMode =
    Fixed u64
  | Mixed PayloadSizeMix

definition authorize_bytes_per_account :: "StorePayloadMode \<Rightarrow> u64" where
  "authorize_bytes_per_account mode =
     sat_add (case mode of Fixed n \<Rightarrow> n | Mixed m \<Rightarrow> max_payload_bytes m) 1024"

text \<open>The sizes that \<open>build_store_work_items\<close> chooses for \<open>count\<close> accounts; \<open>draws\<close> are the
  results of the random number generator, absent when there is none.\<close>

definition payload_sizes :: "StorePayloadMode \<Rightarrow> u32 list option \<Rightarrow> nat \<Rightarrow> (string + u64 list)" where
  "payload_sizes mode draws count = (case mode of
       Fixed n \<Rightarrow> Inr (replicate count n)
     | Mixed m \<Rightarrow> map_ok (\<lambda>ds. map (sample m) (take count ds)) (ok_or draws ''pipeline: mixed mode requires RNG''))"

section \<open>Iterations and batches\<close>

definition AUTHORIZE_BATCH_SIZE :: nat where
  "AUTHORIZE_BATCH_SIZE = 2048"

definition POOL_PENDING_PAUSE_THRESHOLD :: nat where
  "POOL_PENDING_PAUSE_THRESHOLD = 4000"

text \<open>The product of two numbers of at most 64 bits wraps at 64 bits, and the cast keeps 32.\<close>

definition block_capacity_accounts_per_iteration :: "u64 \<Rightarrow> u32 \<Rightarrow> u32" where
  "block_capacity_accounts_per_iteration est_block_cap measured_blocks_per_iteration =
     ucast (max (u32_to_u64 measured_blocks_per_iteration * est_block_cap) 1)"

record IterationPlan =
  account_count :: u32
  derivation_prefix :: string

function plan_loop :: "u32 \<Rightarrow> string \<Rightarrow> u32 \<Rightarrow> u32 \<Rightarrow> IterationPlan list" where
  "plan_loop max_per_iteration seed_prefix offset remaining =
     (if remaining = 0 \<or> max_per_iteration = 0 then []
      else let take = min remaining max_per_iteration
        in \<lparr>account_count = take, derivation_prefix = seed_prefix @ ''_'' @ decimal (unat offset)\<rparr>
             # plan_loop max_per_iteration seed_prefix (offset + take) (remaining - take))"
  by pat_completeness auto
termination
  by (relation "measure (\<lambda>(_, _, _, remaining). unat remaining)")
    (auto simp: word_less_nat_alt unat_sub word_le_nat_alt min_def unat_gt_0)

declare plan_loop.simps [simp del]

definition build_iteration_plans :: "u32 \<Rightarrow> u32 \<Rightarrow> string \<Rightarrow> IterationPlan list" where
  "build_iteration_plans total_accounts max_per_iteration seed_prefix =
     (let plans = plan_loop (max max_per_iteration 1) seed_prefix 0 total_accounts
      in if plans = [] then [\<lparr>account_count = 0, derivation_prefix = []\<rparr>] else plans)"

definition keypairs_for_range :: "(string \<Rightarrow> 'k) \<Rightarrow> IterationPlan \<Rightarrow> u32 \<Rightarrow> u32 \<Rightarrow> 'k list" where
  "keypairs_for_range from_uri plan range_start range_end =
     map (keypair_at_derivation_prefix from_uri (derivation_prefix plan)) (u32_range range_start range_end)"

definition auth_batches_from_keypairs :: "('k \<Rightarrow> u8 list) \<Rightarrow> 'k list \<Rightarrow> u8 list list list" where
  "auth_batches_from_keypairs to_account_id keypairs =
     map (map to_account_id) (chunks AUTHORIZE_BATCH_SIZE keypairs)"

text \<open>The ranges that \<open>generate_block_capacity_work\<close> collects up front.\<close>

lemma unat_batch_end:
  "unat (min (sat_add s (of_nat AUTHORIZE_BATCH_SIZE)) (n :: u32)) = min (unat s + 2048) (unat n)"
  using unat_u32_less [of n] by (auto simp: word_nat min_def AUTHORIZE_BATCH_SIZE_def)

function batch_ranges :: "u32 \<Rightarrow> u32 \<Rightarrow> (u32 \<times> u32) list" where
  "batch_ranges n batch_start =
     (if batch_start < n
      then let batch_end = min (sat_add batch_start (of_nat AUTHORIZE_BATCH_SIZE)) n
        in (batch_start, batch_end) # batch_ranges n batch_end
      else [])"
  by pat_completeness auto
termination
  by (relation "measure (\<lambda>(n, s). unat n - unat s)")
    (auto simp: unat_batch_end word_less_nat_alt)

declare batch_ranges.simps [simp del]

definition work_batches :: "IterationPlan list \<Rightarrow> (nat \<times> u32 \<times> u32) list" where
  "work_batches plans =
     concat (map (\<lambda>(iter_idx, plan). if account_count plan = 0 then []
        else map (Pair iter_idx) (batch_ranges (account_count plan) 0)) (enumerate 0 plans))"

section \<open>The mix of payload sizes\<close>

lemma mix_fold_sizes:
  "mix_sizes (mix_fold pairs m) = mix_sizes m @ map fst (filter (\<lambda>p. snd p \<noteq> 0) pairs)"
  by (induction pairs m rule: mix_fold.induct) simp_all

lemma mix_fold_weights:
  "mix_weights (mix_fold pairs m) = mix_weights m @ map snd (filter (\<lambda>p. snd p \<noteq> 0) pairs)"
  by (induction pairs m rule: mix_fold.induct) simp_all

lemma mix_fold_total:
  "unat (mix_total (mix_fold pairs m)) = min (unat (mix_total m) + (\<Sum>p\<leftarrow>pairs. unat (snd p))) (2 ^ 32 - 1)"
proof (induction pairs m rule: mix_fold.induct)
  case (1 m)
  then show ?case using unat_u32_less [of "mix_total m"] by simp
next
  case (2 sz w pairs m)
  then show ?case by (auto simp: unat_sat_add)
qed

lemmas mix_fold_eq = mix_fold_sizes mix_fold_weights mix_fold_total

lemma min_pos_zero: "min n (4294967295 :: nat) = 0 \<longleftrightarrow> n = 0"
  by (simp add: min_def)

lemma sum_weights_zero: "(\<Sum>p\<leftarrow>pairs. unat (snd p)) = 0 \<longleftrightarrow> (\<forall>p \<in> set pairs. snd p = (0 :: u32))"
  by (auto simp: unat_eq_zero)

lemma from_weighted_sizes_Inr:
  assumes "from_weighted_sizes pairs = Inr m"
  shows "mix_sizes m = map fst (filter (\<lambda>p. snd p \<noteq> 0) pairs)"
    "mix_weights m = map snd (filter (\<lambda>p. snd p \<noteq> 0) pairs)"
    "unat (mix_total m) = min (\<Sum>p\<leftarrow>pairs. unat (snd p)) (2 ^ 32 - 1)"
    "mix_sizes m \<noteq> []" "mix_total m \<noteq> 0"
proof -
  let ?m0 = "\<lparr>mix_sizes = [], mix_weights = [], mix_total = 0\<rparr> :: PayloadSizeMix"
  have m: "m = mix_fold pairs ?m0" and pos: "mix_total m \<noteq> 0"
    using assms by (auto simp: from_weighted_sizes_def Let_def split: if_splits)
  show "mix_sizes m = map fst (filter (\<lambda>p. snd p \<noteq> 0) pairs)"
    "mix_weights m = map snd (filter (\<lambda>p. snd p \<noteq> 0) pairs)"
    and tot: "unat (mix_total m) = min (\<Sum>p\<leftarrow>pairs. unat (snd p)) (2 ^ 32 - 1)"
    by (simp_all add: m mix_fold_eq)
  have "(\<Sum>p\<leftarrow>pairs. unat (snd p)) \<noteq> 0" using tot pos by (metis min_0L unat_eq_zero)
  then show "mix_sizes m \<noteq> []"
    unfolding sum_weights_zero by (auto simp: m mix_fold_eq filter_empty_conv)
  show "mix_total m \<noteq> 0" by (rule pos)
qed

lemma from_weighted_sizes_Inl:
  "from_weighted_sizes pairs = Inl e \<longleftrightarrow>
     (if pairs = [] then e = NeedAtLeastOne else (\<forall>p \<in> set pairs. snd p = 0) \<and> e = AllWeightsZero)"
proof -
  have "mix_total (mix_fold pairs \<lparr>mix_sizes = [], mix_weights = [], mix_total = 0\<rparr>) = 0
      \<longleftrightarrow> (\<Sum>p\<leftarrow>pairs. unat (snd p)) = 0"
    using mix_fold_total [of pairs "\<lparr>mix_sizes = [], mix_weights = [], mix_total = 0\<rparr>"]
    min_pos_zero [of "\<Sum>p\<leftarrow>pairs. unat (snd p)"]
    by (simp del: sum_list_eq_0_iff add: unat_eq_zero [symmetric])
  then show ?thesis unfolding sum_weights_zero by (auto simp: from_weighted_sizes_def)
qed

text \<open>How often each size is the answer, over all numbers below the sum of the weights.\<close>

lemma upt_split: "[0..<a + b] = [0..<a] @ map ((+) a) [0..<b]"
proof -
  have "map ((+) a) [0..<b] = [a..<a + b]"
    using map_add_upt [of a b] by (simp add: add.commute [of _ a] cong: map_cong)
  then show ?thesis using upt_add_eq_append [of 0 a b] by simp
qed

lemma sample_from_count:
  assumes "(\<Sum>p\<leftarrow>ps. unat (snd p)) < 2 ^ 32"
  shows "length (filter (\<lambda>r. sample_from d (map fst ps) (map snd ps) (of_nat r) = sz) [0..<\<Sum>p\<leftarrow>ps. unat (snd p)])
    = (\<Sum>p\<leftarrow>ps. if fst p = sz then unat (snd p) else 0)"
  using assms
proof (induction ps)
  case (Cons p ps)
  let ?n = "\<Sum>p\<leftarrow>ps. unat (snd p)"
  let ?f = "\<lambda>r. sample_from d (map fst (p # ps)) (map snd (p # ps)) (of_nat r) = sz"
  have lt: "unat (snd p) + ?n < 4294967296" using Cons.prems by simp
  have first: "?f r \<longleftrightarrow> fst p = sz" if "r < unat (snd p)" for r
    using that lt by (simp add: word_less_nat_alt unat_of_nat_u32)
  have rest: "?f (unat (snd p) + r) \<longleftrightarrow> sample_from d (map fst ps) (map snd ps) (of_nat r) = sz" if "r < ?n" for r
  proof -
    have "unat (of_nat (unat (snd p) + r) :: u32) = unat (snd p) + r" using that lt by (intro unat_of_nat_u32) simp
    then show ?thesis by (simp add: word_less_nat_alt)
  qed
  have "filter ?f [0..<unat (snd p)] = (if fst p = sz then [0..<unat (snd p)] else [])"
    using first by (auto simp: filter_empty_conv intro!: filter_True)
  moreover have "filter (\<lambda>r. ?f (unat (snd p) + r)) [0..<?n]
      = filter (\<lambda>r. sample_from d (map fst ps) (map snd ps) (of_nat r) = sz) [0..<?n]"
    using rest by (intro filter_cong) auto
  ultimately show ?case
    using Cons.IH Cons.prems by (simp add: upt_split filter_map o_def del: of_nat_add sample_from.simps)
qed simp

lemma sample_from_in: "sample_from d sizes weights r \<in> insert d (set sizes)"
  by (induction d sizes weights r rule: sample_from.induct) auto

lemma fold_max_ge: "x \<in> set (y # ys) \<Longrightarrow> x \<le> fold max ys (y :: u64)"
  by (metis List.finite_set Max.set_eq_fold Max_ge)

lemma fold_min_le: "x \<in> set (y # ys) \<Longrightarrow> fold min ys (y :: u64) \<le> x"
  by (metis List.finite_set Min.set_eq_fold Min_le)

lemma sample_in: "mix_sizes m \<noteq> [] \<Longrightarrow> sample m r \<in> set (mix_sizes m)"
  using sample_from_in [of "last (mix_sizes m)" "mix_sizes m" "mix_weights m" r]
  by (auto simp: sample_def)

lemma sample_bounds:
  assumes "mix_sizes m \<noteq> []"
  shows "min_payload_bytes m \<le> sample m r" "sample m r \<le> max_payload_bytes m"
  using sample_in [OF assms] fold_max_ge fold_min_le
  by (cases "mix_sizes m"; force simp: max_payload_bytes_def min_payload_bytes_def)+

lemma payload_size_authorized:
  assumes "payload_sizes mode draws count = Inr sizes" and "n \<in> set sizes"
    and "case mode of Mixed m \<Rightarrow> mix_sizes m \<noteq> [] | Fixed _ \<Rightarrow> True"
  shows "n \<le> authorize_bytes_per_account mode"
proof (cases mode)
  case (Fixed k)
  with assms(1,2) show ?thesis
    using sat_add_ge_left [of k 1024] by (auto simp: payload_sizes_def authorize_bytes_per_account_def)
next
  case (Mixed m)
  with assms obtain r where "n = sample m r" by (auto simp: payload_sizes_def map_ok_iffs)
  with Mixed assms(3) have "n \<le> max_payload_bytes m" using sample_bounds(2) by simp
  with Mixed show ?thesis
    using sat_add_ge_left [of "max_payload_bytes m" 1024] by (simp add: authorize_bytes_per_account_def)
qed

section \<open>The split into iterations and batches\<close>

lemma unat_min_u32: "unat (min a b :: u32) = min (unat a) (unat b)"
  by (simp add: min_def word_le_nat_alt)

lemma unat_max_u32: "unat (max a b :: u32) = max (unat a) (unat b)"
  by (simp add: max_def word_le_nat_alt)

lemma plan_loop_done [simp]: "plan_loop mx seed offset 0 = []"
  by (subst plan_loop.simps) simp

lemma plan_loop_step:
  "remaining \<noteq> 0 \<Longrightarrow> mx \<noteq> 0 \<Longrightarrow> plan_loop mx seed offset remaining =
     \<lparr>account_count = min remaining mx, derivation_prefix = seed @ ''_'' @ decimal (unat offset)\<rparr>
       # plan_loop mx seed (offset + min remaining mx) (remaining - min remaining mx)"
  by (subst plan_loop.simps) (simp add: Let_def)

lemma plan_take:
  assumes "remaining \<noteq> 0" and "mx \<noteq> (0 :: u32)"
  shows "0 < unat (min remaining mx)" "min remaining mx \<le> mx"
    "unat (remaining - min remaining mx) + unat (min remaining mx) = unat remaining"
proof -
  show "0 < unat (min remaining mx)" using assms by (simp add: unat_min_u32 unat_gt_0)
  have "unat (remaining - min remaining mx) = unat remaining - unat (min remaining mx)" by (rule unat_sub) simp
  then show "unat (remaining - min remaining mx) + unat (min remaining mx) = unat remaining"
    by (simp add: unat_min_u32)
qed simp

lemma plan_loop_sum:
  "mx \<noteq> 0 \<Longrightarrow> (\<Sum>p\<leftarrow>plan_loop mx seed offset remaining. unat (account_count p)) = unat remaining"
proof (induction mx seed offset remaining rule: plan_loop.induct)
  case (1 mx seed offset remaining)
  then show ?case
    using plan_take(3) [of remaining mx] by (cases "remaining = 0") (auto simp: plan_loop_step)
qed

lemma plan_loop_sizes:
  "mx \<noteq> 0 \<Longrightarrow> p \<in> set (plan_loop mx seed offset remaining) \<Longrightarrow> account_count p \<noteq> 0 \<and> account_count p \<le> mx"
proof (induction mx seed offset remaining rule: plan_loop.induct)
  case (1 mx seed offset remaining)
  show ?case
  proof (cases "remaining = 0")
    case False
    from "1.prems" False consider "account_count p = min remaining mx"
      | "p \<in> set (plan_loop mx seed (offset + min remaining mx) (remaining - min remaining mx))"
      by (auto simp: plan_loop_step)
    then show ?thesis
    proof cases
      case 1
      with plan_take(1,2) [OF False \<open>mx \<noteq> 0\<close>] show ?thesis by (metis less_irrefl unat_0)
    next
      case 2
      with "1.IH" [OF _ refl] False \<open>mx \<noteq> 0\<close> show ?thesis by blast
    qed
  qed (use "1.prems" in simp)
qed

text \<open>The offsets of the iterations increase, so their prefixes differ.\<close>

lemma plan_loop_offset:
  assumes "remaining \<noteq> 0" "mx \<noteq> 0" "unat (offset :: u32) + unat remaining < 2 ^ 32"
  shows "unat (offset + min remaining mx) = unat offset + unat (min remaining mx)"
    "unat (offset + min remaining mx) + unat (remaining - min remaining mx) < 2 ^ 32"
proof -
  show "unat (offset + min remaining mx) = unat offset + unat (min remaining mx)"
    using plan_take(3) [OF assms(1,2)] assms(3) by (simp add: unat_plus_if')
  with plan_take(3) [OF assms(1,2)] assms(3)
  show "unat (offset + min remaining mx) + unat (remaining - min remaining mx) < 2 ^ 32" by simp
qed

lemma plan_loop_prefix:
  assumes "mx \<noteq> 0" and "unat offset + unat remaining < 2 ^ 32" and "p \<in> set (plan_loop mx seed offset remaining)"
  shows "\<exists>k \<ge> unat offset. derivation_prefix p = seed @ ''_'' @ decimal k"
  using assms
proof (induction mx seed offset remaining rule: plan_loop.induct)
  case (1 mx seed offset remaining)
  show ?case
  proof (cases "remaining = 0")
    case False
    note off = plan_loop_offset [OF False "1.prems"(1,2)]
    from "1.prems"(3) False "1.prems"(1) consider "derivation_prefix p = seed @ ''_'' @ decimal (unat offset)"
      | "p \<in> set (plan_loop mx seed (offset + min remaining mx) (remaining - min remaining mx))"
      by (auto simp: plan_loop_step)
    then show ?thesis
    proof cases
      case 2
      with "1.IH" [OF _ refl "1.prems"(1) off(2)] False "1.prems"(1) off(1) show ?thesis
        by (metis add_leD1)
    qed blast
  qed (use "1.prems" in simp)
qed

lemma plan_loop_distinct:
  "mx \<noteq> 0 \<Longrightarrow> unat offset + unat remaining < 2 ^ 32 \<Longrightarrow>
     distinct (map derivation_prefix (plan_loop mx seed offset remaining))"
proof (induction mx seed offset remaining rule: plan_loop.induct)
  case (1 mx seed offset remaining)
  show ?case
  proof (cases "remaining = 0")
    case False
    let ?rest = "plan_loop mx seed (offset + min remaining mx) (remaining - min remaining mx)"
    note off = plan_loop_offset [OF False "1.prems"]
    have "seed @ ''_'' @ decimal (unat offset) \<noteq> derivation_prefix p" if "p \<in> set ?rest" for p
      using plan_loop_prefix [OF "1.prems"(1) off(2) that] off(1) plan_take(1) [OF False "1.prems"(1)] by auto
    moreover have "distinct (map derivation_prefix ?rest)"
      using "1.IH" [OF _ refl "1.prems"(1) off(2)] False "1.prems"(1) by blast
    ultimately show ?thesis using False "1.prems"(1) by (auto simp: plan_loop_step)
  qed simp
qed

lemma u32_range_split: "a \<le> b \<Longrightarrow> b \<le> c \<Longrightarrow> u32_range a c = u32_range a b @ u32_range b c"
  using upt_add_eq_append [of "unat a" "unat b" "unat c - unat b"]
  by (simp add: u32_range_def word_le_nat_alt flip: map_append)

lemma u32_range_empty [simp]: "b \<le> a \<Longrightarrow> u32_range a b = []"
  by (simp add: u32_range_def word_le_nat_alt)

lemma distinct_u32_range: "distinct (u32_range a b)"
proof -
  have "inj_on (of_nat :: nat \<Rightarrow> u32) {unat a..<unat b}"
    using unat_u32_less [of b] by (intro inj_on_inverseI [where g = unat] unat_of_nat_u32) auto
  then show ?thesis by (simp add: u32_range_def distinct_map)
qed

lemma length_u32_range [simp]: "length (u32_range a b) = unat b - unat a"
  by (simp add: u32_range_def)

lemma batch_ranges_cover:
  "concat (map (\<lambda>(s, e). u32_range s e) (batch_ranges n start)) = u32_range start n"
proof (induction n start rule: batch_ranges.induct)
  case (1 n start)
  show ?case
  proof (cases "start < n")
    case True
    let ?e = "min (sat_add start (of_nat AUTHORIZE_BATCH_SIZE)) n"
    have "start \<le> ?e" "?e \<le> n"
      using True by (simp_all add: word_le_nat_alt unat_batch_end word_less_nat_alt)
    then show ?thesis
      using 1 [OF True refl] True u32_range_split [of start ?e n]
      by (subst batch_ranges.simps) (simp add: Let_def)
  qed (subst batch_ranges.simps, simp)
qed

lemma batch_ranges_sizes:
  "(s, e) \<in> set (batch_ranges n start) \<Longrightarrow> s < e \<and> e \<le> n \<and> unat e - unat s \<le> AUTHORIZE_BATCH_SIZE"
proof (induction n start rule: batch_ranges.induct)
  case (1 n start)
  let ?e = "min (sat_add start (of_nat AUTHORIZE_BATCH_SIZE)) n"
  have lt: "start < n" using "1.prems" by (subst (asm) batch_ranges.simps) (simp split: if_splits)
  with "1.prems" consider "s = start" "e = ?e" | "(s, e) \<in> set (batch_ranges n ?e)"
    by (subst (asm) batch_ranges.simps) (auto simp: Let_def)
  then show ?case
  proof cases
    case 1
    have "unat ?e - unat start \<le> 2048" "unat start < unat ?e"
      using lt by (auto simp: unat_batch_end word_less_nat_alt)
    with 1 show ?thesis by (simp add: AUTHORIZE_BATCH_SIZE_def word_less_nat_alt)
  qed (rule "1.IH" [OF lt refl])
qed

text \<open>The keypairs of all batches, in the order in which they are derived.\<close>

definition batch_keypairs :: "(string \<Rightarrow> 'k) \<Rightarrow> IterationPlan list \<Rightarrow> 'k list" where
  "batch_keypairs from_uri plans =
     concat (map (\<lambda>(i, s, e). keypairs_for_range from_uri (plans ! i) s e) (work_batches plans))"

lemma batch_keypairs_eq:
  "batch_keypairs from_uri plans =
     concat (map (\<lambda>p. generate_keypairs from_uri (account_count p) (derivation_prefix p)) plans)"
proof -
  have one: "concat (map (\<lambda>(s, e). keypairs_for_range from_uri p s e) (batch_ranges (account_count p) 0))
      = generate_keypairs from_uri (account_count p) (derivation_prefix p)" for p
  proof -
    have "generate_keypairs from_uri (account_count p) (derivation_prefix p)
        = map (keypair_at_derivation_prefix from_uri (derivation_prefix p))
            (concat (map (\<lambda>(s, e). u32_range s e) (batch_ranges (account_count p) 0)))"
      by (simp add: generate_keypairs_def batch_ranges_cover)
    then show ?thesis by (simp add: keypairs_for_range_def map_concat o_def case_prod_unfold)
  qed
  have "concat (map (\<lambda>(i, s, e). keypairs_for_range from_uri (plans ! i) s e)
      (concat (map (\<lambda>(iter_idx, plan). if account_count plan = 0 then []
        else map (Pair iter_idx) (batch_ranges (account_count plan) 0)) (zip [k..<k + length ps] ps))))
    = concat (map (\<lambda>p. generate_keypairs from_uri (account_count p) (derivation_prefix p)) ps)"
    if "drop k plans = ps" for k ps
    using that
  proof (induction ps arbitrary: k)
    case (Cons p ps)
    then have "plans ! k = p" "drop (Suc k) plans = ps"
      by (metis drop_eq_Nil hd_drop_conv_nth list.distinct(1) list.sel(1) not_le) (metis Cons.prems drop_Suc drop_tl list.sel(3))
    with Cons.IH [of "Suc k"] one [of p] show ?case
      by (simp add: upt_conv_Cons o_def case_prod_unfold generate_keypairs_def del: upt_Suc)
  qed simp
  from this [of 0] show ?thesis by (simp add: batch_keypairs_def work_batches_def enumerate_eq_zip)
qed

lemma batch_keypairs_map: "batch_keypairs from_uri plans = map from_uri (batch_keypairs (\<lambda>u. u) plans)"
  by (simp add: batch_keypairs_eq generate_keypairs_def keypair_at_derivation_prefix_def [abs_def] map_concat o_def)

text \<open>Every account is planned once: the paths are distinct and as many as accounts were asked for.\<close>

lemma planned_paths:
  assumes "plans = build_iteration_plans total_accounts mx seed"
  shows "length (batch_keypairs (\<lambda>u. u) plans) = unat total_accounts" and "distinct (batch_keypairs (\<lambda>u. u) plans)"
proof -
  let ?loop = "plan_loop (max mx 1) seed 0 total_accounts"
  have mx: "max mx 1 \<noteq> 0" by (auto simp: max_def)
  have keys: "batch_keypairs (\<lambda>u. u) plans
      = concat (map (\<lambda>p. map (derivation_uri (derivation_prefix p)) (u32_range 0 (account_count p))) ?loop)"
    by (simp add: assms build_iteration_plans_def Let_def batch_keypairs_eq generate_keypairs_def
        keypair_at_derivation_prefix_def [abs_def])
  then show "length (batch_keypairs (\<lambda>u. u) plans) = unat total_accounts"
    using plan_loop_sum [OF mx, of seed 0 total_accounts] by (simp add: length_concat o_def)
  have "distinct (map derivation_prefix ?loop)"
    using unat_u32_less [of total_accounts] by (intro plan_loop_distinct mx) simp
  then have "distinct (concat (map (\<lambda>p. map (derivation_uri (derivation_prefix p)) (u32_range 0 (account_count p))) ps))"
    if "set ps \<subseteq> set ?loop" "distinct (map derivation_prefix ps)" for ps
    using that
  proof (induction ps)
    case (Cons p ps)
    have "distinct (map (derivation_uri (derivation_prefix p)) (u32_range 0 (account_count p)))"
      by (simp add: distinct_map distinct_u32_range inj_on_def derivation_uri_inj)
    with Cons show ?case by (auto simp: derivation_uri_inj image_iff)
  qed simp
  with \<open>distinct (map derivation_prefix ?loop)\<close> show "distinct (batch_keypairs (\<lambda>u. u) plans)"
    by (simp add: keys)
qed

lemma per_iteration_positive:
  "unat est * unat blocks < 2 ^ 32 \<Longrightarrow>
     unat (block_capacity_accounts_per_iteration est blocks) = max (unat est * unat blocks) 1"
proof -
  assume lt: "unat est * unat blocks < 2 ^ 32"
  have "unat (u32_to_u64 blocks * est) = unat est * unat blocks"
    using lt by (simp add: unat_word_ariths mult.commute)
  then have "unat (max (u32_to_u64 blocks * est) 1) = max (unat est * unat blocks) 1"
    by (auto simp: max_def word_le_nat_alt)
  then show ?thesis
    using lt by (simp add: block_capacity_accounts_per_iteration_def unsigned_ucast_eq unsigned_take_bit_eq take_bit_nat_eq_self)
qed

text \<open>Above that the cast to 32 bits can give zero, the value the lower bound is there to exclude.\<close>

lemma per_iteration_truncates: "block_capacity_accounts_per_iteration 65536 65536 = 0"
  by (simp add: block_capacity_accounts_per_iteration_def u32_to_u64_def)

end
