(* ===== verification/Stress_Authorize.thy ===== *)
theory Stress_Authorize
  imports Extension Sdk_Transaction Stress_Plan
begin

text \<open>
  The authorization of the load generator's accounts (\<open>stress-test/src/authorize.rs\<close> and
  \<open>wait_for_in_best_block\<close> of \<open>store.rs\<close>). The node is a parameter with a state of its own: what
  it answers to a submitted extrinsic, either the error of the submission or the status stream that
  follows, or nothing within the time limit, and the nonce it reports. Logging and the pause before
  a retry have no effect on the result. The lemmas compose the generator with the storage pallet:
  on a node that executes what it includes, a successful run leaves every account with the
  allowance that its store needs.
\<close>

section \<open>Waiting for inclusion\<close>

fun wait_for_in_best_block :: "(string + TxStatus) list \<Rightarrow> string + string" where
  "wait_for_in_best_block [] = Inl ''Transaction stream ended without InBestBlock status''"
| "wait_for_in_best_block (Inl e # rest) = Inl e"
| "wait_for_in_best_block (Inr st # rest) = (case st of
       StInBestBlock ib \<Rightarrow> map_ok (\<lambda>_. ib_block_hash ib) (ib_success ib)
     | StError message \<Rightarrow> Inl (''Transaction failed: '' @ message)
     | StInvalid message \<Rightarrow> Inl (''Transaction failed: '' @ message)
     | StDropped message \<Rightarrow> Inl (''Transaction failed: '' @ message)
     | _ \<Rightarrow> wait_for_in_best_block rest)"

section \<open>Authorizing accounts\<close>

record 'n auth_node =
  an_submit :: "RuntimeCall \<Rightarrow> u64 \<Rightarrow> 'n \<Rightarrow> (string + (string + TxStatus) list) option \<times> 'n"
  an_account_nonce :: "'n \<Rightarrow> string + u64"

definition MAX_NONCE_RETRIES :: nat where
  "MAX_NONCE_RETRIES = 10"

definition build_authorize_call :: "AccountId list \<Rightarrow> u32 \<Rightarrow> u64 \<Rightarrow> RuntimeCall" where
  "build_authorize_call batch transactions bytes =
     (let authorize_calls = map (\<lambda>account. RC_TransactionStorage (Call_authorize_account account transactions bytes)) batch
      in if length authorize_calls = 1
         then RC_TransactionStorage (Call_authorize_account (batch ! 0) transactions bytes)
         else RC_Utility (U_batch_all authorize_calls))"

text \<open>The loop of \<open>authorize_account_batch\<close>: an attempt signs with the next nonce of the
  authorizer; after a nonce error the nonce is read again, ten times at most.\<close>

definition attempt_result :: "(string + (string + TxStatus) list) option \<Rightarrow> (string + string) option" where
  "attempt_result reply = map_option (\<lambda>r. and_then r wait_for_in_best_block) reply"

function authorize_loop ::
    "'n auth_node \<Rightarrow> AccountId \<Rightarrow> RuntimeCall \<Rightarrow> nat \<Rightarrow> NonceTracker \<Rightarrow> 'n \<Rightarrow> (string + unit) \<times> NonceTracker \<times> 'n" where
  "authorize_loop nd authorizer call attempts t n =
     (case next_nonce authorizer t of (nonce, t1) \<Rightarrow>
      case an_submit nd call nonce n of (reply, n1) \<Rightarrow>
      case attempt_result reply of
        Some (Inr block_hash) \<Rightarrow> (Inr (), t1, n1)
      | Some (Inl e) \<Rightarrow>
          if is_nonce_error e \<and> attempts < MAX_NONCE_RETRIES then
            (case refresh (an_account_nonce nd n1) authorizer t1 of
               Inl e' \<Rightarrow> (Inl e', t1, n1)
             | Inr t2 \<Rightarrow> authorize_loop nd authorizer call (Suc attempts) t2 n1)
          else (Inl e, t1, n1)
      | None \<Rightarrow> (Inl ''authorize_account_batch timed out'', t1, n1))"
  by pat_completeness auto
termination by (relation "measure (\<lambda>(nd, a, c, attempts, t, n). MAX_NONCE_RETRIES - attempts)") auto

declare authorize_loop.simps [simp del]

definition authorize_account_batch ::
    "'n auth_node \<Rightarrow> AccountId \<Rightarrow> AccountId list \<Rightarrow> u32 \<Rightarrow> u64 \<Rightarrow> NonceTracker \<Rightarrow> 'n
      \<Rightarrow> (string + unit) \<times> NonceTracker \<times> 'n" where
  "authorize_account_batch nd authorizer accounts transactions bytes t n =
     (if accounts = [] then (Inr (), t, n)
      else authorize_loop nd authorizer (build_authorize_call accounts transactions bytes) 0 t n)"

fun authorize_batches ::
    "'n auth_node \<Rightarrow> AccountId \<Rightarrow> AccountId list list \<Rightarrow> u32 \<Rightarrow> u64 \<Rightarrow> NonceTracker \<Rightarrow> 'n
      \<Rightarrow> (string + unit) \<times> NonceTracker \<times> 'n" where
  "authorize_batches nd authorizer [] transactions bytes t n = (Inr (), t, n)"
| "authorize_batches nd authorizer (batch # batches) transactions bytes t n =
     (case authorize_account_batch nd authorizer batch transactions bytes t n of
        (Inl e, t1, n1) \<Rightarrow> (Inl e, t1, n1)
      | (Inr _, t1, n1) \<Rightarrow> authorize_batches nd authorizer batches transactions bytes t1 n1)"

definition authorize_accounts ::
    "'n auth_node \<Rightarrow> AccountId \<Rightarrow> AccountId list \<Rightarrow> u32 \<Rightarrow> u64 \<Rightarrow> NonceTracker \<Rightarrow> 'n
      \<Rightarrow> (string + unit) \<times> NonceTracker \<times> 'n" where
  "authorize_accounts nd authorizer accounts transactions bytes t n =
     authorize_batches nd authorizer (chunks AUTHORIZE_BATCH_SIZE accounts) transactions bytes t n"

section \<open>The calls on the chain\<close>

text \<open>The leaves of the call that \<open>build_authorize_call\<close> makes, and their dispatch one after the
  other, as \<open>batch_all\<close> does: the first error undoes all of them.\<close>

fun leaf_calls :: "RuntimeCall \<Rightarrow> Call list" where
  "leaf_calls (RC_TransactionStorage c) = [c]"
| "leaf_calls (RC_Utility (U_batch_all calls)) = concat (map leaf_calls calls)"
| "leaf_calls _ = []"

fun dispatch_all ::
    "('m, 'x) config \<Rightarrow> host \<Rightarrow> RuntimeOrigin \<Rightarrow> Call list \<Rightarrow> ('m, 'x) ts \<Rightarrow> Error DispatchError + ('m, 'x) ts" where
  "dispatch_all cfg h orig [] s = Inr s"
| "dispatch_all cfg h orig (c # cs) s = and_then (dispatch cfg h orig c s) (dispatch_all cfg h orig cs)"

text \<open>What the generator relies on: a transaction reported in a best block with success has been
  executed, and one that is not changes nothing in the pallet; \<open>pallet\<close> reads the pallet's storage
  off the state of the node.\<close>

definition executes ::
    "('m, 'x) config \<Rightarrow> host \<Rightarrow> AccountId \<Rightarrow> ('n \<Rightarrow> ('m, 'x) ts) \<Rightarrow> 'n auth_node \<Rightarrow> bool" where
  "executes cfg h authorizer pallet nd = (\<forall>call nonce n reply n1. an_submit nd call nonce n = (reply, n1) \<longrightarrow>
     (case attempt_result reply of
        Some (Inr _) \<Rightarrow> dispatch_all cfg h (Signed authorizer) (leaf_calls call) (pallet n) = Inr (pallet n1)
      | _ \<Rightarrow> pallet n1 = pallet n))"

text \<open>An unused allowance of \<open>transactions\<close> stores and \<open>bytes\<close> bytes.\<close>

definition granted :: "u32 \<Rightarrow> u64 \<Rightarrow> ('m, 'x) ts \<Rightarrow> AccountId \<Rightarrow> bool" where
  "granted transactions bytes s who = (case Authorizations s (Account who) of
       Some a \<Rightarrow> ae_transactions_allowance (au_extent a) = transactions \<and> ae_transactions (au_extent a) = 0
         \<and> ae_bytes_allowance (au_extent a) = bytes \<and> ae_bytes (au_extent a) = 0
     | None \<Rightarrow> False)"

lemma wait_for_in_best_block_Inr:
  "wait_for_in_best_block items = Inr b \<Longrightarrow>
   \<exists>ib. Inr (StInBestBlock ib) \<in> set items \<and> ib_block_hash ib = b \<and> ib_success ib = Inr ()"
  by (induction items rule: wait_for_in_best_block.induct) (auto simp: res_simps split: TxStatus.splits)

lemma leaf_calls_build:
  "leaf_calls (build_authorize_call batch t n) = map (\<lambda>a. Call_authorize_account a t n) batch"
proof -
  have "concat (map (\<lambda>a. leaf_calls (RC_TransactionStorage (Call_authorize_account a t n))) xs)
      = map (\<lambda>a. Call_authorize_account a t n) xs" for xs
    by (induction xs) simp_all
  then show ?thesis
    by (cases batch) (auto simp: build_authorize_call_def Let_def comp_def)
qed

text \<open>What a group of grants does: the accounts without a live authorization get the allowance, and
  every other authorization stays.\<close>

definition grants :: "u32 \<Rightarrow> u64 \<Rightarrow> AccountId list \<Rightarrow> ('m, 'x) ts \<Rightarrow> ('m, 'x) ts \<Rightarrow> bool" where
  "grants t n batch s s' \<longleftrightarrow> block_number s' = block_number s
     \<and> (\<forall>sc. sc \<notin> Account ` set batch \<longrightarrow> Authorizations s' sc = Authorizations s sc)
     \<and> (\<forall>who \<in> set batch. get_active_authorization (Account who) s = None \<longrightarrow> granted t n s' who)"

lemma grants_Nil [simp]: "grants t n [] s s"
  by (simp add: grants_def)

lemma grants_append:
  assumes 1: "grants t n xs s s1" and 2: "grants t n ys s1 s2" and "distinct (xs @ ys)"
  shows "grants t n (xs @ ys) s s2"
proof -
  have apart: "who \<notin> set ys" if "who \<in> set xs" for who using that assms(3) by auto
  have b: "block_number s2 = block_number s1" "block_number s1 = block_number s" using 1 2 by (auto simp: grants_def)
  have same: "Authorizations s1 sc = Authorizations s sc" if "sc \<notin> Account ` set xs" for sc
    using 1 that by (simp add: grants_def)
  have keep: "Authorizations s2 sc = Authorizations s1 sc" if "sc \<notin> Account ` set ys" for sc
    using 2 that by (simp add: grants_def)
  have "granted t n s2 who" if w: "who \<in> set (xs @ ys)" and none: "get_active_authorization (Account who) s = None" for who
  proof (cases "who \<in> set xs")
    case True
    then have "Authorizations s2 (Account who) = Authorizations s1 (Account who)" using apart by (intro keep) auto
    with True 1 none show ?thesis by (simp add: grants_def granted_def)
  next
    case False
    then have "Authorizations s1 (Account who) = Authorizations s (Account who)" by (intro same) auto
    then have "get_active_authorization (Account who) s1 = None"
      using none b by (simp only: get_active_authorization_def now_def)
    with False w 2 show ?thesis by (simp add: grants_def)
  qed
  then show ?thesis using b same keep by (simp add: grants_def image_Un)
qed

lemma authorize_account_grants:
  assumes "authorize_account cfg orig who t n s = Inr s'"
  shows "grants t n [who] s s'"
proof -
  obtain auth s1 where s1: "authorize cfg (Account who) t n auth s = Inr s1"
    and s': "s' = deposit_event (EvAccountAuthorized who t n) s1"
    using assms by (auto simp: authorize_account_def ensure_authorizer_def res_simps)
  from s1 show ?thesis
    by (cases rule: authorize_cases; use s' in \<open>auto simp: grants_def charge_frame granted_def
      get_active_authorization_def fresh_extent_def regrant_def now_def Let_def split: if_splits\<close>)
qed

lemma dispatch_all_grants:
  "dispatch_all cfg h orig (map (\<lambda>a. Call_authorize_account a t n) batch) s = Inr s' \<Longrightarrow> distinct batch
   \<Longrightarrow> grants t n batch s s'"
proof (induction batch arbitrary: s)
  case (Cons a batch)
  obtain s1 where s1: "authorize_account cfg orig a t n s = Inr s1"
    and rest: "dispatch_all cfg h orig (map (\<lambda>a. Call_authorize_account a t n) batch) s1 = Inr s'"
    using Cons.prems(1) by (auto simp: res_simps)
  from grants_append [OF authorize_account_grants [OF s1] Cons.IH [OF rest]] Cons.prems(2) show ?case by simp
qed simp

text \<open>A batch that is reported as authorized has been executed exactly once, whatever the number
  of attempts.\<close>

lemma authorize_loop_once:
  assumes node: "executes cfg h authorizer pallet nd"
    and "authorize_loop nd authorizer call attempts t n = (Inr (), t', n')"
  shows "dispatch_all cfg h (Signed authorizer) (leaf_calls call) (pallet n) = Inr (pallet n')"
  using assms(2)
proof (induction "MAX_NONCE_RETRIES - attempts" arbitrary: attempts t n rule: less_induct)
  case less
  obtain nonce t1 where nonce: "next_nonce authorizer t = (nonce, t1)" by fastforce
  obtain reply n1 where sub: "an_submit nd call nonce n = (reply, n1)" by fastforce
  note ex = node [unfolded executes_def, rule_format, OF sub]
  note run = less.prems [unfolded authorize_loop.simps [of nd authorizer call attempts] nonce sub prod.case]
  show ?case
  proof (cases "attempt_result reply")
    case None
    with run show ?thesis by simp
  next
    case (Some r)
    show ?thesis
    proof (cases r)
      case (Inr b)
      with Some run ex show ?thesis by simp
    next
      case (Inl e)
      with Some run have retry: "is_nonce_error e" "attempts < MAX_NONCE_RETRIES" by (auto split: if_splits)
      with Some Inl run obtain t2 where "authorize_loop nd authorizer call (Suc attempts) t2 n1 = (Inr (), t', n')"
        by (auto split: sum.splits)
      from less.hyps [OF _ this] retry Some Inl ex show ?thesis by simp
    qed
  qed
qed

lemma authorize_batches_grants:
  assumes node: "executes cfg h authorizer pallet nd"
  shows "authorize_batches nd authorizer batches transactions bytes t n = (Inr (), t', n') \<Longrightarrow> distinct (concat batches)
    \<Longrightarrow> grants transactions bytes (concat batches) (pallet n) (pallet n')"
proof (induction batches arbitrary: t n)
  case (Cons batch batches)
  obtain r t1 n1 where b: "authorize_account_batch nd authorizer batch transactions bytes t n = (r, t1, n1)"
    by (rule prod_cases3)
  note run = Cons.prems(1) [unfolded authorize_batches.simps b prod.case]
  have r: "r = Inr ()" using run by (cases r) simp_all
  have rest: "authorize_batches nd authorizer batches transactions bytes t1 n1 = (Inr (), t', n')" using run r by simp
  have "grants transactions bytes batch (pallet n) (pallet n1)"
  proof (cases "batch = []")
    case False
    with b r have "authorize_loop nd authorizer (build_authorize_call batch transactions bytes) 0 t n = (Inr (), t1, n1)"
      by (simp add: authorize_account_batch_def)
    from authorize_loop_once [OF node this] Cons.prems(2) show ?thesis
      by (auto simp: leaf_calls_build intro: dispatch_all_grants)
  qed (use b in \<open>simp add: authorize_account_batch_def\<close>)
  from grants_append [OF this Cons.IH [OF rest]] Cons.prems(2) show ?case by simp
qed simp

lemma authorize_accounts_grants:
  assumes "executes cfg h authorizer pallet nd" and "distinct accounts"
    and "authorize_accounts nd authorizer accounts transactions bytes t n = (Inr (), t', n')"
  shows "grants transactions bytes accounts (pallet n) (pallet n')"
proof -
  have "concat (chunks AUTHORIZE_BATCH_SIZE accounts) = accounts"
    by (intro concat_chunks) (simp add: AUTHORIZE_BATCH_SIZE_def)
  with authorize_batches_grants [OF assms(1), of "chunks AUTHORIZE_BATCH_SIZE accounts"] assms(2,3)
  show ?thesis by (simp add: authorize_accounts_def)
qed

text \<open>A grant of \<open>bytes\<close> covers one store of at most that many bytes.\<close>

lemma granted_covers:
  assumes "granted 1 bytes s who" and "u32_to_u64 sz \<le> bytes" and "0 < bytes"
  obtains a where "Authorizations s (Account who) = Some a" "in_budget (au_extent (consume_extent sz a))"
proof -
  obtain a where a: "Authorizations s (Account who) = Some a" and e: "ae_transactions_allowance (au_extent a) = 1"
    "ae_transactions (au_extent a) = 0" "ae_bytes_allowance (au_extent a) = bytes" "ae_bytes (au_extent a) = 0"
    using assms(1) by (auto simp: granted_def split: option.splits)
  have "in_budget (au_extent (consume_extent sz a))"
    using e assms(2,3) unat_u32_less [of sz] by (simp add: in_budget_def consume_extent_def Let_def sat_add_def word_gt_0)
  with a that show thesis by blast
qed

end
