(* ===== verification/Stress_Pipeline.thy ===== *)
theory Stress_Pipeline
  imports Stress_Plan "HOL-Library.Multiset"
begin

text \<open>
  The producer and the consumer of the load generator (second half of
  \<open>stress-test/src/pipeline.rs\<close>). The generator signs the stores of each batch, one batch ahead,
  and sends work items over a channel; the reader runs authorizations as a background task, waits
  for them at a barrier, and hands stores to workers over bounded channels. The tasks interleave in
  the step relation \<open>pl_step\<close>. Keys, signing, random payloads and the answers of a node are
  parameters. Shown here: look-ahead does not change the stream, no store is handed out before the
  authorization of its account was attempted, the assertion of the reader holds, and the number
  of unconfirmed stores is bounded. Error messages leave out the number of the worker; the loop
  reads the two stop flags, of the user and of the monitor, as one.
\<close>

section \<open>Work items\<close>

record StoreWorkMsg =
  msg_account_id :: "u8 list"
  msg_extrinsic :: "u8 list"
  msg_content_hash :: "u8 list"

datatype StressWorkItem =
    Authorize "u8 list list list"
  | AwaitPendingAuth
  | StoreItem StoreWorkMsg

text \<open>What the generator calls outside of this repository, and the payload that
  \<open>generate_payload\<close> fills with random bytes.\<close>

record 'k signer =
  sg_from_uri :: "string \<Rightarrow> 'k"
  sg_account_id :: "'k \<Rightarrow> u8 list"
  sg_payload :: "'k \<Rightarrow> u64 \<Rightarrow> u8 list"
  sg_blake2b_256 :: "u8 list \<Rightarrow> u8 list"
  sg_sign :: "'k \<Rightarrow> u8 list \<Rightarrow> u64 \<Rightarrow> string + u8 list"

definition sign_task :: "'k signer \<Rightarrow> 'k \<Rightarrow> u64 \<Rightarrow> string + StressWorkItem" where
  "sign_task sg kp payload_size =
     (let payload = sg_payload sg kp payload_size
      in map_ok (\<lambda>encoded. StoreItem \<lparr>msg_account_id = sg_account_id sg kp, msg_extrinsic = encoded,
            msg_content_hash = sg_blake2b_256 sg payload\<rparr>) (sg_sign sg kp payload 0))"

fun try_collect :: "('e + 'a) list \<Rightarrow> 'e + 'a list" where
  "try_collect [] = Inr []"
| "try_collect (r # rs) = and_then r (\<lambda>x. and_then (try_collect rs) (\<lambda>xs. Inr (x # xs)))"

text \<open>\<open>buffer_unordered\<close> yields the results in the order in which the tasks complete; \<open>order\<close>
  lists the positions of the keypairs in that order.\<close>

definition build_store_work_items ::
    "'k signer \<Rightarrow> 'k list \<Rightarrow> StorePayloadMode \<Rightarrow> u32 list option \<Rightarrow> nat list \<Rightarrow> string + StressWorkItem list" where
  "build_store_work_items sg keypairs mode draws order =
     and_then (payload_sizes mode draws (length keypairs)) (\<lambda>sizes.
       try_collect (map (\<lambda>i. sign_task sg (keypairs ! i) (sizes ! i)) order))"

text \<open>What happens beyond the program in batch \<open>i\<close>: the random draws and the order of completion.\<close>

type_synonym batch_env = "nat \<Rightarrow> u32 list option \<times> (nat \<Rightarrow> nat list)"

definition sign_batch ::
    "'k signer \<Rightarrow> StorePayloadMode \<Rightarrow> IterationPlan list \<Rightarrow> batch_env \<Rightarrow> nat \<Rightarrow> nat \<times> u32 \<times> u32
      \<Rightarrow> string + (u8 list list list \<times> StressWorkItem list)" where
  "sign_batch sg mode plans env batch_idx = (\<lambda>(plan_idx, start, stop).
     let keypairs = keypairs_for_range (sg_from_uri sg) (plans ! plan_idx) start stop
     in map_ok (Pair (auth_batches_from_keypairs (sg_account_id sg) keypairs))
          (build_store_work_items sg keypairs mode (fst (env batch_idx)) (snd (env batch_idx) (length keypairs))))"

text \<open>The loop over the batches: \<open>pending_sign\<close> is the batch that was signed in the background.
  The result is the stream of items sent and the final result.\<close>

fun gen_loop ::
    "(nat \<Rightarrow> 'b \<Rightarrow> string + (u8 list list list \<times> StressWorkItem list)) \<Rightarrow> nat \<Rightarrow> 'b list
      \<Rightarrow> (string + (u8 list list list \<times> StressWorkItem list)) option \<Rightarrow> StressWorkItem list \<times> (string + unit)" where
  "gen_loop sign idx [] pending_sign = ([], Inr ())"
| "gen_loop sign idx (b # bs) pending_sign =
     (case (case pending_sign of Some r \<Rightarrow> r | None \<Rightarrow> sign idx b) of
        Inl e \<Rightarrow> ([], Inl e)
      | Inr (auth_batches, store_items) \<Rightarrow>
          (let pending' = (case bs of [] \<Rightarrow> None | b' # _ \<Rightarrow> Some (sign (Suc idx) b'));
               (items, r) = gen_loop sign (Suc idx) bs pending'
           in (Authorize auth_batches # AwaitPendingAuth # store_items @ items, r)))"

definition generate_block_capacity_work ::
    "'k signer \<Rightarrow> StorePayloadMode \<Rightarrow> batch_env \<Rightarrow> IterationPlan list \<Rightarrow> StressWorkItem list \<times> (string + unit)" where
  "generate_block_capacity_work sg mode env plans =
     (if plans = [] \<or> (\<forall>p \<in> set plans. account_count p = 0) then ([], Inr ())
      else gen_loop (sign_batch sg mode plans env) 0 (work_batches plans) None)"

section \<open>Workers\<close>

record store_worker =
  wk_queue :: "StoreWorkMsg list"
  wk_hand :: "StoreWorkMsg option"
  wk_closed :: bool

definition per_worker_cap :: nat where
  "per_worker_cap = 2"

definition spawn_store_submit_workers :: "nat \<Rightarrow> store_worker list" where
  "spawn_store_submit_workers num_workers =
     replicate num_workers \<lparr>wk_queue = [], wk_hand = None, wk_closed = False\<rparr>"

definition num_connections :: "nat \<Rightarrow> nat" where
  "num_connections submitters = max (max submitters 1) 8"

definition wk_push :: "StoreWorkMsg \<Rightarrow> store_worker \<Rightarrow> store_worker" where
  "wk_push m w = w\<lparr>wk_queue := wk_queue w @ [m]\<rparr>"

datatype dispatch_result =
    Sent "store_worker list" nat
  | AllFull nat
  | ChannelClosed nat

fun try_workers :: "StoreWorkMsg \<Rightarrow> store_worker list \<Rightarrow> nat \<Rightarrow> nat list \<Rightarrow> dispatch_result" where
  "try_workers m txs rr [] = AllFull (rr mod max (length txs) 1)"
| "try_workers m txs rr (attempt # attempts) =
     (let n = max (length txs) 1; i = (rr + attempt) mod n
      in if wk_closed (txs ! i) then ChannelClosed i
         else if length (wk_queue (txs ! i)) < per_worker_cap then Sent (txs[i := wk_push m (txs ! i)]) ((i + 1) mod n)
         else try_workers m txs rr attempts)"

text \<open>The part of \<open>dispatch_store_to_workers\<close> before it may wait; after \<open>AllFull i\<close> it waits for
  room in channel \<open>i\<close> (rules \<open>send_room\<close> and \<open>send_closed\<close> below).\<close>

definition dispatch_store_to_workers :: "StoreWorkMsg \<Rightarrow> store_worker list \<Rightarrow> nat \<Rightarrow> dispatch_result" where
  "dispatch_store_to_workers m txs rr = try_workers m txs rr [0..<max (length txs) 1]"

section \<open>The running pipeline\<close>

text \<open>Where the reader is in its loop: at the checks at the top, waiting for an item, waiting for
  room in a channel, waiting for the authorization task, or done.\<close>

datatype reader =
    Checking
  | Receiving
  | Sending StoreWorkMsg nat
  | Awaiting
  | Finished "string option"
  | AssertionFailed

record pipeline =
  pl_items :: "StressWorkItem list"
  pl_reader :: reader
  pl_auth :: "u8 list list list option"
  pl_attempted :: "(u8 list list \<times> bool) list"
  pl_workers :: "store_worker list"
  pl_rr :: nat
  pl_since_txpool :: nat
  pl_submitted :: nat
  pl_confirmed :: nat
  pl_dispatched :: "StoreWorkMsg list"
  pl_stop :: bool

definition pl_init :: "StressWorkItem list \<Rightarrow> nat \<Rightarrow> pipeline" where
  "pl_init items submitters = \<lparr>pl_items = items, pl_reader = Checking, pl_auth = None, pl_attempted = [],
     pl_workers = spawn_store_submit_workers (num_connections submitters), pl_rr = 0, pl_since_txpool = 0,
     pl_submitted = 0, pl_confirmed = 0, pl_dispatched = [], pl_stop = False\<rparr>"

definition txpool_can_pull_work :: "pipeline \<Rightarrow> bool" where
  "txpool_can_pull_work s = (pl_submitted s - pl_confirmed s \<le> POOL_PENDING_PAUSE_THRESHOLD)"

definition sent :: "StoreWorkMsg \<Rightarrow> store_worker list \<Rightarrow> nat \<Rightarrow> pipeline \<Rightarrow> pipeline" where
  "sent m txs rr s = s\<lparr>pl_reader := Checking, pl_workers := txs, pl_rr := rr,
     pl_since_txpool := Suc (pl_since_txpool s), pl_dispatched := pl_dispatched s @ [m]\<rparr>"

text \<open>One arm of the match on the received item.\<close>

fun handle_item :: "StressWorkItem \<Rightarrow> pipeline \<Rightarrow> pipeline" where
  "handle_item (Authorize batches) s =
     (if batches = [] then s\<lparr>pl_reader := Checking\<rparr>
      else if pl_auth s \<noteq> None then s\<lparr>pl_reader := AssertionFailed\<rparr>
      else s\<lparr>pl_reader := Checking, pl_auth := Some batches\<rparr>)"
| "handle_item AwaitPendingAuth s =
     s\<lparr>pl_reader := (if pl_auth s = None then Checking else Awaiting)\<rparr>"
| "handle_item (StoreItem m) s = (case dispatch_store_to_workers m (pl_workers s) (pl_rr s) of
       Sent txs rr \<Rightarrow> sent m txs rr s
     | AllFull i \<Rightarrow> s\<lparr>pl_reader := Sending m i\<rparr>
     | ChannelClosed i \<Rightarrow> s\<lparr>pl_reader := Finished (Some ''store worker input channel closed'')\<rparr>)"

inductive pl_step :: "pipeline \<Rightarrow> pipeline \<Rightarrow> bool" where
  stop_requested: "pl_reader s = Checking \<Longrightarrow> pl_stop s \<Longrightarrow> pl_step s (s\<lparr>pl_reader := Finished None\<rparr>)"
| checks_passed: "pl_reader s = Checking \<Longrightarrow> \<not> pl_stop s \<Longrightarrow> pl_since_txpool s < POOL_PENDING_PAUSE_THRESHOLD
    \<Longrightarrow> pl_step s (s\<lparr>pl_reader := Receiving\<rparr>)"
| pool_drained: "pl_reader s = Checking \<Longrightarrow> \<not> pl_stop s \<Longrightarrow> POOL_PENDING_PAUSE_THRESHOLD \<le> pl_since_txpool s
    \<Longrightarrow> txpool_can_pull_work s \<Longrightarrow> pl_step s (s\<lparr>pl_reader := Receiving, pl_since_txpool := 0\<rparr>)"
| stream_end: "pl_reader s = Receiving \<Longrightarrow> pl_items s = [] \<Longrightarrow> pl_step s (s\<lparr>pl_reader := Finished None\<rparr>)"
| item_received: "pl_reader s = Receiving \<Longrightarrow> pl_items s = item # items
    \<Longrightarrow> pl_step s (handle_item item (s\<lparr>pl_items := items\<rparr>))"
| send_room: "pl_reader s = Sending m i \<Longrightarrow> i < length (pl_workers s) \<Longrightarrow> \<not> wk_closed (pl_workers s ! i)
    \<Longrightarrow> length (wk_queue (pl_workers s ! i)) < per_worker_cap
    \<Longrightarrow> pl_step s (sent m ((pl_workers s)[i := wk_push m (pl_workers s ! i)]) ((i + 1) mod max (length (pl_workers s)) 1) s)"
| send_closed: "pl_reader s = Sending m i \<Longrightarrow> i < length (pl_workers s) \<Longrightarrow> wk_closed (pl_workers s ! i)
    \<Longrightarrow> pl_step s (s\<lparr>pl_reader := Finished (Some ''store worker send failed (channel closed)'')\<rparr>)"
| auth_batch: "pl_auth s = Some (b # bs)
    \<Longrightarrow> pl_step s (s\<lparr>pl_auth := Some bs, pl_attempted := pl_attempted s @ [(b, ok)]\<rparr>)"
| auth_joined: "pl_reader s = Awaiting \<Longrightarrow> pl_auth s = Some []
    \<Longrightarrow> pl_step s (s\<lparr>pl_reader := Checking, pl_auth := None\<rparr>)"
| worker_recv: "i < length (pl_workers s) \<Longrightarrow> \<not> wk_closed (pl_workers s ! i) \<Longrightarrow> wk_hand (pl_workers s ! i) = None
    \<Longrightarrow> wk_queue (pl_workers s ! i) = m # q
    \<Longrightarrow> pl_step s (s\<lparr>pl_workers := (pl_workers s)[i := (pl_workers s ! i)\<lparr>wk_queue := q, wk_hand := Some m\<rparr>]\<rparr>)"
| worker_accepted: "i < length (pl_workers s) \<Longrightarrow> wk_hand (pl_workers s ! i) = Some m
    \<Longrightarrow> pl_step s (s\<lparr>pl_workers := (pl_workers s)[i := (pl_workers s ! i)\<lparr>wk_hand := None\<rparr>],
          pl_submitted := Suc (pl_submitted s)\<rparr>)"
| worker_skipped: "i < length (pl_workers s) \<Longrightarrow> wk_hand (pl_workers s ! i) = Some m
    \<Longrightarrow> pl_step s (s\<lparr>pl_workers := (pl_workers s)[i := (pl_workers s ! i)\<lparr>wk_hand := None\<rparr>]\<rparr>)"
| worker_failed: "i < length (pl_workers s) \<Longrightarrow> wk_hand (pl_workers s ! i) = Some m
    \<Longrightarrow> pl_step s (s\<lparr>pl_workers := (pl_workers s)[i := (pl_workers s ! i)\<lparr>wk_hand := None, wk_queue := [], wk_closed := True\<rparr>]\<rparr>)"
| blocks_confirmed: "pl_step s (s\<lparr>pl_confirmed := pl_confirmed s + k\<rparr>)"
| stop_set: "pl_step s (s\<lparr>pl_stop := True\<rparr>)"

definition pl_reachable :: "StressWorkItem list \<Rightarrow> nat \<Rightarrow> pipeline \<Rightarrow> bool" where
  "pl_reachable items submitters s = pl_step\<^sup>*\<^sup>* (pl_init items submitters) s"

section \<open>The stream of work items\<close>

text \<open>The reference: sign each batch when its turn comes.\<close>

fun gen_ref ::
    "(nat \<Rightarrow> 'b \<Rightarrow> string + (u8 list list list \<times> StressWorkItem list)) \<Rightarrow> nat \<Rightarrow> 'b list
      \<Rightarrow> StressWorkItem list \<times> (string + unit)" where
  "gen_ref sign idx [] = ([], Inr ())"
| "gen_ref sign idx (b # bs) = (case sign idx b of
       Inl e \<Rightarrow> ([], Inl e)
     | Inr (auth_batches, store_items) \<Rightarrow>
         (let (items, r) = gen_ref sign (Suc idx) bs
          in (Authorize auth_batches # AwaitPendingAuth # store_items @ items, r)))"

lemma gen_loop_pending:
  "gen_loop sign idx bs (case bs of [] \<Rightarrow> None | b # _ \<Rightarrow> Some (sign idx b)) = gen_ref sign idx bs"
  by (induction bs arbitrary: idx) (auto split: sum.splits)

lemma gen_loop_ref: "gen_loop sign idx bs None = gen_ref sign idx bs"
proof (cases bs)
  case (Cons b bs')
  then have "gen_loop sign idx bs None = gen_loop sign idx bs (case bs of [] \<Rightarrow> None | b # _ \<Rightarrow> Some (sign idx b))"
    by simp
  then show ?thesis by (simp only: gen_loop_pending)
qed simp

lemma try_collect_Inr: "try_collect rs = Inr xs \<longleftrightarrow> rs = map Inr xs"
proof (induction rs arbitrary: xs)
  case (Cons r rs)
  then show ?case by (cases r; cases xs) (auto simp: and_then_Inr_iff)
qed auto

lemma build_store_work_items_Inr:
  assumes "build_store_work_items sg keypairs mode draws order = Inr items"
  shows "\<exists>sizes encoded. payload_sizes mode draws (length keypairs) = Inr sizes \<and> length encoded = length order
    \<and> items = map2 (\<lambda>i enc. StoreItem \<lparr>msg_account_id = sg_account_id sg (keypairs ! i), msg_extrinsic = enc,
        msg_content_hash = sg_blake2b_256 sg (sg_payload sg (keypairs ! i) (sizes ! i))\<rparr>) order encoded
    \<and> (\<forall>j < length order. sg_sign sg (keypairs ! (order ! j))
        (sg_payload sg (keypairs ! (order ! j)) (sizes ! (order ! j))) 0 = Inr (encoded ! j))"
proof -
  obtain sizes where sizes: "payload_sizes mode draws (length keypairs) = Inr sizes"
    and tasks: "map (\<lambda>i. sign_task sg (keypairs ! i) (sizes ! i)) order = map Inr items"
    using assms by (auto simp: build_store_work_items_def and_then_Inr_iff try_collect_Inr)
  let ?p = "\<lambda>i. sg_payload sg (keypairs ! i) (sizes ! i)"
  have len: "length items = length order" using tasks by (metis length_map)
  have "\<exists>enc. sg_sign sg (keypairs ! (order ! j)) (?p (order ! j)) 0 = Inr enc
      \<and> items ! j = StoreItem \<lparr>msg_account_id = sg_account_id sg (keypairs ! (order ! j)), msg_extrinsic = enc,
          msg_content_hash = sg_blake2b_256 sg (?p (order ! j))\<rparr>" if "j < length order" for j
  proof -
    have "sign_task sg (keypairs ! (order ! j)) (sizes ! (order ! j)) = Inr (items ! j)"
      using arg_cong [OF tasks, of "\<lambda>xs. xs ! j"] that len by simp
    then show ?thesis by (auto simp: sign_task_def Let_def map_ok_iffs)
  qed
  then obtain enc where enc: "\<And>j. j < length order \<Longrightarrow>
      sg_sign sg (keypairs ! (order ! j)) (?p (order ! j)) 0 = Inr (enc j)
      \<and> items ! j = StoreItem \<lparr>msg_account_id = sg_account_id sg (keypairs ! (order ! j)), msg_extrinsic = enc j,
          msg_content_hash = sg_blake2b_256 sg (?p (order ! j))\<rparr>" by metis
  show ?thesis
    by (rule exI [of _ sizes], rule exI [of _ "map enc [0..<length order]"])
      (auto simp: sizes len enc intro!: nth_equalityI)
qed

text \<open>A stream in which every store follows the barrier of an authorization of its account, and
  authorizations do not overlap. \<open>A\<close> are the accounts behind a barrier, \<open>P\<close> those of a running
  authorization.\<close>

fun stream_ok :: "u8 list set \<Rightarrow> u8 list set option \<Rightarrow> StressWorkItem list \<Rightarrow> bool" where
  "stream_ok A P [] = True"
| "stream_ok A P (Authorize bs # xs) =
     (if bs = [] then stream_ok A P xs else P = None \<and> stream_ok A (Some (set (concat bs))) xs)"
| "stream_ok A P (AwaitPendingAuth # xs) = stream_ok (A \<union> (case P of Some B \<Rightarrow> B | None \<Rightarrow> {})) None xs"
| "stream_ok A P (StoreItem m # xs) = (msg_account_id m \<in> A \<and> stream_ok A P xs)"

lemma stream_ok_mono:
  "stream_ok A P xs \<Longrightarrow> A \<subseteq> A' \<Longrightarrow> rel_option (\<subseteq>) P P' \<Longrightarrow> stream_ok A' P' xs"
proof (induction A P xs arbitrary: A' P' rule: stream_ok.induct)
  case (2 A P bs xs)
  show ?case
  proof (cases "bs = []")
    case False
    with 2 show ?thesis by (auto intro: "2.IH"(2) split: option.splits)
  qed (use 2 in auto)
next
  case (3 A P xs)
  have "A \<union> (case P of Some B \<Rightarrow> B | None \<Rightarrow> {}) \<subseteq> A' \<union> (case P' of Some B \<Rightarrow> B | None \<Rightarrow> {})"
    using 3 by (cases P; cases P') auto
  with 3 show ?case by simp
qed auto

lemma stream_ok_stores:
  "(\<And>x. x \<in> set stores \<Longrightarrow> \<exists>m. x = StoreItem m \<and> msg_account_id m \<in> A) \<Longrightarrow>
     stream_ok A P (stores @ xs) \<longleftrightarrow> stream_ok A P xs"
proof (induction stores)
  case (Cons x stores)
  obtain m where "x = StoreItem m" "msg_account_id m \<in> A" using Cons.prems [of x] by auto
  moreover have "stream_ok A P (stores @ xs) \<longleftrightarrow> stream_ok A P xs"
    by (rule Cons.IH) (use Cons.prems in auto)
  ultimately show ?case by simp
qed simp

definition batch_covered :: "u8 list list list \<times> StressWorkItem list \<Rightarrow> bool" where
  "batch_covered = (\<lambda>(auth, stores). \<forall>x \<in> set stores. \<exists>m. x = StoreItem m \<and> msg_account_id m \<in> set (concat auth))"

lemma gen_ref_stream_ok:
  assumes "\<And>i b r. sign i b = Inr r \<Longrightarrow> batch_covered r"
  shows "stream_ok A None (fst (gen_ref sign idx bs))"
proof (induction bs arbitrary: idx A)
  case (Cons b bs)
  show ?case
  proof (cases "sign idx b")
    case (Inr r)
    obtain auth stores where r: "r = (auth, stores)" by (cases r)
    obtain items res where rest: "gen_ref sign (Suc idx) bs = (items, res)" by (cases "gen_ref sign (Suc idx) bs")
    have cov: "\<And>x. x \<in> set stores \<Longrightarrow> \<exists>m. x = StoreItem m \<and> msg_account_id m \<in> A \<union> set (concat auth)"
      using assms [OF Inr] by (fastforce simp: r batch_covered_def simp del: set_concat)
    have "stream_ok (A \<union> set (concat auth)) None (stores @ items)"
      using stream_ok_stores [OF cov, of stores] Cons.IH [of "A \<union> set (concat auth)" "Suc idx"] rest by simp
    then show ?thesis by (cases "auth = []") (simp_all add: Inr r rest)
  qed simp
qed simp

definition env_ok :: "batch_env \<Rightarrow> bool" where
  "env_ok env = (\<forall>i n. mset (snd (env i) n) = mset [0..<n])"

lemma concat_auth_batches:
  "concat (auth_batches_from_keypairs acc keypairs) = map acc keypairs"
  by (simp add: auth_batches_from_keypairs_def concat_chunks AUTHORIZE_BATCH_SIZE_def flip: map_concat)

lemma sign_batch_covered:
  assumes "env_ok env" and "sign_batch sg mode plans env i b = Inr r"
  shows "batch_covered r"
proof -
  obtain p s e where b: "b = (p, s, e)" by (cases b)
  let ?keys = "keypairs_for_range (sg_from_uri sg) (plans ! p) s e"
  let ?order = "snd (env i) (length ?keys)"
  obtain items where r: "r = (auth_batches_from_keypairs (sg_account_id sg) ?keys, items)"
    and items: "build_store_work_items sg ?keys mode (fst (env i)) ?order = Inr items"
    using assms(2) by (auto simp: sign_batch_def b Let_def map_ok_iffs)
  have "set ?order = {0..<length ?keys}"
    using assms(1) by (metis atLeast_upt atLeastLessThan_upt env_ok_def mset_eq_setD)
  with build_store_work_items_Inr [OF items] show ?thesis
    by (auto simp: r batch_covered_def concat_auth_batches dest!: set_zip_leftD simp del: set_concat)
qed

lemma generated_stream_ok:
  "env_ok env \<Longrightarrow> stream_ok A None (fst (generate_block_capacity_work sg mode env plans))"
  by (auto simp: generate_block_capacity_work_def gen_loop_ref intro: gen_ref_stream_ok sign_batch_covered)

lemma stream_ok_prefix: "stream_ok A P (xs @ ys) \<Longrightarrow> stream_ok A P xs"
  by (induction A P xs rule: stream_ok.induct) (auto split: if_splits)

section \<open>Invariants of the pipeline\<close>

lemma try_workers_Sent:
  "try_workers m txs rr as = Sent txs' rr' \<Longrightarrow> txs \<noteq> [] \<Longrightarrow> \<exists>i < length txs. \<not> wk_closed (txs ! i)
     \<and> length (wk_queue (txs ! i)) < per_worker_cap \<and> txs' = txs[i := wk_push m (txs ! i)] \<and> rr' = (i + 1) mod length txs"
proof (induction m txs rr as rule: try_workers.induct)
  case (2 m txs rr attempt attempts)
  let ?i = "(rr + attempt) mod max (length txs) 1"
  have i: "?i < length txs" "max (length txs) 1 = length txs" using 2(3) by (simp_all add: Suc_leI)
  show ?case
  proof (cases "wk_closed (txs ! ?i) \<or> \<not> length (wk_queue (txs ! ?i)) < per_worker_cap")
    case False
    with 2(2) i show ?thesis by (intro exI [of _ ?i]) (auto simp: Let_def)
  qed (use 2 in \<open>auto simp: Let_def split: if_splits\<close>)
qed simp

lemma try_workers_AllFull: "try_workers m txs rr as = AllFull i \<Longrightarrow> txs \<noteq> [] \<Longrightarrow> i < length txs"
  by (induction m txs rr as rule: try_workers.induct) (auto simp: Let_def Suc_leI split: if_splits)

text \<open>Accounts whose authorization was attempted, and those of the running task.\<close>

definition attempted :: "pipeline \<Rightarrow> u8 list set" where
  "attempted s = (\<Union>(b, _) \<in> set (pl_attempted s). set b)"

definition running :: "pipeline \<Rightarrow> u8 list set" where
  "running s = (case pl_auth s of Some bs \<Rightarrow> set (concat bs) | None \<Rightarrow> {})"

definition auth_inv :: "pipeline \<Rightarrow> bool" where
  "auth_inv s \<longleftrightarrow>
     (if pl_reader s = Awaiting then pl_auth s \<noteq> None \<and> stream_ok (attempted s \<union> running s) None (pl_items s)
      else stream_ok (attempted s) (map_option (\<lambda>_. attempted s \<union> running s) (pl_auth s)) (pl_items s))
     \<and> (\<forall>m \<in> set (pl_dispatched s). msg_account_id m \<in> attempted s)
     \<and> (\<forall>m i. pl_reader s = Sending m i \<longrightarrow> msg_account_id m \<in> attempted s)
     \<and> pl_reader s \<noteq> AssertionFailed"

lemma attempted_update [simp]:
  "attempted (s\<lparr>pl_reader := r\<rparr>) = attempted s" "attempted (s\<lparr>pl_items := xs\<rparr>) = attempted s"
  "attempted (s\<lparr>pl_workers := ws\<rparr>) = attempted s" "attempted (s\<lparr>pl_confirmed := k\<rparr>) = attempted s"
  "attempted (s\<lparr>pl_submitted := k\<rparr>) = attempted s" "attempted (s\<lparr>pl_stop := b\<rparr>) = attempted s"
  "attempted (s\<lparr>pl_auth := a\<rparr>) = attempted s" "attempted (s\<lparr>pl_since_txpool := k\<rparr>) = attempted s"
  "attempted (sent m ws rr s) = attempted s"
  by (simp_all add: attempted_def sent_def)

lemma running_update [simp]:
  "running (s\<lparr>pl_reader := r\<rparr>) = running s" "running (s\<lparr>pl_items := xs\<rparr>) = running s"
  "running (s\<lparr>pl_workers := ws\<rparr>) = running s" "running (s\<lparr>pl_confirmed := k\<rparr>) = running s"
  "running (s\<lparr>pl_submitted := k\<rparr>) = running s" "running (s\<lparr>pl_stop := b\<rparr>) = running s"
  "running (s\<lparr>pl_attempted := a\<rparr>) = running s" "running (s\<lparr>pl_since_txpool := k\<rparr>) = running s"
  "running (sent m ws rr s) = running s"
  by (simp_all add: running_def sent_def)

lemma sent_sel [simp]:
  "pl_reader (sent m ws rr s) = Checking" "pl_items (sent m ws rr s) = pl_items s" "pl_auth (sent m ws rr s) = pl_auth s"
  "pl_dispatched (sent m ws rr s) = pl_dispatched s @ [m]" "pl_workers (sent m ws rr s) = ws"
  "pl_since_txpool (sent m ws rr s) = Suc (pl_since_txpool s)" "pl_submitted (sent m ws rr s) = pl_submitted s"
  "pl_confirmed (sent m ws rr s) = pl_confirmed s"
  by (simp_all add: sent_def)

lemma auth_inv_item:
  assumes inv: "auth_inv s" and rd: "pl_reader s = Receiving" and items: "pl_items s = item # items"
  shows "auth_inv (handle_item item (s\<lparr>pl_items := items\<rparr>))"
proof (cases item)
  case (Authorize bs)
  show ?thesis
  proof (cases "bs = []")
    case False
    from inv rd items Authorize False have "pl_auth s = None" "stream_ok (attempted s) (Some (set (concat bs))) items"
      by (auto simp: auth_inv_def split: option.splits)
    moreover have "stream_ok (attempted s) (Some (attempted s \<union> set (concat bs))) items"
      by (rule stream_ok_mono [OF calculation(2)]) auto
    ultimately show ?thesis using inv rd Authorize False by (simp add: auth_inv_def running_def)
  qed (use inv rd items Authorize in \<open>auto simp: auth_inv_def\<close>)
next
  case AwaitPendingAuth
  show ?thesis
  proof (cases "pl_auth s")
    case None
    with inv rd items AwaitPendingAuth show ?thesis by (simp add: auth_inv_def)
  next
    case (Some bs)
    with inv rd items AwaitPendingAuth show ?thesis by (simp add: auth_inv_def Un_absorb1 Un_left_absorb)
  qed
next
  case (StoreItem m)
  with inv rd items have "msg_account_id m \<in> attempted s"
    "stream_ok (attempted s) (map_option (\<lambda>_. attempted s \<union> running s) (pl_auth s)) items"
    by (auto simp: auth_inv_def)
  with inv rd StoreItem show ?thesis by (auto simp: auth_inv_def split: dispatch_result.split)
qed

lemma auth_inv_batch:
  assumes inv: "auth_inv s" and auth: "pl_auth s = Some (b # bs)"
  shows "auth_inv (s\<lparr>pl_auth := Some bs, pl_attempted := pl_attempted s @ [(b, ok)]\<rparr>)" (is "auth_inv ?s")
proof -
  have att: "attempted ?s = attempted s \<union> set b" by (auto simp: attempted_def)
  have run: "attempted ?s \<union> running ?s = attempted s \<union> running s"
    using auth by (auto simp: att running_def)
  have "stream_ok (attempted s) (Some (attempted s \<union> running s)) xs
      \<Longrightarrow> stream_ok (attempted ?s) (Some (attempted s \<union> running s)) xs" for xs
    by (erule stream_ok_mono) (auto simp: att)
  with inv auth run show ?thesis by (auto simp: auth_inv_def att simp del: attempted_update)
qed

lemma auth_inv_step: "pl_step s s' \<Longrightarrow> auth_inv s \<Longrightarrow> auth_inv s'"
proof (induction rule: pl_step.induct)
  case (item_received s item items)
  then show ?case by (rule auth_inv_item [rotated 1])
next
  case (auth_batch s b bs ok)
  then show ?case by (rule auth_inv_batch [rotated 1])
next
  case (auth_joined s)
  then show ?case by (simp add: auth_inv_def running_def)
next
  case (send_room s m i)
  then show ?case by (auto simp: auth_inv_def)
qed (auto simp: auth_inv_def)

text \<open>Messages that were handed to workers and are not answered yet.\<close>

definition wk_load :: "store_worker \<Rightarrow> nat" where
  "wk_load w = length (wk_queue w) + (case wk_hand w of Some _ \<Rightarrow> 1 | None \<Rightarrow> 0)"

definition inflight :: "pipeline \<Rightarrow> nat" where
  "inflight s = (\<Sum>w\<leftarrow>pl_workers s. wk_load w)"

definition depth_inv :: "pipeline \<Rightarrow> bool" where
  "depth_inv s \<longleftrightarrow> pl_workers s \<noteq> [] \<and> (\<forall>w \<in> set (pl_workers s). length (wk_queue w) \<le> per_worker_cap)
     \<and> pl_since_txpool s \<le> POOL_PENDING_PAUSE_THRESHOLD
     \<and> (pl_reader s = Receiving \<or> (\<exists>m i. pl_reader s = Sending m i) \<longrightarrow> pl_since_txpool s < POOL_PENDING_PAUSE_THRESHOLD)
     \<and> (\<forall>m i. pl_reader s = Sending m i \<longrightarrow> i < length (pl_workers s))
     \<and> pl_submitted s + inflight s
        \<le> pl_confirmed s + POOL_PENDING_PAUSE_THRESHOLD + 3 * length (pl_workers s) + pl_since_txpool s"

lemma inflight_update:
  assumes "i < length (pl_workers s)"
  shows "(\<Sum>v\<leftarrow>(pl_workers s)[i := w]. wk_load v) + wk_load (pl_workers s ! i) = inflight s + wk_load w"
proof -
  have "wk_load (pl_workers s ! i) \<le> (\<Sum>v\<leftarrow>pl_workers s. wk_load v)"
    using assms by (simp add: member_le_sum_list)
  then show ?thesis using assms by (simp add: inflight_def map_update sum_list_update)
qed

lemma load_bound: "(\<And>w. w \<in> set ws \<Longrightarrow> length (wk_queue w) \<le> per_worker_cap) \<Longrightarrow> (\<Sum>w\<leftarrow>ws. wk_load w) \<le> 3 * length ws"
proof (induction ws)
  case (Cons w ws)
  have "wk_load w \<le> 3" using Cons.prems [of w] by (simp add: wk_load_def per_worker_cap_def split: option.split)
  with Cons show ?case by fastforce
qed simp

lemma wk_load_push [simp]: "wk_load (wk_push m w) = Suc (wk_load w)"
  by (simp add: wk_load_def wk_push_def)

lemma depth_inv_sent:
  assumes inv: "depth_inv s" and i: "i < length (pl_workers s)" and room: "length (wk_queue (pl_workers s ! i)) < per_worker_cap"
    and since: "pl_since_txpool s < POOL_PENDING_PAUSE_THRESHOLD"
  shows "depth_inv (sent m ((pl_workers s)[i := wk_push m (pl_workers s ! i)]) rr s)"
proof -
  have "(\<Sum>v\<leftarrow>(pl_workers s)[i := wk_push m (pl_workers s ! i)]. wk_load v) = Suc (inflight s)"
    using inflight_update [OF i, of "wk_push m (pl_workers s ! i)"] by simp
  moreover have "\<forall>w \<in> set ((pl_workers s)[i := wk_push m (pl_workers s ! i)]). length (wk_queue w) \<le> per_worker_cap"
    using inv room by (auto simp: depth_inv_def wk_push_def dest!: set_update_subset_insert [THEN subsetD])
  ultimately show ?thesis
    using inv since by (simp add: depth_inv_def inflight_def)
qed

lemma depth_inv_worker:
  assumes inv: "depth_inv s" and i: "i < length (pl_workers s)"
    and load: "wk_load w + k \<le> wk_load (pl_workers s ! i)" and q: "length (wk_queue w) \<le> length (wk_queue (pl_workers s ! i))"
  shows "depth_inv (s\<lparr>pl_workers := (pl_workers s)[i := w], pl_submitted := pl_submitted s + k\<rparr>)"
proof -
  have "(\<Sum>v\<leftarrow>(pl_workers s)[i := w]. wk_load v) + k \<le> inflight s"
    using inflight_update [OF i, of w] load by simp
  moreover have "length (wk_queue v) \<le> per_worker_cap" if "v \<in> set ((pl_workers s)[i := w])" for v
  proof -
    have "length (wk_queue w) \<le> per_worker_cap" using inv q i by (meson depth_inv_def le_trans nth_mem)
    moreover have "v = w \<or> v \<in> set (pl_workers s)" using that set_update_subset_insert by fastforce
    ultimately show ?thesis using inv by (auto simp: depth_inv_def)
  qed
  ultimately show ?thesis using inv by (simp add: depth_inv_def inflight_def)
qed

lemma depth_inv_item:
  assumes inv: "depth_inv s" and rd: "pl_reader s = Receiving"
  shows "depth_inv (handle_item item (s\<lparr>pl_items := items\<rparr>))"
proof (cases item)
  case (StoreItem m)
  let ?s = "s\<lparr>pl_items := items\<rparr>"
  have inv': "depth_inv ?s" and since: "pl_since_txpool s < POOL_PENDING_PAUSE_THRESHOLD" and ws: "pl_workers s \<noteq> []"
    using inv rd by (simp_all add: depth_inv_def inflight_def)
  show ?thesis
  proof (cases "dispatch_store_to_workers m (pl_workers s) (pl_rr s)")
    case (Sent txs rr)
    with try_workers_Sent [OF _ ws] obtain i where i: "i < length (pl_workers s)"
      "length (wk_queue (pl_workers s ! i)) < per_worker_cap" "txs = (pl_workers s)[i := wk_push m (pl_workers s ! i)]"
      unfolding dispatch_store_to_workers_def by blast
    with depth_inv_sent [OF inv', of i m rr] since Sent StoreItem show ?thesis by simp
  next
    case (AllFull i)
    with try_workers_AllFull [OF _ ws] have "i < length (pl_workers s)" by (simp add: dispatch_store_to_workers_def)
    with inv since AllFull StoreItem show ?thesis by (simp add: depth_inv_def inflight_def)
  qed (use inv StoreItem in \<open>simp add: depth_inv_def inflight_def\<close>)
qed (use inv rd in \<open>auto simp: depth_inv_def inflight_def\<close>)

lemma depth_inv_step: "pl_step s s' \<Longrightarrow> depth_inv s \<Longrightarrow> depth_inv s'"
proof (induction rule: pl_step.induct)
  case (pool_drained s)
  then have "inflight s \<le> 3 * length (pl_workers s)" using load_bound by (simp add: depth_inv_def inflight_def)
  with pool_drained show ?case
    by (simp add: depth_inv_def inflight_def txpool_can_pull_work_def POOL_PENDING_PAUSE_THRESHOLD_def)
next
  case (item_received s item items)
  then show ?case by (intro depth_inv_item)
next
  case (send_room s m i)
  then show ?case by (intro depth_inv_sent) (auto simp: depth_inv_def)
next
  case (worker_recv i s m q)
  then show ?case
    using depth_inv_worker [of s i "(pl_workers s ! i)\<lparr>wk_queue := q, wk_hand := Some m\<rparr>" 0] by (simp add: wk_load_def)
next
  case (worker_accepted i s m)
  then show ?case
    using depth_inv_worker [of s i "(pl_workers s ! i)\<lparr>wk_hand := None\<rparr>" 1] by (simp add: wk_load_def)
next
  case (worker_skipped i s m)
  then show ?case
    using depth_inv_worker [of s i "(pl_workers s ! i)\<lparr>wk_hand := None\<rparr>" 0] by (simp add: wk_load_def)
next
  case (worker_failed i s m)
  then show ?case
    using depth_inv_worker [of s i "(pl_workers s ! i)\<lparr>wk_hand := None, wk_queue := [], wk_closed := True\<rparr>" 0]
    by (simp add: wk_load_def)
qed (auto simp: depth_inv_def inflight_def)

lemma handle_item_workers: "pl_workers s \<noteq> [] \<Longrightarrow> length (pl_workers (handle_item item s)) = length (pl_workers s)"
  by (cases item) (auto simp: dispatch_store_to_workers_def split: dispatch_result.splits dest!: try_workers_Sent)

lemma pl_reachable_inv:
  assumes "pl_reachable items submitters s" and "stream_ok {} None items"
  shows "auth_inv s" "depth_inv s" "length (pl_workers s) = num_connections submitters"
proof -
  have "auth_inv s \<and> depth_inv s \<and> length (pl_workers s) = num_connections submitters"
    using assms(1) unfolding pl_reachable_def
  proof (induction rule: rtranclp_induct)
    case base
    have "spawn_store_submit_workers (num_connections submitters) \<noteq> []"
      by (simp add: spawn_store_submit_workers_def num_connections_def)
    moreover have "wk_load \<lparr>wk_queue = [], wk_hand = None, wk_closed = False\<rparr> = 0"
      by (simp add: wk_load_def)
    ultimately show ?case
      using assms(2) by (auto simp: pl_init_def auth_inv_def depth_inv_def attempted_def inflight_def
          spawn_store_submit_workers_def sum_list_replicate)
  next
    case (step s s')
    have "length (pl_workers s') = length (pl_workers s)"
      using step.hyps(2) step.IH
      by (cases rule: pl_step.cases) (auto simp: depth_inv_def handle_item_workers)
    with step auth_inv_step depth_inv_step show ?case by auto
  qed
  then show "auth_inv s" "depth_inv s" "length (pl_workers s) = num_connections submitters" by simp_all
qed

end
