(* ===== verification/Stress_Monitor.thy ===== *)
theory Stress_Monitor
  imports Stress_Accounts
begin

text \<open>
  The block monitor of the load generator (\<open>spawn_pipeline_dual_monitor\<close> of
  \<open>stress-test/src/pipeline.rs\<close>, \<open>stored_content_hashes\<close> of \<open>store.rs\<close>). It counts the
  stores of each best block, keeps the block until its number is finalized, and then records it.
  Events arrive in any order. Shown here: blocks above the finalized number wait and the others are
  recorded, finalization records in the order of the numbers, the counter of confirmed stores is
  the sum over the record, and a block that a reorganisation replaced has lost its bytes.
\<close>

section \<open>State\<close>

record PendingBlock =
  pb_number :: u64
  pb_hash :: "u8 list"
  pb_tx_count :: u64
  pb_payload_bytes :: u64
  pb_timestamp_ms :: "u64 option"

record BlockStats =
  bs_number :: u64
  bs_tx_count :: u64
  bs_payload_bytes :: u64
  bs_prefill :: bool
  bs_timestamp_ms :: "u64 option"
  bs_hash :: "u8 list option"
  bs_finalized :: bool
  bs_received_at_ms :: "u64 option"
  bs_interval_ms :: "u64 option"

type_synonym ContentHashMap = "u8 list \<rightharpoonup> u64"

record monitor =
  mo_pending :: "(u64 \<times> PendingBlock) list"
  mo_max_finalized :: u64
  mo_prev_timestamp :: "u64 option"
  mo_best_measured :: u32
  mo_confirmed :: u64
  mo_stats :: "BlockStats list"
  mo_hashes :: ContentHashMap
  mo_started :: bool
  mo_target_reached :: bool

definition monitor_init :: "ContentHashMap \<Rightarrow> monitor" where
  "monitor_init hashes = \<lparr>mo_pending = [], mo_max_finalized = 0, mo_prev_timestamp = None, mo_best_measured = 0,
     mo_confirmed = 0, mo_stats = [], mo_hashes = hashes, mo_started = False, mo_target_reached = False\<rparr>"

section \<open>Events of a block\<close>

record chain_event =
  ce_pallet_name :: string
  ce_variant_name :: string
  ce_field_bytes :: "u8 list"

fun stored_content_hashes :: "chain_event list \<Rightarrow> u8 list list" where
  "stored_content_hashes [] = []"
| "stored_content_hashes (ev # evs) =
     (if ce_pallet_name ev = ''TransactionStorage'' \<and> ce_variant_name ev = ''Stored''
        \<and> 36 \<le> length (ce_field_bytes ev)
      then take 32 (drop 4 (ce_field_bytes ev)) # stored_content_hashes evs
      else stored_content_hashes evs)"

text \<open>\<open>hashes.iter().filter_map(|h| map.remove(h)).sum()\<close>.\<close>

fun remove_sizes :: "u8 list list \<Rightarrow> ContentHashMap \<Rightarrow> u64 \<times> ContentHashMap" where
  "remove_sizes [] m = (0, m)"
| "remove_sizes (h # hs) m = (case remove_sizes hs (m(h := None)) of
     (n, m') \<Rightarrow> ((case m h of Some sz \<Rightarrow> sz + n | None \<Rightarrow> n), m'))"

section \<open>Handlers\<close>

definition push_finalized :: "PendingBlock \<Rightarrow> monitor \<Rightarrow> monitor" where
  "push_finalized pb s =
     (let interval_ms = (case (pb_timestamp_ms pb, mo_prev_timestamp s) of
            (Some ts, Some prev) \<Rightarrow> Some (sat_sub ts prev) | _ \<Rightarrow> None)
      in s\<lparr>mo_prev_timestamp := (if pb_timestamp_ms pb = None then mo_prev_timestamp s else pb_timestamp_ms pb),
          mo_confirmed := mo_confirmed s + pb_tx_count pb,
          mo_stats := mo_stats s @ [\<lparr>bs_number = pb_number pb, bs_tx_count = pb_tx_count pb,
            bs_payload_bytes = pb_payload_bytes pb, bs_prefill = False, bs_timestamp_ms = pb_timestamp_ms pb,
            bs_hash = Some (pb_hash pb), bs_finalized = True, bs_received_at_ms = None, bs_interval_ms = interval_ms\<rparr>]\<rparr>)"

text \<open>The map of pending blocks as an association list without repeated keys.\<close>

definition pending_insert :: "u64 \<Rightarrow> PendingBlock \<Rightarrow> monitor \<Rightarrow> monitor" where
  "pending_insert n pb s = s\<lparr>mo_pending := (n, pb) # filter (\<lambda>(k, _). k \<noteq> n) (mo_pending s)\<rparr>"

definition confirm :: "u64 \<Rightarrow> monitor \<Rightarrow> monitor" where
  "confirm n s = (case map_of (mo_pending s) n of
       Some pb \<Rightarrow> push_finalized pb (s\<lparr>mo_pending := filter (\<lambda>(k, _). k \<noteq> n) (mo_pending s)\<rparr>)
     | None \<Rightarrow> s)"

definition drain_finalized :: "u64 \<Rightarrow> u64 \<Rightarrow> monitor \<Rightarrow> monitor" where
  "drain_finalized old_max new_max s =
     fold confirm (sort (filter (\<lambda>n. old_max < n \<and> n \<le> new_max) (map fst (mo_pending s)))) s"

text \<open>What the monitor learns about a best block: its events, and the answers to the two reads of
  the timestamp, before and after a reconnection.\<close>

record best_block =
  bb_number :: u64
  bb_hash :: "u8 list"
  bb_events :: "chain_event list"
  bb_timestamp :: "u64 option"
  bb_reconnected_timestamp :: "u64 option"

definition on_best_block :: "u32 option \<Rightarrow> best_block \<Rightarrow> monitor \<Rightarrow> monitor" where
  "on_best_block target_blocks b s =
     (let hashes = stored_content_hashes (bb_events b);
          store_tx_count = of_nat (length hashes) :: u64;
          (store_tx_bytes, map') = remove_sizes hashes (mo_hashes s);
          timestamp_ms = (if store_tx_count = 0 then None
            else case bb_timestamp b of Some ts \<Rightarrow> Some ts | None \<Rightarrow> bb_reconnected_timestamp b);
          measured = (if 0 < store_tx_count then mo_best_measured s + 1 else mo_best_measured s);
          s1 = s\<lparr>mo_hashes := map', mo_started := True, mo_best_measured := measured,
            mo_target_reached := (mo_target_reached s
              \<or> 0 < store_tx_count \<and> is_some_and target_blocks (\<lambda>t. t \<le> measured))\<rparr>;
          s2 = pending_insert (bb_number b) \<lparr>pb_number = bb_number b, pb_hash = bb_hash b,
            pb_tx_count = store_tx_count, pb_payload_bytes = store_tx_bytes, pb_timestamp_ms = timestamp_ms\<rparr> s1
      in if bb_number b \<le> mo_max_finalized s2 then confirm (bb_number b) s2 else s2)"

definition on_finalized :: "u64 \<Rightarrow> monitor \<Rightarrow> monitor" where
  "on_finalized fin_number s =
     (let new_max = max (mo_max_finalized s) fin_number
      in drain_finalized (mo_max_finalized s) new_max (s\<lparr>mo_max_finalized := new_max\<rparr>))"

datatype monitor_event =
    BestBlock best_block
  | FinalizedBlock u64

text \<open>The select loop and the wait for finalization after it: once the target is reached, best
  blocks are no longer read.\<close>

fun monitor_step :: "u32 option \<Rightarrow> monitor_event \<Rightarrow> monitor \<Rightarrow> monitor" where
  "monitor_step target (BestBlock b) s = (if mo_target_reached s then s else on_best_block target b s)"
| "monitor_step target (FinalizedBlock n) s = on_finalized n s"

definition monitor_run :: "u32 option \<Rightarrow> monitor_event list \<Rightarrow> monitor \<Rightarrow> monitor" where
  "monitor_run target events s = fold (monitor_step target) events s"

section \<open>Invariant\<close>

definition monitor_inv :: "monitor \<Rightarrow> bool" where
  "monitor_inv s \<longleftrightarrow> distinct (map fst (mo_pending s))
     \<and> (\<forall>(n, pb) \<in> set (mo_pending s). pb_number pb = n \<and> mo_max_finalized s < n)
     \<and> (\<forall>b \<in> set (mo_stats s). bs_number b \<le> mo_max_finalized s \<and> bs_finalized b)
     \<and> mo_confirmed s = (\<Sum>b\<leftarrow>mo_stats s. bs_tx_count b)"

definition monitor_books :: "monitor \<Rightarrow> bool" where
  "monitor_books s \<longleftrightarrow> distinct (map fst (mo_pending s)) \<and> (\<forall>(n, pb) \<in> set (mo_pending s). pb_number pb = n)
     \<and> (\<forall>b \<in> set (mo_stats s). bs_number b \<le> mo_max_finalized s \<and> bs_finalized b)
     \<and> mo_confirmed s = (\<Sum>b\<leftarrow>mo_stats s. bs_tx_count b)"

lemma monitor_inv_iff: "monitor_inv s \<longleftrightarrow> monitor_books s \<and> (\<forall>n \<in> fst ` set (mo_pending s). mo_max_finalized s < n)"
  by (auto simp: monitor_inv_def monitor_books_def)

lemma push_finalized_sel [simp]:
  "mo_pending (push_finalized pb s) = mo_pending s" "mo_max_finalized (push_finalized pb s) = mo_max_finalized s"
  "mo_hashes (push_finalized pb s) = mo_hashes s" "mo_target_reached (push_finalized pb s) = mo_target_reached s"
  "mo_confirmed (push_finalized pb s) = mo_confirmed s + pb_tx_count pb"
  "map bs_number (mo_stats (push_finalized pb s)) = map bs_number (mo_stats s) @ [pb_number pb]"
  by (simp_all add: push_finalized_def Let_def)

lemma distinct_filter_keys: "distinct (map fst xs) \<Longrightarrow> distinct (map fst (filter p xs))"
  by (induction xs) auto

lemma confirm_pending [simp]:
  "mo_pending (confirm n s) = filter (\<lambda>(k, _). k \<noteq> n) (mo_pending s)"
  "mo_max_finalized (confirm n s) = mo_max_finalized s" "mo_hashes (confirm n s) = mo_hashes s"
proof -
  have "map_of xs n = None \<Longrightarrow> filter (\<lambda>(k, _). k \<noteq> n) xs = xs" for xs :: "(u64 \<times> PendingBlock) list"
    by (induction xs) (auto split: if_splits)
  then show "mo_pending (confirm n s) = filter (\<lambda>(k, _). k \<noteq> n) (mo_pending s)"
    by (simp add: confirm_def split: option.split)
qed (simp_all add: confirm_def split: option.split)

lemma confirm_books:
  assumes "monitor_books s" and "n \<le> mo_max_finalized s"
  shows "monitor_books (confirm n s)"
proof (cases "map_of (mo_pending s) n")
  case (Some pb)
  then have "pb_number pb = n" using assms(1) by (auto simp: monitor_books_def dest!: map_of_SomeD)
  with Some assms show ?thesis
    by (auto simp: monitor_books_def confirm_def push_finalized_def Let_def distinct_filter_keys)
qed (use assms in \<open>simp add: confirm_def\<close>)

lemma confirm_numbers:
  assumes "monitor_books s" and "n \<in> fst ` set (mo_pending s)"
  shows "map bs_number (mo_stats (confirm n s)) = map bs_number (mo_stats s) @ [n]"
proof -
  obtain pb where pb: "map_of (mo_pending s) n = Some pb" using assms(2) by (auto dest: weak_map_of_SomeI)
  then have "pb_number pb = n" using assms(1) by (auto simp: monitor_books_def dest!: map_of_SomeD)
  with pb show ?thesis by (simp add: confirm_def)
qed

lemma fold_confirm:
  assumes "monitor_books s" and "distinct ns" and "set ns \<subseteq> fst ` set (mo_pending s)"
    and "\<And>n. n \<in> set ns \<Longrightarrow> n \<le> mo_max_finalized s"
  shows "monitor_books (fold confirm ns s)" "mo_max_finalized (fold confirm ns s) = mo_max_finalized s"
    "mo_pending (fold confirm ns s) = filter (\<lambda>(k, _). k \<notin> set ns) (mo_pending s)"
    "map bs_number (mo_stats (fold confirm ns s)) = map bs_number (mo_stats s) @ ns"
proof -
  have "monitor_books (fold confirm ns s) \<and> mo_max_finalized (fold confirm ns s) = mo_max_finalized s
    \<and> mo_pending (fold confirm ns s) = filter (\<lambda>(k, _). k \<notin> set ns) (mo_pending s)
    \<and> map bs_number (mo_stats (fold confirm ns s)) = map bs_number (mo_stats s) @ ns"
    using assms
  proof (induction ns arbitrary: s)
    case (Cons n ns)
    have "monitor_books (confirm n s)" using Cons.prems by (intro confirm_books) auto
    moreover have "set ns \<subseteq> fst ` set (mo_pending (confirm n s))"
      using Cons.prems(2,3) by (fastforce simp: image_iff)
    ultimately have "monitor_books (fold confirm ns (confirm n s))
      \<and> mo_max_finalized (fold confirm ns (confirm n s)) = mo_max_finalized s
      \<and> mo_pending (fold confirm ns (confirm n s)) = filter (\<lambda>(k, _). k \<notin> set ns) (mo_pending (confirm n s))
      \<and> map bs_number (mo_stats (fold confirm ns (confirm n s))) = map bs_number (mo_stats (confirm n s)) @ ns"
      using Cons.IH [of "confirm n s"] Cons.prems by simp
    then show ?case
      using confirm_numbers [of s n] Cons.prems by (auto simp: split_beta conj_commute intro: filter_cong)
  qed auto
  then show "monitor_books (fold confirm ns s)" "mo_max_finalized (fold confirm ns s) = mo_max_finalized s"
    "mo_pending (fold confirm ns s) = filter (\<lambda>(k, _). k \<notin> set ns) (mo_pending s)"
    "map bs_number (mo_stats (fold confirm ns s)) = map bs_number (mo_stats s) @ ns" by blast+
qed

text \<open>Finalization: every waiting block up to the number is recorded, in order; the others wait on.\<close>

lemma on_finalized_outcome:
  assumes inv: "monitor_inv s"
  shows "mo_max_finalized (on_finalized n s) = max (mo_max_finalized s) n"
    "mo_pending (on_finalized n s) = filter (\<lambda>(k, _). n < k) (mo_pending s)"
    "map bs_number (mo_stats (on_finalized n s))
       = map bs_number (mo_stats s) @ sort (filter (\<lambda>k. k \<le> n) (map fst (mo_pending s)))"
    "monitor_inv (on_finalized n s)"
proof -
  let ?max = "max (mo_max_finalized s) n"
  let ?s = "s\<lparr>mo_max_finalized := ?max\<rparr>"
  let ?ns = "sort (filter (\<lambda>k. mo_max_finalized s < k \<and> k \<le> ?max) (map fst (mo_pending s)))"
  have books: "monitor_books ?s" using inv by (fastforce simp: monitor_inv_iff monitor_books_def max_def)
  have above: "\<forall>k \<in> fst ` set (mo_pending s). mo_max_finalized s < k" using inv by (simp add: monitor_inv_iff)
  then have le: "k \<le> ?max \<longleftrightarrow> k \<le> n" if "k \<in> fst ` set (mo_pending s)" for k
    using that by (auto simp: max_def)
  have ns: "?ns = sort (filter (\<lambda>k. k \<le> n) (map fst (mo_pending s)))"
    using above le by (intro arg_cong [where f = sort] filter_cong) auto
  have fin: "on_finalized n s = fold confirm ?ns ?s"
    by (simp add: on_finalized_def drain_finalized_def Let_def)
  have "distinct ?ns" "set ?ns \<subseteq> fst ` set (mo_pending ?s)" "\<And>k. k \<in> set ?ns \<Longrightarrow> k \<le> mo_max_finalized ?s"
    using inv by (auto simp: monitor_inv_def)
  note out = fold_confirm [OF books this]
  show max: "mo_max_finalized (on_finalized n s) = ?max"
    using out(2) unfolding fin by (simp only: monitor.select_convs monitor.update_convs) simp
  have pend: "(k \<notin> set ?ns) = (n < k)" if "(k, pb) \<in> set (mo_pending s)" for k pb
  proof -
    have "k \<in> fst ` set (mo_pending s)" using that by force
    then show ?thesis unfolding ns by (simp add: not_le)
  qed
  have "mo_pending (on_finalized n s) = filter (\<lambda>(k, _). k \<notin> set ?ns) (mo_pending s)"
    using out(3) unfolding fin by (simp only: monitor.select_convs monitor.update_convs) simp
  also have "\<dots> = filter (\<lambda>(k, _). n < k) (mo_pending s)" using pend by (intro filter_cong) auto
  finally show pending: "mo_pending (on_finalized n s) = filter (\<lambda>(k, _). n < k) (mo_pending s)" .
  show "map bs_number (mo_stats (on_finalized n s))
      = map bs_number (mo_stats s) @ sort (filter (\<lambda>k. k \<le> n) (map fst (mo_pending s)))"
    using out(4) unfolding fin ns by simp
  show "monitor_inv (on_finalized n s)"
    using out(1) [folded fin] above pending max by (auto simp: monitor_inv_iff)
qed

lemma on_best_block_shape:
  "\<exists>m k y pb. pb_number pb = bb_number b \<and> pb_tx_count pb = of_nat (length (stored_content_hashes (bb_events b)))
     \<and> pb_payload_bytes pb = fst (remove_sizes (stored_content_hashes (bb_events b)) (mo_hashes s))
     \<and> on_best_block target b s =
       (let s2 = pending_insert (bb_number b) pb
          (s\<lparr>mo_hashes := m, mo_started := True, mo_best_measured := k, mo_target_reached := y\<rparr>)
        in if bb_number b \<le> mo_max_finalized s then confirm (bb_number b) s2 else s2)"
  unfolding on_best_block_def split_beta Let_def
  by (intro exI conjI) (simp_all add: pending_insert_def)

lemma pending_insert_books:
  "monitor_books s \<Longrightarrow> pb_number pb = n \<Longrightarrow> monitor_books (pending_insert n pb s)"
  by (auto simp: monitor_books_def pending_insert_def distinct_filter_keys)

lemma on_best_block_inv:
  assumes inv: "monitor_inv s"
  shows "monitor_inv (on_best_block target b s)"
proof -
  obtain m k y pb where pb: "pb_number pb = bb_number b" and eq: "on_best_block target b s =
       (let s2 = pending_insert (bb_number b) pb
          (s\<lparr>mo_hashes := m, mo_started := True, mo_best_measured := k, mo_target_reached := y\<rparr>)
        in if bb_number b \<le> mo_max_finalized s then confirm (bb_number b) s2 else s2)"
    using on_best_block_shape by meson
  let ?s2 = "pending_insert (bb_number b) pb
    (s\<lparr>mo_hashes := m, mo_started := True, mo_best_measured := k, mo_target_reached := y\<rparr>)"
  have books: "monitor_books ?s2"
    using inv pb by (intro pending_insert_books) (simp_all add: monitor_inv_iff monitor_books_def)
  have max: "mo_max_finalized ?s2 = mo_max_finalized s" by (simp add: pending_insert_def)
  have pend: "fst ` set (mo_pending ?s2) = insert (bb_number b) (fst ` set (mo_pending s))"
    by (force simp: pending_insert_def image_iff)
  show ?thesis
  proof (cases "bb_number b \<le> mo_max_finalized s")
    case True
    have "mo_pending (confirm (bb_number b) ?s2) = filter (\<lambda>(k, _). k \<noteq> bb_number b) (mo_pending s)"
      by (simp add: pending_insert_def)
    then show ?thesis
      using True inv confirm_books [OF books] by (auto simp: eq Let_def monitor_inv_iff max simp del: confirm_pending(1))
  next
    case False
    then show ?thesis using books inv pend by (simp add: eq Let_def monitor_inv_iff max)
  qed
qed

lemma monitor_run_inv: "monitor_inv s \<Longrightarrow> monitor_inv (monitor_run target events s)"
proof (induction events arbitrary: s)
  case (Cons e events)
  have "monitor_inv (monitor_step target e s)"
    using Cons.prems on_best_block_inv on_finalized_outcome(4) by (cases e) simp_all
  with Cons.IH show ?case by (simp add: monitor_run_def)
qed (simp add: monitor_run_def)

lemma monitor_init_inv [simp]: "monitor_inv (monitor_init m)"
  by (simp add: monitor_inv_def monitor_init_def)

section \<open>Reorganisations\<close>

lemma remove_sizes_removes: "snd (remove_sizes hs m) = m |` (- set hs)"
proof (induction hs arbitrary: m)
  case (Cons h hs)
  have "(m(h := None)) |` (- set hs) = m |` (- set (h # hs))" by (auto simp: restrict_map_def)
  then show ?case unfolding remove_sizes.simps split_beta snd_conv Cons.IH .
qed (simp add: restrict_map_def)

lemma remove_sizes_absent: "set hs \<inter> dom m = {} \<Longrightarrow> fst (remove_sizes hs m) = 0"
  by (induction hs m rule: remove_sizes.induct) (auto simp: split_beta split: option.splits)

lemma remove_sizes_again: "set hs' \<subseteq> set hs \<Longrightarrow> fst (remove_sizes hs' (snd (remove_sizes hs m))) = 0"
  by (rule remove_sizes_absent) (auto simp: remove_sizes_removes)

text \<open>The sizes are removed from the map when a best block is seen. When a reorganisation brings
  the same stores in another block of the same height, that block replaces the first one and
  is recorded with no bytes.\<close>

lemma reorganised_block_has_no_bytes:
  assumes "monitor_inv s" and "mo_max_finalized s < bb_number b" and "\<not> mo_target_reached (on_best_block target a s)"
    and "set (stored_content_hashes (bb_events b)) \<subseteq> set (stored_content_hashes (bb_events a))"
    and "bb_number a = bb_number b"
  shows "\<exists>pb. map_of (mo_pending (monitor_run target [BestBlock a, BestBlock b] s)) (bb_number b) = Some pb
    \<and> pb_tx_count pb = of_nat (length (stored_content_hashes (bb_events b))) \<and> pb_payload_bytes pb = 0"
proof -
  let ?s1 = "on_best_block target a s"
  have s1: "mo_hashes ?s1 = snd (remove_sizes (stored_content_hashes (bb_events a)) (mo_hashes s))"
    "mo_max_finalized ?s1 = mo_max_finalized s"
    using assms(2,5) by (simp_all add: on_best_block_def split_beta Let_def pending_insert_def)
  have "\<not> mo_target_reached s" using assms(3) by (auto simp: on_best_block_def split_beta Let_def pending_insert_def confirm_def split: option.splits if_splits)
  then have run: "monitor_run target [BestBlock a, BestBlock b] s = on_best_block target b ?s1"
    using assms(3) by (simp add: monitor_run_def)
  obtain m k y pb where pb: "pb_tx_count pb = of_nat (length (stored_content_hashes (bb_events b)))"
    "pb_payload_bytes pb = fst (remove_sizes (stored_content_hashes (bb_events b)) (mo_hashes ?s1))"
    and eq: "on_best_block target b ?s1 =
       (let s2 = pending_insert (bb_number b) pb
          (?s1\<lparr>mo_hashes := m, mo_started := True, mo_best_measured := k, mo_target_reached := y\<rparr>)
        in if bb_number b \<le> mo_max_finalized ?s1 then confirm (bb_number b) s2 else s2)"
    using on_best_block_shape by meson
  have "pb_payload_bytes pb = 0" unfolding pb(2) s1(1) using assms(4) by (rule remove_sizes_again)
  moreover have "map_of (mo_pending (on_best_block target b ?s1)) (bb_number b) = Some pb"
    using assms(2) s1(2) by (simp add: eq Let_def pending_insert_def not_le [symmetric])
  ultimately show ?thesis using pb(1) unfolding run by blast
qed

text \<open>A best block at or below the finalized number is recorded at once, each time it is announced.\<close>

lemma lagging_block_recorded:
  assumes "bb_number b \<le> mo_max_finalized s"
  shows "map bs_number (mo_stats (on_best_block target b s)) = map bs_number (mo_stats s) @ [bb_number b]"
proof -
  obtain m k y pb where "pb_number pb = bb_number b" "on_best_block target b s =
       (let s2 = pending_insert (bb_number b) pb
          (s\<lparr>mo_hashes := m, mo_started := True, mo_best_measured := k, mo_target_reached := y\<rparr>)
        in if bb_number b \<le> mo_max_finalized s then confirm (bb_number b) s2 else s2)"
    using on_best_block_shape by meson
  then show ?thesis using assms by (simp add: Let_def confirm_def pending_insert_def)
qed

end
