(* ===== verification/Stress_Sequential.thy ===== *)
theory Stress_Sequential
  imports Stress_Monitor
begin

text \<open>
  Upload from one account with sequential nonces (\<open>stress-test/src/store.rs\<close>, from
  \<open>compute_batch_end\<close> on) and the limits it is fed with (\<open>chain_info.rs\<close>): block capacity from
  measured weights, waves of transactions from the nonce of each best block, completion by the
  finalized nonce, and the scan that attributes transactions to blocks. Arithmetic on \<open>u64\<close>
  wraps, as in a release build; a slice out of range is a panic. The answers of the node are
  inputs. Shown here: the batch is the longest that fits a block and agrees with the closed
  formula for equal payloads, every nonce ever signed carries the payload of its position, the
  only panic is a nonce below the first one, and the scan attributes every payload once.
\<close>

section \<open>Limits of a block\<close>

record ChainLimits =
  max_normal_weight :: u64
  extrinsic_base_weight :: u64
  normal_block_length :: u64
  max_block_transactions :: u32
  max_transaction_size :: u32
  store_weight_base :: u64
  store_weight_per_byte :: u64
  extrinsic_length_overhead :: u64

datatype bottleneck = MaxBlockTxs u32 | BlockLengthBound | BlockWeightBound

record TheoreticalLimits =
  weight_cap :: u64
  length_cap :: u64
  count_cap :: u64
  effective_cap :: u64
  tl_bottleneck :: bottleneck

definition weight_per_tx :: "ChainLimits \<Rightarrow> u64 \<Rightarrow> u64" where
  "weight_per_tx l payload_size = store_weight_base l + store_weight_per_byte l * payload_size"

definition length_per_tx :: "ChainLimits \<Rightarrow> u64 \<Rightarrow> u64" where
  "length_per_tx l payload_size = payload_size + extrinsic_length_overhead l"

text \<open>The divisions panic when a transaction has no weight or no length.\<close>

definition compute_theoretical_limits :: "ChainLimits \<Rightarrow> u64 \<Rightarrow> TheoreticalLimits option" where
  "compute_theoretical_limits l payload_size =
     (let w = weight_per_tx l payload_size; n = length_per_tx l payload_size
      in if w = 0 \<or> n = 0 then None
         else let wc = max_normal_weight l div w; lc = normal_block_length l div n;
                cc = u32_to_u64 (max_block_transactions l); ec = min (min wc lc) cc
           in Some \<lparr>weight_cap = wc, length_cap = lc, count_cap = cc, effective_cap = ec,
                tl_bottleneck = (if ec = cc then MaxBlockTxs (max_block_transactions l)
                  else if ec = lc then BlockLengthBound else BlockWeightBound)\<rparr>)"

definition estimate_block_capacity :: "ChainLimits \<Rightarrow> u64 \<Rightarrow> u64 option" where
  "estimate_block_capacity l payload_size = map_option effective_cap (compute_theoretical_limits l payload_size)"

text \<open>The regression over two measured transactions, of 1024 and 10240 bytes.\<close>

definition measure_store_weight :: "u64 \<Rightarrow> u64 \<Rightarrow> u64 \<Rightarrow> u64 \<times> u64 \<times> u64" where
  "measure_store_weight len_small weight_small weight_large =
     (let overhead = sat_sub len_small 1024;
          per_byte = sat_sub weight_large weight_small div sat_sub 10240 1024;
          base = sat_sub weight_small (per_byte * 1024)
      in (base, per_byte, overhead))"

section \<open>Batches\<close>

function batch_loop :: "u8 list list \<Rightarrow> ChainLimits \<Rightarrow> u64 \<Rightarrow> u64 \<Rightarrow> u32 \<Rightarrow> nat \<Rightarrow> nat" where
  "batch_loop payloads l weight len count idx =
     (if idx < length payloads
      then let payload_len = of_nat (length (payloads ! idx));
             tx_weight = weight_per_tx l payload_len; tx_length = length_per_tx l payload_len
        in if max_normal_weight l < weight + tx_weight then idx
           else if normal_block_length l < len + tx_length then idx
           else if max_block_transactions l < count + 1 then idx
           else batch_loop payloads l (weight + tx_weight) (len + tx_length) (count + 1) (Suc idx)
      else idx)"
  by pat_completeness auto
termination
  by (relation "measure (\<lambda>(payloads, _, _, _, _, idx). length payloads - idx)") auto

declare batch_loop.simps [simp del]

definition compute_batch_end :: "u8 list list \<Rightarrow> nat \<Rightarrow> ChainLimits \<Rightarrow> nat" where
  "compute_batch_end payloads from_idx l = batch_loop payloads l 0 0 0 from_idx"

section \<open>Waves\<close>

record PreSignedTx =
  ps_nonce :: u64
  ps_payload :: "u8 list"

text \<open>Signing is a call into subxt; a signed transaction is identified by its nonce and payload.\<close>

definition sign_sequential_txs :: "u8 list list \<Rightarrow> u64 \<Rightarrow> PreSignedTx list" where
  "sign_sequential_txs payloads start_nonce =
     map (\<lambda>(i, p). \<lparr>ps_nonce = start_nonce + of_nat i, ps_payload = p\<rparr>) (enumerate 0 payloads)"

text \<open>Every transaction goes to every connection; the results arrive in any order. A nonce counts as
  accepted when one connection accepted it.\<close>

definition submit_sequential_wave :: "nat \<Rightarrow> (u64 \<times> (string + unit)) list \<Rightarrow> u64 \<times> (u64 \<times> TxPoolError) list" where
  "submit_sequential_wave num_clients results =
     (if num_clients = 0 then (0, [])
      else (of_nat (length (remdups (map fst (filter (is_ok \<circ> snd) results)))),
        List.map_filter (\<lambda>(nonce, r). case r of Inl e \<Rightarrow> Some (nonce, classify_tx_error e) | Inr _ \<Rightarrow> None) results))"

datatype upload_status = Running | Completed | Aborted | Panicked

record upload =
  up_best_nonce :: u64
  up_finalized_nonce :: u64
  up_waves :: u64
  up_submitted :: u64
  up_errors :: u64
  up_measure_start :: bool
  up_measure_end :: bool
  up_end_finalized_block :: u64
  up_signed :: "PreSignedTx list"
  up_status :: upload_status

text \<open>What happens to a wave beyond the program: whether subxt could sign it, the number of
  connections, and the result of each submission.\<close>

record wave_env =
  we_signed :: bool
  we_clients :: nat
  we_results :: "PreSignedTx list \<Rightarrow> (u64 \<times> (string + unit)) list"

text \<open>Sign and submit the payloads \<open>from_idx..to_idx\<close>, with the indices computed from nonces.
  \<open>Aborted\<close> is an error of signing.\<close>

definition sign_and_submit :: "u8 list list \<Rightarrow> u64 \<Rightarrow> u64 \<Rightarrow> u64 \<Rightarrow> wave_env \<Rightarrow> upload \<Rightarrow> upload" where
  "sign_and_submit payloads start_nonce from_nonce to_nonce env s =
     (let from_idx = unat (from_nonce - start_nonce); to_idx = unat (to_nonce - start_nonce)
      in if from_idx \<le> to_idx \<and> to_idx \<le> length payloads
         then if \<not> we_signed env then s\<lparr>up_status := Aborted\<rparr>
           else let batch = sign_sequential_txs (take (to_idx - from_idx) (drop from_idx payloads)) from_nonce;
                (ok, errs) = submit_sequential_wave (we_clients env) (we_results env batch)
           in s\<lparr>up_signed := up_signed s @ batch, up_submitted := up_submitted s + ok,
                up_errors := up_errors s + of_nat (length errs)\<rparr>
         else s\<lparr>up_status := Panicked\<rparr>)"

definition upload_start :: "u8 list list \<Rightarrow> u64 \<Rightarrow> ChainLimits \<Rightarrow> wave_env \<Rightarrow> upload" where
  "upload_start payloads start_nonce l env =
     (let s = sign_and_submit payloads start_nonce start_nonce
            (start_nonce + of_nat (compute_batch_end payloads 0 l)) env
            \<lparr>up_best_nonce = start_nonce, up_finalized_nonce = start_nonce, up_waves = 0, up_submitted = 0,
             up_errors = 0, up_measure_start = False, up_measure_end = False, up_end_finalized_block = 0,
             up_signed = [], up_status = Running\<rparr>
      in s\<lparr>up_waves := up_waves s + 1\<rparr>)"

datatype upload_event =
    BestSeen "string + u64" wave_env
  | FinalizedSeen u64 "u64 option"
  | SubscriptionEnded
  | IdleTick

text \<open>One turn of the select loop. In the loop, a wave that could not be signed is only logged. The nonce at a finalized head may be unreadable.\<close>

fun upload_step :: "u8 list list \<Rightarrow> u64 \<Rightarrow> ChainLimits \<Rightarrow> upload_event \<Rightarrow> upload \<Rightarrow> upload" where
  "upload_step payloads start_nonce l (BestSeen (Inl e) env) s = s"
| "upload_step payloads start_nonce l (BestSeen (Inr n) env) s =
     (let s1 = s\<lparr>up_best_nonce := n, up_measure_start := (up_measure_start s \<or> start_nonce < n)\<rparr>
      in if start_nonce + of_nat (length payloads) \<le> n then s1\<lparr>up_measure_end := True\<rparr>
         else let s2 = s1\<lparr>up_measure_end := False, up_waves := up_waves s1 + 1\<rparr>;
                from_idx = unat (n - start_nonce);
                feed_to = start_nonce + of_nat (compute_batch_end payloads from_idx l);
                s3 = sign_and_submit payloads start_nonce n feed_to env s2
           in if up_status s3 = Aborted then s3\<lparr>up_status := Running\<rparr> else s3)"
| "upload_step payloads start_nonce l (FinalizedSeen number nonce) s =
     (let new_fin = (case nonce of Some n \<Rightarrow> n | None \<Rightarrow> up_finalized_nonce s);
          s1 = (if up_finalized_nonce s < new_fin then s\<lparr>up_finalized_nonce := new_fin\<rparr> else s)
      in if start_nonce + of_nat (length payloads) \<le> up_finalized_nonce s1
         then s1\<lparr>up_end_finalized_block := number, up_status := Completed\<rparr> else s1)"
| "upload_step payloads start_nonce l SubscriptionEnded s = s\<lparr>up_status := Completed\<rparr>"
| "upload_step payloads start_nonce l IdleTick s = s"

fun upload_run :: "u8 list list \<Rightarrow> u64 \<Rightarrow> ChainLimits \<Rightarrow> upload_event list \<Rightarrow> upload \<Rightarrow> upload" where
  "upload_run payloads start_nonce l [] s = s"
| "upload_run payloads start_nonce l (e # es) s =
     (if up_status s = Running then upload_run payloads start_nonce l es (upload_step payloads start_nonce l e s) else s)"

definition upload_confirmed :: "u64 \<Rightarrow> upload \<Rightarrow> u64" where
  "upload_confirmed start_nonce s = sat_sub (max (up_finalized_nonce s) (up_best_nonce s)) start_nonce"

section \<open>The scan of finalized blocks\<close>

text \<open>What the node answers for one block number: its hash, absent when it cannot be read, and the
  nonce of the account there.\<close>

record scanned_block =
  sb_number :: u64
  sb_hash :: "u8 list option"
  sb_nonce :: "u64 option"
  sb_timestamp :: "u64 option"
  sb_now :: u64

definition zero_hash :: "u8 list" where
  "zero_hash = replicate 32 0"

fun scan_blocks :: "u8 list list \<Rightarrow> u64 \<Rightarrow> scanned_block list \<Rightarrow> u64 \<Rightarrow> BlockStats list option" where
  "scan_blocks payloads start_nonce [] prev_nonce = Some []"
| "scan_blocks payloads start_nonce (b # bs) prev_nonce =
     (case sb_hash b of
        None \<Rightarrow> scan_blocks payloads start_nonce bs prev_nonce
      | Some h \<Rightarrow>
          (if h = zero_hash then scan_blocks payloads start_nonce bs prev_nonce
           else let nonce_at_block = (case sb_nonce b of Some n \<Rightarrow> n | None \<Rightarrow> prev_nonce);
                  our_tx_count = sat_sub nonce_at_block prev_nonce;
                  from_idx = unat (prev_nonce - start_nonce);
                  to_idx = min (unat (nonce_at_block - start_nonce)) (length payloads)
             in if 0 < our_tx_count \<and> to_idx < from_idx then None
                else let bytes = (if 0 < our_tx_count
                       then \<Sum>p\<leftarrow>take (to_idx - from_idx) (drop from_idx payloads). of_nat (length p) else 0);
                     stat = \<lparr>bs_number = sb_number b, bs_tx_count = our_tx_count, bs_payload_bytes = bytes,
                       bs_prefill = False, bs_timestamp_ms = sb_timestamp b, bs_hash = Some h, bs_finalized = True,
                       bs_received_at_ms = Some (sb_now b), bs_interval_ms = None\<rparr>
                  in if start_nonce + of_nat (length payloads) \<le> nonce_at_block then Some [stat]
                     else map_option ((#) stat) (scan_blocks payloads start_nonce bs nonce_at_block)))"

section \<open>Batches fill a block\<close>

definition tx_weight :: "ChainLimits \<Rightarrow> u8 list \<Rightarrow> nat" where
  "tx_weight l p = unat (store_weight_base l) + unat (store_weight_per_byte l) * length p"

definition tx_length :: "ChainLimits \<Rightarrow> u8 list \<Rightarrow> nat" where
  "tx_length l p = length p + unat (extrinsic_length_overhead l)"

definition fits_block :: "ChainLimits \<Rightarrow> u8 list list \<Rightarrow> bool" where
  "fits_block l ps \<longleftrightarrow> (\<Sum>p\<leftarrow>ps. tx_weight l p) \<le> unat (max_normal_weight l)
     \<and> (\<Sum>p\<leftarrow>ps. tx_length l p) \<le> unat (normal_block_length l) \<and> length ps \<le> unat (max_block_transactions l)"

text \<open>The sums of the loop do not wrap.\<close>

definition limits_sane :: "ChainLimits \<Rightarrow> u8 list list \<Rightarrow> bool" where
  "limits_sane l payloads \<longleftrightarrow> (\<forall>p \<in> set payloads. tx_weight l p + unat (max_normal_weight l) < 2 ^ 64
     \<and> tx_length l p + unat (normal_block_length l) < 2 ^ 64) \<and> max_block_transactions l \<noteq> - 1"

lemma per_tx_exact:
  assumes "limits_sane l payloads" and "p \<in> set payloads"
  shows "unat (weight_per_tx l (of_nat (length p))) = tx_weight l p" "unat (length_per_tx l (of_nat (length p))) = tx_length l p"
proof -
  have b: "tx_weight l p < 2 ^ 64" "tx_length l p < 2 ^ 64" using assms by (auto simp: limits_sane_def)
  then have len: "unat (of_nat (length p) :: u64) = length p" by (intro unat_of_nat_u64) (simp add: tx_length_def)
  have "unat (store_weight_per_byte l) * length p < 2 ^ 64" using b(1) by (simp add: tx_weight_def)
  then have "unat (store_weight_per_byte l * of_nat (length p)) = unat (store_weight_per_byte l) * length p"
    by (simp add: unat_word_ariths len del: unat_of_nat)
  then show "unat (weight_per_tx l (of_nat (length p))) = tx_weight l p"
    using b(1) by (simp add: weight_per_tx_def tx_weight_def unat_plus_if' del: unat_of_nat)
  show "unat (length_per_tx l (of_nat (length p))) = tx_length l p"
    using b(2) len by (simp add: length_per_tx_def tx_length_def unat_plus_if' del: unat_of_nat)
qed

lemma batch_loop_spec:
  assumes "limits_sane l payloads" and "idx \<le> length payloads"
    and "unat weight \<le> unat (max_normal_weight l)" "unat len \<le> unat (normal_block_length l)" "unat count \<le> unat (max_block_transactions l)"
  shows "let e = batch_loop payloads l weight len count idx; b = take (e - idx) (drop idx payloads) in
    idx \<le> e \<and> e \<le> length payloads
    \<and> unat weight + (\<Sum>p\<leftarrow>b. tx_weight l p) \<le> unat (max_normal_weight l)
    \<and> unat len + (\<Sum>p\<leftarrow>b. tx_length l p) \<le> unat (normal_block_length l)
    \<and> unat count + length b \<le> unat (max_block_transactions l)
    \<and> (e < length payloads \<longrightarrow>
        unat (max_normal_weight l) < unat weight + (\<Sum>p\<leftarrow>b @ [payloads ! e]. tx_weight l p)
        \<or> unat (normal_block_length l) < unat len + (\<Sum>p\<leftarrow>b @ [payloads ! e]. tx_length l p)
        \<or> unat (max_block_transactions l) < unat count + length (b @ [payloads ! e]))"
  using assms
proof (induction payloads l weight len count idx rule: batch_loop.induct)
  case (1 payloads l weight len count idx)
  show ?case
  proof (cases "idx < length payloads")
    case True
    let ?p = "payloads ! idx"
    let ?w = "weight_per_tx l (of_nat (length ?p))" and ?n = "length_per_tx l (of_nat (length ?p))"
    have p: "?p \<in> set payloads" using True by simp
    note ex = per_tx_exact [OF "1.prems"(1) p]
    have w: "unat (weight + ?w) = unat weight + tx_weight l ?p" "unat (len + ?n) = unat len + tx_length l ?p"
      using "1.prems"(1,3,4) p by (auto simp: unat_plus_if' ex limits_sane_def)
    have c: "unat (count + 1) = Suc (unat count)"
    proof (rule unat_plus_one)
      have "max_block_transactions l \<noteq> - 1" using "1.prems"(1) by (simp add: limits_sane_def)
      moreover have "count \<le> max_block_transactions l" using "1.prems"(5) by (simp add: word_le_nat_alt)
      ultimately show "count \<noteq> - 1" by (metis word_order.extremum_uniqueI)
    qed
    show ?thesis
    proof (cases "max_normal_weight l < weight + ?w \<or> normal_block_length l < len + ?n \<or> max_block_transactions l < count + 1")
      case stop: True
      then have "batch_loop payloads l weight len count idx = idx"
        using True by (subst batch_loop.simps) (auto simp: Let_def)
      with stop "1.prems" True w c show ?thesis by (auto simp: word_less_nat_alt Let_def)
    next
      case go: False
      let ?e = "batch_loop payloads l (weight + ?w) (len + ?n) (count + 1) (Suc idx)"
      have e: "batch_loop payloads l weight len count idx = ?e"
        using go True by (subst batch_loop.simps) (auto simp: Let_def)
      have le: "unat (weight + ?w) \<le> unat (max_normal_weight l)" "unat (len + ?n) \<le> unat (normal_block_length l)"
        "unat (count + 1) \<le> unat (max_block_transactions l)"
        using go by (auto simp: word_less_nat_alt)
      have ih: "let e = ?e; b = take (e - Suc idx) (drop (Suc idx) payloads) in Suc idx \<le> e \<and> e \<le> length payloads
        \<and> unat (weight + ?w) + (\<Sum>p\<leftarrow>b. tx_weight l p) \<le> unat (max_normal_weight l)
        \<and> unat (len + ?n) + (\<Sum>p\<leftarrow>b. tx_length l p) \<le> unat (normal_block_length l)
        \<and> unat (count + 1) + length b \<le> unat (max_block_transactions l)
        \<and> (e < length payloads \<longrightarrow>
            unat (max_normal_weight l) < unat (weight + ?w) + (\<Sum>p\<leftarrow>b @ [payloads ! e]. tx_weight l p)
            \<or> unat (normal_block_length l) < unat (len + ?n) + (\<Sum>p\<leftarrow>b @ [payloads ! e]. tx_length l p)
            \<or> unat (max_block_transactions l) < unat (count + 1) + length (b @ [payloads ! e]))"
        by (rule "1.IH" [OF True refl refl refl]) (use go "1.prems"(1) True le in auto)
      then have "?e - idx = Suc (?e - Suc idx)" by (auto simp: Let_def)
      then have "take (?e - idx) (drop idx payloads) = ?p # take (?e - Suc idx) (drop (Suc idx) payloads)"
        using Cons_nth_drop_Suc [OF True, symmetric] by simp
      with ih show ?thesis by (auto simp: e w c Let_def)
    qed
  next
    case False
    then have "batch_loop payloads l weight len count idx = idx" by (subst batch_loop.simps) simp
    with "1.prems" False show ?thesis by simp
  qed
qed

lemma batch_end_spec:
  assumes "limits_sane l payloads" and "i \<le> length payloads"
  shows "i \<le> compute_batch_end payloads i l" "compute_batch_end payloads i l \<le> length payloads"
    "fits_block l (take (compute_batch_end payloads i l - i) (drop i payloads))"
    "compute_batch_end payloads i l < length payloads \<Longrightarrow>
       \<not> fits_block l (take (compute_batch_end payloads i l - i) (drop i payloads) @ [payloads ! compute_batch_end payloads i l])"
  using batch_loop_spec [OF assms, of 0 0 0] by (auto simp: compute_batch_end_def fits_block_def Let_def)

lemma batch_end_range: "i \<le> length payloads \<Longrightarrow> i \<le> compute_batch_end payloads i l \<and> compute_batch_end payloads i l \<le> length payloads"
proof -
  have "idx \<le> length payloads \<Longrightarrow> idx \<le> batch_loop payloads l w n c idx \<and> batch_loop payloads l w n c idx \<le> length payloads" for w n c idx
  proof (induction payloads l w n c idx rule: batch_loop.induct)
    case (1 payloads l weight len count idx)
    show ?case
    proof (cases "idx < length payloads")
      case True
      with "1.IH" [OF True refl refl refl] show ?thesis by (subst (1 2) batch_loop.simps) (auto simp: Let_def)
    qed (use "1.prems" in \<open>subst (1 2) batch_loop.simps; simp\<close>)
  qed
  then show "i \<le> length payloads \<Longrightarrow> ?thesis" by (simp add: compute_batch_end_def)
qed

lemma fits_block_replicate:
  "0 < tx_weight l p \<Longrightarrow> 0 < tx_length l p \<Longrightarrow> fits_block l (replicate k p) \<longleftrightarrow>
     k \<le> min (min (unat (max_normal_weight l) div tx_weight l p) (unat (normal_block_length l) div tx_length l p))
           (unat (max_block_transactions l))"
  by (simp add: fits_block_def sum_list_replicate map_replicate_const less_eq_div_iff_mult_less_eq)

lemma capacity_exact:
  assumes sane: "limits_sane l [p]" and pos: "0 < tx_weight l p" "0 < tx_length l p"
  shows "\<exists>c. estimate_block_capacity l (of_nat (length p)) = Some c \<and> unat c =
    min (min (unat (max_normal_weight l) div tx_weight l p) (unat (normal_block_length l) div tx_length l p))
      (unat (max_block_transactions l))"
proof -
  note ex = per_tx_exact [OF sane, of p, simplified]
  have "weight_per_tx l (of_nat (length p)) \<noteq> 0" "length_per_tx l (of_nat (length p)) \<noteq> 0"
    using ex pos by (auto simp: unat_eq_zero [symmetric])
  moreover have "unat (min a b :: u64) = min (unat a) (unat b)" for a b by (simp add: min_def word_le_nat_alt)
  ultimately show ?thesis
    by (simp add: estimate_block_capacity_def compute_theoretical_limits_def Let_def unat_div ex)
qed

text \<open>For payloads of one size, the greedy batch is the closed formula.\<close>

lemma batch_end_is_capacity:
  assumes sane: "limits_sane l [p]" and pos: "0 < tx_weight l p" "0 < tx_length l p" and i: "i \<le> n"
    and cap: "estimate_block_capacity l (of_nat (length p)) = Some c"
  shows "compute_batch_end (replicate n p) i l - i = min (n - i) (unat c)"
proof -
  let ?ps = "replicate n p" and ?e = "compute_batch_end (replicate n p) i l"
  have sane': "limits_sane l ?ps" using sane by (auto simp: limits_sane_def)
  note spec = batch_end_spec [OF sane', of i, simplified, OF i]
  have fits: "fits_block l (replicate k p) \<longleftrightarrow> k \<le> unat c" for k
    using fits_block_replicate [OF pos, of k] capacity_exact [OF sane pos] cap by simp
  have b: "take (?e - i) (drop i ?ps) = replicate (?e - i) p" using spec(1,2) by (simp add: min_def)
  have "?e - i \<le> unat c" using spec(3) b fits by simp
  moreover have "?e < n \<Longrightarrow> unat c < Suc (?e - i)"
  proof -
    assume lt: "?e < n"
    have "take (?e - i) (drop i ?ps) @ [?ps ! ?e] = replicate (Suc (?e - i)) p"
      unfolding b using lt by (simp add: replicate_append_same)
    with spec(4) [OF lt] show ?thesis unfolding b by (metis fits not_le lt nth_replicate replicate_Suc replicate_append_same)
  qed
  ultimately show ?thesis using spec(1,2) by (cases "?e < n") auto
qed

text \<open>The regression recovers a linear weight.\<close>

lemma regression_exact:
  assumes "unat b + unat p * 10240 < 2 ^ 64"
  shows "measure_store_weight n (b + p * 1024) (b + p * 10240) = (b, p, sat_sub n 1024)"
proof -
  have u: "unat (p * 1024) = unat p * 1024" "unat (p * 10240) = unat p * 10240"
    using assms by (simp_all add: unat_word_ariths)
  have w: "unat (b + p * 1024) = unat b + unat p * 1024" "unat (b + p * 10240) = unat b + unat p * 10240"
    using assms by (simp_all add: unat_plus_if' u)
  have d: "unat (sat_sub (b + p * 10240) (b + p * 1024)) = unat p * 9216" by (simp add: unat_sat_sub w)
  have "sat_sub (10240 :: u64) 1024 = 9216" by (simp add: sat_sub_def)
  then have q: "sat_sub (b + p * 10240) (b + p * 1024) div sat_sub 10240 1024 = p"
    by (simp add: word_unat_eq_iff unat_div d)
  have "sat_sub (b + p * 1024) (p * 1024) = b" by (simp add: word_unat_eq_iff unat_sat_sub w u)
  then show ?thesis by (simp add: measure_store_weight_def Let_def q)
qed

section \<open>Nonces and payloads\<close>

definition nonces_fit :: "u8 list list \<Rightarrow> u64 \<Rightarrow> bool" where
  "nonces_fit payloads start_nonce \<longleftrightarrow> unat start_nonce + length payloads < 2 ^ 64"

definition signed_ok :: "u8 list list \<Rightarrow> u64 \<Rightarrow> upload \<Rightarrow> bool" where
  "signed_ok payloads start_nonce s \<longleftrightarrow> (\<forall>t \<in> set (up_signed s).
     start_nonce \<le> ps_nonce t \<and> unat (ps_nonce t) - unat start_nonce < length payloads
     \<and> ps_payload t = payloads ! (unat (ps_nonce t) - unat start_nonce))"

lemma signed_ok_update [simp]:
  "signed_ok ps n (s\<lparr>up_status := x\<rparr>) = signed_ok ps n s" "signed_ok ps n (s\<lparr>up_waves := w\<rparr>) = signed_ok ps n s"
  "signed_ok ps n (s\<lparr>up_measure_end := b\<rparr>) = signed_ok ps n s" "signed_ok ps n (s\<lparr>up_measure_start := b\<rparr>) = signed_ok ps n s"
  "signed_ok ps n (s\<lparr>up_best_nonce := w\<rparr>) = signed_ok ps n s" "signed_ok ps n (s\<lparr>up_finalized_nonce := w\<rparr>) = signed_ok ps n s"
  "signed_ok ps n (s\<lparr>up_end_finalized_block := w\<rparr>) = signed_ok ps n s"
  by (simp_all add: signed_ok_def)

lemma position_nonce:
  assumes "nonces_fit payloads start_nonce" and "i \<le> length payloads"
  shows "unat (start_nonce + of_nat i) = unat start_nonce + i" "unat (start_nonce + of_nat i - start_nonce) = i"
proof -
  have i: "unat (of_nat i :: u64) = i" using assms by (intro unat_of_nat_u64) (simp add: nonces_fit_def)
  then show "unat (start_nonce + of_nat i) = unat start_nonce + i"
    using assms by (simp add: unat_plus_if' nonces_fit_def del: unat_of_nat)
  show "unat (start_nonce + of_nat i - start_nonce) = i" using i by simp
qed

lemma sign_and_submit_status [simp]:
  "up_status (sign_and_submit payloads start_nonce a b env s) =
     (if unat (a - start_nonce) \<le> unat (b - start_nonce) \<and> unat (b - start_nonce) \<le> length payloads
      then if we_signed env then up_status s else Aborted else Panicked)"
  by (simp add: sign_and_submit_def Let_def split_beta)

lemma sign_and_submit_signed_ok:
  assumes fit: "nonces_fit payloads start_nonce" and ok: "signed_ok payloads start_nonce s"
    and a: "start_nonce \<le> a" "unat a - unat start_nonce \<le> length payloads"
  shows "signed_ok payloads start_nonce (sign_and_submit payloads start_nonce a b env s)"
proof -
  let ?i = "unat (a - start_nonce)"
  have i: "?i = unat a - unat start_nonce" using a(1) by (rule unat_sub)
  have ai: "a + of_nat k = start_nonce + of_nat (?i + k)" for k by simp
  have "signed_ok payloads start_nonce (s\<lparr>up_signed := up_signed s @ sign_sequential_txs (take m (drop ?i payloads)) a\<rparr>)" for m
  proof -
    have "start_nonce \<le> ps_nonce t \<and> unat (ps_nonce t) - unat start_nonce < length payloads
        \<and> ps_payload t = payloads ! (unat (ps_nonce t) - unat start_nonce)"
      if "t \<in> set (sign_sequential_txs (take m (drop ?i payloads)) a)" for t
    proof -
      from that obtain k where k: "k < length (take m (drop ?i payloads))"
        "t = \<lparr>ps_nonce = a + of_nat k, ps_payload = take m (drop ?i payloads) ! k\<rparr>"
        by (auto simp: sign_sequential_txs_def in_set_enumerate_eq)
      then have lt: "?i + k < length payloads" by (auto simp: less_diff_conv add.commute)
      have "unat (a + of_nat k) = unat start_nonce + (?i + k)"
        unfolding ai using position_nonce(1) [OF fit, of "?i + k"] lt by (simp del: of_nat_add)
      with k lt show ?thesis by (simp add: word_le_nat_alt)
    qed
    with ok show ?thesis unfolding signed_ok_def by auto
  qed
  then show ?thesis using ok
    by (auto simp: sign_and_submit_def Let_def split_beta signed_ok_def)
qed

lemma batch_end_outside: "length payloads \<le> i \<Longrightarrow> compute_batch_end payloads i l = i"
  unfolding compute_batch_end_def by (subst batch_loop.simps) simp

lemma upload_step_ok:
  assumes fit: "nonces_fit payloads start_nonce" and ok: "signed_ok payloads start_nonce s" and run: "up_status s = Running"
    and e: "case e of BestSeen (Inr n) _ \<Rightarrow> start_nonce \<le> n | _ \<Rightarrow> True"
  shows "signed_ok payloads start_nonce (upload_step payloads start_nonce l e s)"
    and "up_status (upload_step payloads start_nonce l e s) \<in> {Running, Completed}"
proof -
  have "signed_ok payloads start_nonce (upload_step payloads start_nonce l e s)
    \<and> up_status (upload_step payloads start_nonce l e s) \<in> {Running, Completed}"
  proof (cases e)
    case (BestSeen r env)
    show ?thesis
    proof (cases r)
      case (Inr n)
      let ?stop = "compute_batch_end payloads (unat (n - start_nonce)) l"
      have n: "start_nonce \<le> n" using e by (simp add: BestSeen Inr)
      then have i: "unat (n - start_nonce) = unat n - unat start_nonce" by (rule unat_sub)
      show ?thesis
      proof (cases "start_nonce + of_nat (length payloads) \<le> n")
        case False
        then have lt: "unat n - unat start_nonce \<le> length payloads"
          using position_nonce(1) [OF fit, of "length payloads"] by (simp add: word_le_nat_alt not_le)
        note range = batch_end_range [OF lt, of l, folded i]
        have "unat (start_nonce + of_nat ?stop - start_nonce) = ?stop" using position_nonce(2) [OF fit] range by blast
        with False run range BestSeen Inr lt i n ok show ?thesis
          by (auto simp: Let_def intro!: sign_and_submit_signed_ok [OF fit])
      qed (use run ok BestSeen Inr in \<open>simp add: Let_def\<close>)
    qed (use run ok BestSeen in simp)
  next
    case (FinalizedSeen number nonce)
    then show ?thesis using run ok by (simp add: Let_def)
  qed (use run ok in simp_all)
  then show "signed_ok payloads start_nonce (upload_step payloads start_nonce l e s)"
    "up_status (upload_step payloads start_nonce l e s) \<in> {Running, Completed}" by blast+
qed

text \<open>A best block with a nonce below the first one: the index underflows and the slice panics.\<close>

lemma upload_step_panics:
  assumes fit: "nonces_fit payloads start_nonce" and n: "n < start_nonce"
  shows "up_status (upload_step payloads start_nonce l (BestSeen (Inr n) env) s) = Panicked"
proof -
  let ?i = "unat (n - start_nonce)"
  have i: "?i = 2 ^ 64 + unat n - unat start_nonce"
    using n unat_u64_less [of start_nonce] by (simp add: unat_sub_if' word_less_nat_alt)
  then have big: "length payloads < ?i" using fit n by (simp add: nonces_fit_def word_less_nat_alt)
  then have out: "compute_batch_end payloads ?i l = ?i" by (simp add: batch_end_outside)
  have "\<not> start_nonce + of_nat (length payloads) \<le> n"
    using n position_nonce(1) [OF fit order_refl] by (simp add: word_le_nat_alt word_less_nat_alt)
  then show ?thesis using big by (simp add: Let_def out)
qed

lemma upload_run_ok:
  assumes "nonces_fit payloads start_nonce" and "signed_ok payloads start_nonce s" and "up_status s \<in> {Running, Completed}"
    and "\<And>e. e \<in> set es \<Longrightarrow> case e of BestSeen (Inr n) _ \<Rightarrow> start_nonce \<le> n | _ \<Rightarrow> True"
  shows "signed_ok payloads start_nonce (upload_run payloads start_nonce l es s)
    \<and> up_status (upload_run payloads start_nonce l es s) \<in> {Running, Completed}"
  using assms(2-)
proof (induction es arbitrary: s)
  case (Cons e es)
  show ?case
  proof (cases "up_status s = Running")
    case True
    have e: "case e of BestSeen (Inr n) _ \<Rightarrow> start_nonce \<le> n | _ \<Rightarrow> True" using Cons.prems(3) by simp
    have "signed_ok payloads start_nonce (upload_run payloads start_nonce l es (upload_step payloads start_nonce l e s))
      \<and> up_status (upload_run payloads start_nonce l es (upload_step payloads start_nonce l e s)) \<in> {Running, Completed}"
      by (rule Cons.IH [OF upload_step_ok [OF assms(1) Cons.prems(1) True e]]) (use Cons.prems(3) in auto)
    with True show ?thesis by simp
  qed (use Cons.prems in simp)
qed simp

lemma upload_start_ok:
  assumes "nonces_fit payloads start_nonce" and "we_signed env"
  shows "signed_ok payloads start_nonce (upload_start payloads start_nonce l env)
    \<and> up_status (upload_start payloads start_nonce l env) = Running"
proof -
  have range: "compute_batch_end payloads 0 l \<le> length payloads" using batch_end_range [of 0 payloads l] by simp
  have "unat (start_nonce + of_nat (compute_batch_end payloads 0 l) - start_nonce) = compute_batch_end payloads 0 l"
    by (rule position_nonce(2) [OF assms(1) range])
  with range assms(2) show ?thesis
    by (auto simp: upload_start_def Let_def intro!: sign_and_submit_signed_ok [OF assms(1)]) (simp add: signed_ok_def)
qed

text \<open>The finalized nonce never decreases, and completion by finalization means that it covers all payloads.\<close>

lemma finalized_complete:
  "up_status s = Running \<Longrightarrow> up_status (upload_step payloads start_nonce l (FinalizedSeen number nonce) s) = Completed \<Longrightarrow>
     start_nonce + of_nat (length payloads) \<le> up_finalized_nonce (upload_step payloads start_nonce l (FinalizedSeen number nonce) s)"
  by (auto simp: Let_def split: if_splits)

section \<open>The scan attributes every payload once\<close>

fun scan_end :: "u64 \<Rightarrow> scanned_block list \<Rightarrow> u64 \<Rightarrow> u64" where
  "scan_end expected [] prev = prev"
| "scan_end expected (b # bs) prev =
     (if sb_hash b = None \<or> sb_hash b = Some zero_hash then scan_end expected bs prev
      else let n = (case sb_nonce b of Some n \<Rightarrow> n | None \<Rightarrow> prev)
        in if expected \<le> n then n else scan_end expected bs n)"

fun nonces_grow :: "scanned_block list \<Rightarrow> u64 \<Rightarrow> bool" where
  "nonces_grow [] prev = True"
| "nonces_grow (b # bs) prev = (case sb_nonce b of Some n \<Rightarrow> prev \<le> n \<and> nonces_grow bs n | None \<Rightarrow> nonces_grow bs prev)"

definition payload_bytes_in :: "u8 list list \<Rightarrow> nat \<Rightarrow> nat \<Rightarrow> u64" where
  "payload_bytes_in payloads a b = (\<Sum>p\<leftarrow>take (b - a) (drop a payloads). of_nat (length p))"

lemma payload_bytes_in_split:
  "a \<le> b \<Longrightarrow> b \<le> c \<Longrightarrow> payload_bytes_in payloads a c = payload_bytes_in payloads a b + payload_bytes_in payloads b c"
proof -
  assume "a \<le> b" "b \<le> c"
  then have "take (c - a) (drop a payloads) = take (b - a) (drop a payloads) @ take (c - b) (drop b payloads)"
    using take_add [of "b - a" "c - b" "drop a payloads"] by simp
  then show ?thesis by (simp add: payload_bytes_in_def)
qed

lemma nonces_grow_mono: "nonces_grow bs n \<Longrightarrow> m \<le> n \<Longrightarrow> nonces_grow bs m"
proof (induction bs arbitrary: m n)
  case (Cons b bs)
  then show ?case by (cases "sb_nonce b") auto
qed simp

lemma scan_end_ge: "nonces_grow bs prev \<Longrightarrow> prev \<le> scan_end expected bs prev"
proof (induction bs arbitrary: prev)
  case (Cons b bs)
  show ?case
  proof (cases "sb_nonce b")
    case None
    with Cons show ?thesis by (simp add: Let_def)
  next
    case (Some n)
    with Cons.prems have n: "prev \<le> n" "nonces_grow bs n" by simp_all
    from Cons.IH [OF n(2)] Cons.IH [OF nonces_grow_mono [OF n(2,1)]] n(1) show ?thesis
      by (simp add: Let_def Some) (meson order_trans)
  qed
qed simp

lemma scan_blocks_total:
  assumes fit: "nonces_fit payloads start_nonce" and "start_nonce \<le> prev"
    and "prev < start_nonce + of_nat (length payloads)" and "nonces_grow bs prev"
  shows "\<exists>stats. scan_blocks payloads start_nonce bs prev = Some stats
    \<and> (\<Sum>b\<leftarrow>stats. bs_tx_count b) = scan_end (start_nonce + of_nat (length payloads)) bs prev - prev
    \<and> (\<Sum>b\<leftarrow>stats. bs_payload_bytes b) = payload_bytes_in payloads (unat prev - unat start_nonce)
        (min (unat (scan_end (start_nonce + of_nat (length payloads)) bs prev) - unat start_nonce) (length payloads))"
  using assms(2-)
proof (induction bs arbitrary: prev)
  case (Cons b bs)
  let ?exp = "start_nonce + of_nat (length payloads)"
  have exp: "unat ?exp = unat start_nonce + length payloads" by (rule position_nonce(1) [OF fit order_refl])
  show ?case
  proof (cases "sb_hash b = None \<or> sb_hash b = Some zero_hash")
    case True
    have "nonces_grow bs prev"
      using Cons.prems(3) nonces_grow_mono by (auto split: option.splits)
    from Cons.IH [OF Cons.prems(1,2) this] True show ?thesis by (auto split: option.splits)
  next
    case False
    then obtain h where h: "sb_hash b = Some h" "h \<noteq> zero_hash" by auto
    define n where "n = (case sb_nonce b of Some n \<Rightarrow> n | None \<Rightarrow> prev)"
    have n: "prev \<le> n" "nonces_grow bs n" using Cons.prems(3) by (auto simp: n_def split: option.splits)
    let ?a = "unat prev - unat start_nonce" and ?b = "min (unat n - unat start_nonce) (length payloads)"
    have idx: "unat (prev - start_nonce) = ?a" "unat (n - start_nonce) = unat n - unat start_nonce"
      using Cons.prems(1) n(1) by (auto intro: unat_sub order_trans)
    have ab: "?a \<le> ?b" using Cons.prems(2) n(1) exp by (auto simp: word_le_nat_alt word_less_nat_alt)
    have cnt: "sat_sub n prev = n - prev" using n(1) by (simp add: sat_sub_def)
    let ?bytes = "if 0 < n - prev then payload_bytes_in payloads ?a ?b else 0"
    have bytes: "?bytes = payload_bytes_in payloads ?a ?b"
      using ab n(1) by (auto simp: word_gt_0 payload_bytes_in_def)
    obtain stat where stat: "bs_tx_count stat = n - prev" "bs_payload_bytes stat = ?bytes"
      and eq: "scan_blocks payloads start_nonce (b # bs) prev =
        (if ?exp \<le> n then Some [stat] else map_option ((#) stat) (scan_blocks payloads start_nonce bs n))"
    proof
      let ?stat = "\<lparr>bs_number = sb_number b, bs_tx_count = n - prev, bs_payload_bytes = ?bytes,
        bs_prefill = False, bs_timestamp_ms = sb_timestamp b, bs_hash = Some h, bs_finalized = True,
        bs_received_at_ms = Some (sb_now b), bs_interval_ms = None\<rparr>"
      show "bs_tx_count ?stat = n - prev" "bs_payload_bytes ?stat = ?bytes" by simp_all
      show "scan_blocks payloads start_nonce (b # bs) prev =
        (if ?exp \<le> n then Some [?stat] else map_option ((#) ?stat) (scan_blocks payloads start_nonce bs n))"
        using h ab [folded not_less] by (simp add: Let_def n_def [symmetric] idx cnt payload_bytes_in_def del: min_less_iff_conj min_less_iff_disj)
    qed
    show ?thesis
    proof (cases "?exp \<le> n")
      case True
      with eq stat bytes h show ?thesis by (simp add: Let_def n_def [symmetric])
    next
      case rest: False
      have lt: "n < ?exp" using rest by simp
      have "start_nonce \<le> n" using Cons.prems(1) n(1) by (rule order_trans)
      from Cons.IH [OF this lt n(2)] obtain stats where ih: "scan_blocks payloads start_nonce bs n = Some stats"
        "(\<Sum>b\<leftarrow>stats. bs_tx_count b) = scan_end ?exp bs n - n"
        "(\<Sum>b\<leftarrow>stats. bs_payload_bytes b) = payload_bytes_in payloads (unat n - unat start_nonce)
          (min (unat (scan_end ?exp bs n) - unat start_nonce) (length payloads))" by blast
      have e: "scan_end ?exp (b # bs) prev = scan_end ?exp bs n"
        using h rest by (simp add: Let_def n_def [symmetric])
      have nb: "?b = unat n - unat start_nonce" using lt exp by (simp add: word_less_nat_alt)
      have "unat n \<le> unat (scan_end ?exp bs n)" using scan_end_ge [OF n(2)] by (simp add: word_le_nat_alt)
      then have le: "?b \<le> min (unat (scan_end ?exp bs n) - unat start_nonce) (length payloads)"
        by (intro min.mono diff_le_mono) simp_all
      show ?thesis
        using rest ih stat bytes payload_bytes_in_split [OF ab le] nb unfolding eq e by simp
    qed
  qed
qed (simp add: payload_bytes_in_def)

end
