(* ===== verification/Stress_Discovery.thy ===== *)
theory Stress_Discovery
  imports Storage_Types Stress_Sequential
begin

text \<open>
  How the load generator reads the chain's records: the decoder of stored transaction infos
  and the search for CIDs to download (\<open>stress-test/src/scenarios/bitswap_bulk_read.rs\<close>), the CID
  and the payloads it computes itself (\<open>store.rs\<close>), and the navigation of decoded metadata values
  (\<open>chain_info.rs\<close>). The compact integers of SCALE and the multihash crate are parameters. Shown
  here: the decoder inverts the encoding of the pallet's \<open>TransactionInfo\<close> record by record, and
  the CIDs it computes are those of the chain.
\<close>

section \<open>Decoding\<close>

text \<open>A decoder consumes a prefix of its input, or fails.\<close>

type_synonym 'a decoder = "u8 list \<Rightarrow> ('a \<times> u8 list) option"

definition decode_bytes :: "nat \<Rightarrow> u8 list decoder" where
  "decode_bytes n bs = (if length bs < n then None else Some (take n bs, drop n bs))"

definition decode_u8 :: "u8 decoder" where
  "decode_u8 bs = (case bs of [] \<Rightarrow> None | b # rest \<Rightarrow> Some (b, rest))"

definition decode_le :: "nat \<Rightarrow> 'a::len word decoder" where
  "decode_le n bs = map_option (\<lambda>(b, rest). (from_le b, rest)) (decode_bytes n bs)"

record DiscoveredItem =
  di_cid :: "u64 \<times> Multihash"
  di_size :: u32
  di_chunk_root :: "u8 list"
  di_content_hash :: "u8 list"
  di_hashing_variant :: u8
  di_cid_codec :: u64
  di_block_chunks :: u32
  di_block_number :: u64

definition mh_code_of_variant :: "u8 \<Rightarrow> u64 option" where
  "mh_code_of_variant v = (if v = 0 then Some 0xb220 else if v = 1 then Some 0x12 else if v = 2 then Some 0x1b else None)"

definition decode_one_transaction_info :: "host \<Rightarrow> u64 \<Rightarrow> DiscoveredItem option decoder" where
  "decode_one_transaction_info h block_number input =
     (case decode_bytes 32 input of None \<Rightarrow> None | Some (chunk_root, i1) \<Rightarrow>
      case decode_bytes 32 i1 of None \<Rightarrow> None | Some (content_hash, i2) \<Rightarrow>
      case decode_u8 i2 of None \<Rightarrow> None | Some (hashing_variant, i3) \<Rightarrow>
      case decode_le 8 i3 of None \<Rightarrow> None | Some (cid_codec, i4) \<Rightarrow>
      case decode_le 4 i4 of None \<Rightarrow> None | Some (sz, i5) \<Rightarrow>
      case decode_le 4 i5 of None \<Rightarrow> None | Some (extrinsic_index :: u32, i6) \<Rightarrow>
      case decode_le 4 i6 of None \<Rightarrow> None | Some (block_chunks, i7) \<Rightarrow>
      case decode_u8 i7 of None \<Rightarrow> None | Some (kind, rest) \<Rightarrow>
      case mh_code_of_variant hashing_variant of
        None \<Rightarrow> Some (None, rest)
      | Some mh_code \<Rightarrow>
          (case multihash_wrap h mh_code content_hash of
             None \<Rightarrow> Some (None, rest)
           | Some mh \<Rightarrow> Some (Some \<lparr>di_cid = (cid_codec, mh), di_size = sz, di_chunk_root = chunk_root,
               di_content_hash = content_hash, di_hashing_variant = hashing_variant, di_cid_codec = cid_codec,
               di_block_chunks = block_chunks, di_block_number = block_number\<rparr>, rest)))"

fun decode_items :: "host \<Rightarrow> u64 \<Rightarrow> nat \<Rightarrow> u8 list \<Rightarrow> DiscoveredItem list" where
  "decode_items h block_number 0 input = []"
| "decode_items h block_number (Suc n) input =
     (case decode_one_transaction_info h block_number input of
        None \<Rightarrow> []
      | Some (Some item, rest) \<Rightarrow> item # decode_items h block_number n rest
      | Some (None, rest) \<Rightarrow> decode_items h block_number n rest)"

definition decode_transaction_infos :: "host \<Rightarrow> u64 decoder \<Rightarrow> u8 list \<Rightarrow> u64 \<Rightarrow> DiscoveredItem list" where
  "decode_transaction_infos h compact data block_number = (case compact data of
       None \<Rightarrow> []
     | Some (count, input) \<Rightarrow> decode_items h block_number (unat count) input)"

section \<open>Discovery\<close>

definition block_of_key :: "u8 list \<Rightarrow> u64" where
  "block_of_key key_bytes =
     (if 36 \<le> length key_bytes then u32_to_u64 (from_le (drop (length key_bytes - 4) key_bytes)) else 0)"

text \<open>The loop over the storage entries; an entry that could not be read is skipped. The result is
  the matching items, their bytes and the number of items of another size.\<close>

fun discover_loop ::
    "host \<Rightarrow> u64 decoder \<Rightarrow> u64 \<Rightarrow> u32 \<Rightarrow> u32 \<Rightarrow> (string + u8 list \<times> u8 list) list
      \<Rightarrow> DiscoveredItem list \<times> u64 \<times> u64 \<Rightarrow> DiscoveredItem list \<times> u64 \<times> u64" where
  "discover_loop h compact target_bytes min_size max_size [] acc = acc"
| "discover_loop h compact target_bytes min_size max_size (Inl e # entries) acc =
     discover_loop h compact target_bytes min_size max_size entries acc"
| "discover_loop h compact target_bytes min_size max_size (Inr (key, val) # entries) (items, total_bytes, skipped) =
     (let parsed = decode_transaction_infos h compact val (block_of_key key);
          ok = filter (\<lambda>i. min_size \<le> di_size i \<and> di_size i \<le> max_size) parsed;
          total' = total_bytes + (\<Sum>i\<leftarrow>ok. u32_to_u64 (di_size i));
          acc' = (items @ ok, total', skipped + of_nat (length parsed - length ok))
      in if target_bytes \<le> total' then acc'
         else discover_loop h compact target_bytes min_size max_size entries acc')"

definition discover_cids ::
    "host \<Rightarrow> u64 decoder \<Rightarrow> u64 \<Rightarrow> u32 \<Rightarrow> u32 \<Rightarrow> (string + u8 list \<times> u8 list) list \<Rightarrow> string + DiscoveredItem list" where
  "discover_cids h compact target_bytes min_size max_size entries =
     (let (items, _, _) = discover_loop h compact target_bytes min_size max_size entries ([], 0, 0)
      in if items = [] then Inl ''No CIDs found matching size'' else Inr items)"

section \<open>Payloads and CIDs of the generator\<close>

text \<open>\<open>generate_indexed_payload\<close> on the random bytes that \<open>generate_payload\<close> returned.\<close>

definition generate_indexed_payload :: "u8 list \<Rightarrow> u32 \<Rightarrow> u8 list" where
  "generate_indexed_payload data index =
     map2 (XOR) (take (length data) (le_bytes 4 index)) data @ drop 4 data"

definition compute_cid_blake2b256 :: "host \<Rightarrow> u8 list \<Rightarrow> string + (u64 \<times> Multihash)" where
  "compute_cid_blake2b256 h data = (case multihash_wrap h 0xb220 (blake2_256 h data) of
       None \<Rightarrow> Inl ''multihash wrap failed''
     | Some mh \<Rightarrow> Inr (0x55, mh))"

section \<open>Navigation of decoded values\<close>

datatype ValueDef =
    Composite_Named "(string \<times> ValueDef) list"
  | Composite_Unnamed "ValueDef list"
  | Variant_Named string "(string \<times> ValueDef) list"
  | Variant_Unnamed string "ValueDef list"
  | Primitive_U128 "128 word"
  | Primitive_U256 "u8 list"
  | Primitive_Other

fun find_named_field :: "ValueDef \<Rightarrow> string \<Rightarrow> ValueDef option" where
  "find_named_field (Composite_Named fs) field_name = map_of fs field_name"
| "find_named_field _ field_name = None"

fun unwrap_option_some :: "ValueDef \<Rightarrow> ValueDef option" where
  "unwrap_option_some (Variant_Unnamed name vals) =
     (if name = ''Some'' then (case vals of [] \<Rightarrow> None | v # _ \<Rightarrow> Some v) else None)"
| "unwrap_option_some (Variant_Named name fs) =
     (if name = ''Some'' then (case fs of [] \<Rightarrow> None | (_, v) # _ \<Rightarrow> Some v) else None)"
| "unwrap_option_some _ = None"

fun value_to_u64 :: "ValueDef \<Rightarrow> u64 option" where
  "value_to_u64 (Primitive_U128 n) = Some (ucast n)"
| "value_to_u64 (Primitive_U256 bytes) = Some (from_le (take 8 bytes))"
| "value_to_u64 _ = None"

text \<open>The chain of optional steps that \<open>and_then\<close> builds.\<close>

definition query_block_limits :: "ValueDef \<Rightarrow> ValueDef \<Rightarrow> string + (u64 \<times> u64 \<times> u64)" where
  "query_block_limits bw bl =
     and_then (ok_or (Option.bind (find_named_field bw ''per_class'') (\<lambda>v. find_named_field v ''normal''))
        ''Cannot navigate BlockWeights.per_class.normal'') (\<lambda>normal_class.
     and_then (ok_or (Option.bind (Option.bind (Option.bind (find_named_field normal_class ''max_total'') unwrap_option_some)
          (\<lambda>v. find_named_field v ''ref_time'')) value_to_u64)
        ''Cannot extract max_total.ref_time from BlockWeights'') (\<lambda>max_total.
     and_then (ok_or (Option.bind (Option.bind (find_named_field normal_class ''base_extrinsic'')
          (\<lambda>v. find_named_field v ''ref_time'')) value_to_u64)
        ''Cannot extract base_extrinsic.ref_time from BlockWeights'') (\<lambda>base_extrinsic.
     and_then (ok_or (Option.bind (Option.bind (find_named_field bl ''max'') (\<lambda>v. find_named_field v ''normal'')) value_to_u64)
        ''Cannot extract BlockLength.max.normal'') (\<lambda>normal_length.
     Inr (max_total, base_extrinsic, normal_length)))))"

definition query_storage_limits :: "ValueDef \<Rightarrow> ValueDef \<Rightarrow> string + (u32 \<times> u32)" where
  "query_storage_limits max_block_txs max_tx_size =
     and_then (ok_or (value_to_u64 max_block_txs) ''Cannot decode MaxBlockTransactions'') (\<lambda>a.
     and_then (ok_or (value_to_u64 max_tx_size) ''Cannot decode MaxTransactionSize'') (\<lambda>b.
     Inr (ucast a, ucast b)))"

text \<open>\<open>ChainLimits::query\<close> over the constants and the two measured transactions.\<close>

definition chain_limits_query ::
    "ValueDef \<Rightarrow> ValueDef \<Rightarrow> ValueDef \<Rightarrow> ValueDef \<Rightarrow> string + (u64 \<times> u64 \<times> u64) \<Rightarrow> string + ChainLimits" where
  "chain_limits_query bw bl max_block_txs max_tx_size measured =
     and_then (query_block_limits bw bl) (\<lambda>(mw, eb, nl).
     and_then (query_storage_limits max_block_txs max_tx_size) (\<lambda>(mt, ms).
     and_then measured (\<lambda>(len_small, weight_small, weight_large).
     case measure_store_weight len_small weight_small weight_large of (base, per_byte, overhead) \<Rightarrow>
     Inr \<lparr>max_normal_weight = mw, extrinsic_base_weight = eb, normal_block_length = nl, max_block_transactions = mt,
          max_transaction_size = ms, store_weight_base = base, store_weight_per_byte = per_byte,
          extrinsic_length_overhead = overhead\<rparr>)))"

section \<open>Redaction\<close>

definition starts_with :: "string \<Rightarrow> string \<Rightarrow> bool" where
  "starts_with s p = (take (length p) s = p)"

fun redact_args :: "string list \<Rightarrow> bool \<Rightarrow> string list" where
  "redact_args [] skip_next = []"
| "redact_args (arg # args) skip_next =
     (if skip_next then ''<redacted>'' # redact_args args False
      else if arg = ''--authorizer-seed'' then arg # redact_args args True
      else if starts_with arg ''--authorizer-seed='' then ''--authorizer-seed=<redacted>'' # redact_args args False
      else arg # redact_args args False)"

fun join_with :: "string \<Rightarrow> string list \<Rightarrow> string" where
  "join_with sep [] = []"
| "join_with sep [x] = x"
| "join_with sep (x # xs) = x @ sep @ join_with sep xs"

definition redact_seed :: "string list \<Rightarrow> string" where
  "redact_seed args = join_with '' '' (redact_args args False)"

section \<open>The decoder inverts the encoding\<close>

text \<open>The SCALE encoding of the pallet's record, field by field.\<close>

fun entry_kind_index :: "EntryKind \<Rightarrow> u8" where
  "entry_kind_index Store = 0"
| "entry_kind_index Renew = 1"

definition encode_transaction_info :: "EntryKind TransactionInfo \<Rightarrow> u8 list" where
  "encode_transaction_info e = ti_chunk_root e @ ti_content_hash e @ [hashing_index (ti_hashing e)]
     @ le_bytes 8 (ti_cid_codec e) @ le_bytes 4 (ti_size e) @ le_bytes 4 (ti_extrinsic_index e)
     @ le_bytes 4 (ti_block_chunks e) @ [entry_kind_index (ti_meta e)]"

text \<open>The item that stands for a record; its CID is that of the chain.\<close>

definition discovered :: "u64 \<Rightarrow> EntryKind TransactionInfo \<Rightarrow> DiscoveredItem" where
  "discovered block_number e = \<lparr>di_cid = (ti_cid_codec e, multihash_code (ti_hashing e), ti_content_hash e),
     di_size = ti_size e, di_chunk_root = ti_chunk_root e, di_content_hash = ti_content_hash e,
     di_hashing_variant = hashing_index (ti_hashing e), di_cid_codec = ti_cid_codec e,
     di_block_chunks = ti_block_chunks e, di_block_number = block_number\<rparr>"

definition hashes_32 :: "EntryKind TransactionInfo \<Rightarrow> bool" where
  "hashes_32 e \<longleftrightarrow> length (ti_chunk_root e) = 32 \<and> length (ti_content_hash e) = 32"

lemma decode_bytes_append [simp]: "length a = n \<Longrightarrow> decode_bytes n (a @ b) = Some (a, b)"
  by (auto simp: decode_bytes_def)

lemma decode_u8_Cons [simp]: "decode_u8 (b # bs) = Some (b, bs)"
  by (simp add: decode_u8_def)

lemma decode_le_u32 [simp]: "decode_le 4 (le_bytes 4 (w :: u32) @ bs) = Some (w, bs)"
  by (simp add: decode_le_def)

lemma decode_le_u64 [simp]: "decode_le 8 (le_bytes 8 (w :: u64) @ bs) = Some (w, bs)"
  by (simp add: decode_le_def)

lemma mh_code_of_index [simp]: "mh_code_of_variant (hashing_index a) = Some (multihash_code a)"
  by (cases a) (simp_all add: mh_code_of_variant_def)

lemma decode_one_inverse:
  assumes "multihash_wrap_spec h" and "hashes_32 e"
  shows "decode_one_transaction_info h block_number (encode_transaction_info e @ rest)
    = Some (Some (discovered block_number e), rest)"
  using assms
  by (simp add: decode_one_transaction_info_def encode_transaction_info_def discovered_def hashes_32_def multihash_wrap_spec_def)

lemma decode_items_inverse:
  assumes "multihash_wrap_spec h" and "\<And>e. e \<in> set es \<Longrightarrow> hashes_32 e"
  shows "decode_items h block_number (length es) (concat (map encode_transaction_info es) @ rest) = map (discovered block_number) es"
  using assms(2) by (induction es) (simp_all add: decode_one_inverse [OF assms(1)])

text \<open>A truncated value yields the records before the cut, never others.\<close>

lemma length_of_drop: "drop n xs = y # ys \<Longrightarrow> length xs = Suc (n + length ys)"
  by (metis add_Suc_right length_Cons length_drop less_imp_add_positive drop_eq_Nil2 le_add_diff_inverse list.distinct(1) nat_le_linear)

lemma decode_one_length:
  "decode_one_transaction_info h b input = Some (x, rest) \<Longrightarrow> length input = 86 + length rest"
  by (auto simp: decode_one_transaction_info_def decode_bytes_def decode_le_def decode_u8_def
      split: option.splits if_splits prod.splits list.splits dest!: length_of_drop)

lemma decode_items_count: "length (decode_items h b n input) \<le> n"
  by (induction n arbitrary: input) (auto split: option.splits intro: le_SucI)

lemma decode_items_truncated:
  "length input < 86 \<Longrightarrow> decode_items h b n input = []"
  using decode_one_length by (cases n) (fastforce split: option.splits)+

definition compact_spec :: "(u64 \<Rightarrow> u8 list) \<Rightarrow> u64 decoder \<Rightarrow> bool" where
  "compact_spec enc dec \<longleftrightarrow> (\<forall>n rest. dec (enc n @ rest) = Some (n, rest))"

text \<open>The CID the generator computes for a payload is the one the chain assigns to a plain store.\<close>

lemma generator_cid:
  assumes "multihash_wrap_spec h" and "hash_len_spec h"
  shows "\<exists>cd. calculate_cid h data \<lparr>cc_codec = RAW_CODEC, cc_hashing = Blake2b256\<rparr> = Inr cd
    \<and> cid_try_from h cd = map_err (\<lambda>_. CidError) (compute_cid_blake2b256 h data)"
proof -
  let ?cd = "\<lparr>cd_content_hash = blake2_256 h data, cd_hashing = Blake2b256, cd_codec = RAW_CODEC\<rparr>"
  have "length (blake2_256 h data) = 32" using assms(2) by (simp add: hash_len_spec_def)
  then have "multihash_wrap h 0xb220 (blake2_256 h data) = Some (0xb220, blake2_256 h data)"
    using assms(1) by (simp add: multihash_wrap_spec_def)
  then show ?thesis
    by (intro exI [of _ ?cd]) (simp add: calculate_cid_def cid_try_from_def compute_cid_blake2b256_def RAW_CODEC_def)
qed

text \<open>Payloads of four bytes or more that come from the same random bytes differ by their index.\<close>

lemma indexed_payload_inj:
  assumes "4 \<le> length data" and "generate_indexed_payload data i = generate_indexed_payload data j"
  shows "i = j"
proof -
  let ?x = "\<lambda>i. map2 (XOR) (le_bytes 4 i) data"
  have "generate_indexed_payload data i = ?x i @ drop 4 data" for i
    using assms(1) by (simp add: generate_indexed_payload_def)
  then have eq: "?x i = ?x j" using assms by simp
  have "le_bytes 4 i ! k = le_bytes 4 j ! k" if "k < 4" for k
  proof -
    have "(le_bytes 4 i ! k) XOR (data ! k) = (le_bytes 4 j ! k) XOR (data ! k)"
      using arg_cong [OF eq, of "\<lambda>xs. xs ! k"] that assms(1) by simp
    then have "((le_bytes 4 i ! k) XOR (data ! k)) XOR (data ! k) = ((le_bytes 4 j ! k) XOR (data ! k)) XOR (data ! k)"
      by (rule arg_cong)
    then show ?thesis by (simp add: xor.assoc)
  qed
  then have "le_bytes 4 i = le_bytes 4 j" by (intro nth_equalityI) simp_all
  then show ?thesis by (metis from_le_bytes_u32)
qed

lemma length_indexed_payload: "length (generate_indexed_payload data i) = length data"
  by (simp add: generate_indexed_payload_def)

text \<open>The recorded command line does not depend on the seed.\<close>

fun pending_redaction :: "string list \<Rightarrow> bool \<Rightarrow> bool" where
  "pending_redaction [] skip_next = skip_next"
| "pending_redaction (arg # args) skip_next = pending_redaction args (\<not> skip_next \<and> arg = ''--authorizer-seed'')"

lemma redact_args_append: "redact_args (xs @ ys) b = redact_args xs b @ redact_args ys (pending_redaction xs b)"
  by (induction xs arbitrary: b) (auto simp: starts_with_def)

lemma redacted_flag:
  "\<not> pending_redaction pre False \<Longrightarrow>
     redact_seed (pre @ [''--authorizer-seed'', seed] @ post) = redact_seed (pre @ [''--authorizer-seed'', seed'] @ post)"
  by (simp add: redact_seed_def redact_args_append)

lemma redacted_equals:
  "redact_seed (pre @ [''--authorizer-seed='' @ seed] @ post) = redact_seed (pre @ [''--authorizer-seed='' @ seed'] @ post)"
  by (simp add: redact_seed_def redact_args_append starts_with_def)

end
