(* ===== verification/Stress_Submit.thy ===== *)
theory Stress_Submit
  imports Stress_Monitor "HOL-Library.Multiset"
begin

text \<open>
  Submission of stores by the load generator: the retry loop of a pipeline worker
  (\<open>StoreWorker::submit\<close> of \<open>stress-test/src/pipeline.rs\<close>) and the concurrent submitters over a
  shared queue with their block monitor (\<open>bulk_store_oneshot\<close> of \<open>store.rs\<close>). The answers of
  the node and the outcomes of reconnections are inputs. Shown here: which answers end the retry
  loop and what each changes, that a dead node ends it after sixty attempts, and, for the
  submitters in any interleaving, that no item is lost or submitted twice and that every attempt
  of an account uses the same nonce. Error messages leave out the number of the worker.
\<close>

section \<open>The retry loop of a worker\<close>

record SubmitCounters =
  sc_submitted :: u64
  sc_submitted_bytes :: u64
  sc_errors :: u64
  sc_pool_full_retries :: u64
  sc_stale_nonces :: u64

record StoreWorker =
  sw_consecutive_conn_errors :: u32
  sw_counters :: SubmitCounters
  sw_content_hash_map :: ContentHashMap
  sw_slept :: "u64 list"

text \<open>The exponential backoff in seconds, \<open>(1u64 << c.min(5)).min(30)\<close>.\<close>

definition backoff :: "u32 \<Rightarrow> u64" where
  "backoff c = min (push_bit (unat (min c 5)) 1) 30"

text \<open>The log \<open>sw_slept\<close> has the seconds a worker waits at most before the next attempt.\<close>

definition count_pool_full :: "u64 \<Rightarrow> StoreWorker \<Rightarrow> StoreWorker" where
  "count_pool_full wait w = w\<lparr>sw_consecutive_conn_errors := 0, sw_slept := sw_slept w @ [wait],
     sw_counters := (sw_counters w)\<lparr>sc_pool_full_retries := sc_pool_full_retries (sw_counters w) + 1\<rparr>\<rparr>"

definition count_error :: "StoreWorker \<Rightarrow> StoreWorker" where
  "count_error w = w\<lparr>sw_counters := (sw_counters w)\<lparr>sc_errors := sc_errors (sw_counters w) + 1\<rparr>\<rparr>"

definition on_accepted :: "u8 list \<Rightarrow> u8 list \<Rightarrow> StoreWorker \<Rightarrow> StoreWorker" where
  "on_accepted extrinsic content_hash w =
     (let ext_len = of_nat (length extrinsic); c = sw_counters w
      in w\<lparr>sw_consecutive_conn_errors := 0,
          sw_counters := c\<lparr>sc_submitted := sc_submitted c + 1, sc_submitted_bytes := sc_submitted_bytes c + ext_len\<rparr>,
          sw_content_hash_map := (sw_content_hash_map w)(content_hash \<mapsto> ext_len)\<rparr>)"

datatype submit_next = Retry | Return "string + unit"

fun on_rejected :: "TxPoolError \<Rightarrow> bool \<Rightarrow> StoreWorker \<Rightarrow> submit_next \<times> StoreWorker" where
  "on_rejected PoolFull _ w = (Retry, count_pool_full 1 w)"
| "on_rejected Banned _ w = (Retry, count_pool_full 3 w)"
| "on_rejected ExhaustsResources _ w = (Retry, count_pool_full 3 w)"
| "on_rejected ConnectionDead reconnected w =
     (let c = sw_consecutive_conn_errors w + 1;
          w1 = w\<lparr>sw_consecutive_conn_errors := c, sw_slept := sw_slept w @ [backoff c]\<rparr>
      in if reconnected then (Retry, w1\<lparr>sw_consecutive_conn_errors := 0\<rparr>)
         else if 60 \<le> c then (Return (Inl ''pipeline store: reconnect failed''), count_error w1)
         else (Retry, w1))"
| "on_rejected TxDropped _ w =
     (let c = sw_counters w in (Return (Inr ()), w\<lparr>sw_consecutive_conn_errors := 0,
        sw_counters := c\<lparr>sc_pool_full_retries := sc_pool_full_retries c + 1\<rparr>\<rparr>))"
| "on_rejected AlreadyImported _ w = (Return (Inr ()), w\<lparr>sw_consecutive_conn_errors := 0\<rparr>)"
| "on_rejected StaleNonce _ w =
     (let c = sw_counters w in (Return (Inr ()), w\<lparr>sw_consecutive_conn_errors := 0,
        sw_counters := c\<lparr>sc_stale_nonces := sc_stale_nonces c + 1\<rparr>\<rparr>))"
| "on_rejected FutureNonce _ w = (Return (Inr ()), count_error (w\<lparr>sw_consecutive_conn_errors := 0\<rparr>))"
| "on_rejected OtherError _ w = (Return (Inr ()), count_error (w\<lparr>sw_consecutive_conn_errors := 0\<rparr>))"

text \<open>An attempt: what the node answered, and whether a reconnection would succeed. The loop runs as
  long as there are answers; \<open>None\<close> says that it is still running after the last one.\<close>

type_synonym attempt = "(string + u8 list) \<times> bool"

fun submit :: "u8 list \<Rightarrow> u8 list \<Rightarrow> attempt list \<Rightarrow> StoreWorker \<Rightarrow> ((string + unit) \<times> StoreWorker) option" where
  "submit extrinsic content_hash [] w = None"
| "submit extrinsic content_hash ((Inr hash, _) # rest) w = Some (Inr (), on_accepted extrinsic content_hash w)"
| "submit extrinsic content_hash ((Inl e, reconnected) # rest) w =
     (case on_rejected (classify_tx_error e) reconnected w of
        (Return r, w') \<Rightarrow> Some (r, w')
      | (Retry, w') \<Rightarrow> submit extrinsic content_hash rest w')"

definition worker_init :: "ContentHashMap \<Rightarrow> StoreWorker" where
  "worker_init m = \<lparr>sw_consecutive_conn_errors = 0,
     sw_counters = \<lparr>sc_submitted = 0, sc_submitted_bytes = 0, sc_errors = 0, sc_pool_full_retries = 0, sc_stale_nonces = 0\<rparr>,
     sw_content_hash_map = m, sw_slept = []\<rparr>"

section \<open>Outcome of the retry loop\<close>

definition retriable :: "TxPoolError \<Rightarrow> bool" where
  "retriable e \<longleftrightarrow> e \<in> {PoolFull, Banned, ExhaustsResources, ConnectionDead}"

lemma on_rejected_return:
  "\<not> retriable e \<Longrightarrow> \<exists>w'. on_rejected e reconnected w = (Return (Inr ()), w')
     \<and> sw_content_hash_map w' = sw_content_hash_map w \<and> sc_submitted (sw_counters w') = sc_submitted (sw_counters w)
     \<and> sw_slept w' = sw_slept w"
  by (cases e) (simp_all add: retriable_def Let_def count_error_def)

lemma on_rejected_retry:
  "retriable e \<Longrightarrow> e \<noteq> ConnectionDead \<or> reconnected \<Longrightarrow>
     \<exists>w'. on_rejected e reconnected w = (Retry, w') \<and> sw_consecutive_conn_errors w' = 0
       \<and> sw_content_hash_map w' = sw_content_hash_map w \<and> sc_submitted (sw_counters w') = sc_submitted (sw_counters w)"
  by (cases e) (simp_all add: retriable_def Let_def count_pool_full_def)

text \<open>The loop returns with the first answer that is final, after any number of answers that are
  retried and reconnections that succeed.\<close>

lemma submit_returns:
  assumes "\<And>e r. (Inl e, r) \<in> set retries \<Longrightarrow> retriable (classify_tx_error e) \<and> (classify_tx_error e = ConnectionDead \<longrightarrow> r)"
    and "\<And>x. x \<in> set retries \<Longrightarrow> \<exists>e r. x = (Inl e, r)"
    and "case final of (Inr _, _) \<Rightarrow> True | (Inl e, _) \<Rightarrow> \<not> retriable (classify_tx_error e)"
  shows "\<exists>w'. submit ext hash (retries @ final # rest) w = Some (Inr (), w')
    \<and> (case fst final of
         Inr _ \<Rightarrow> sc_submitted (sw_counters w') = sc_submitted (sw_counters w) + 1
           \<and> sw_content_hash_map w' = (sw_content_hash_map w)(hash \<mapsto> of_nat (length ext))
       | Inl _ \<Rightarrow> sc_submitted (sw_counters w') = sc_submitted (sw_counters w)
           \<and> sw_content_hash_map w' = sw_content_hash_map w)"
  using assms(1,2)
proof (induction retries arbitrary: w)
  case Nil
  obtain a r where f: "final = (a, r)" by (cases final)
  show ?case
  proof (cases a)
    case (Inl e)
    then have "\<not> retriable (classify_tx_error e)" using assms(3) f by simp
    from on_rejected_return [OF this, of r w] show ?thesis by (auto simp: f Inl)
  qed (simp add: f on_accepted_def Let_def)
next
  case (Cons x retries)
  obtain e r where x: "x = (Inl e, r)" using Cons.prems(2) [of x] by auto
  have "retriable (classify_tx_error e)" "classify_tx_error e \<noteq> ConnectionDead \<or> r"
    using Cons.prems(1) [of e r] by (auto simp: x)
  from on_rejected_retry [OF this, of w] obtain w1 where w1: "on_rejected (classify_tx_error e) r w = (Retry, w1)"
    "sw_content_hash_map w1 = sw_content_hash_map w" "sc_submitted (sw_counters w1) = sc_submitted (sw_counters w)" by blast
  have "\<exists>w'. submit ext hash (retries @ final # rest) w1 = Some (Inr (), w')
    \<and> (case fst final of
         Inr _ \<Rightarrow> sc_submitted (sw_counters w') = sc_submitted (sw_counters w1) + 1
           \<and> sw_content_hash_map w' = (sw_content_hash_map w1)(hash \<mapsto> of_nat (length ext))
       | Inl _ \<Rightarrow> sc_submitted (sw_counters w') = sc_submitted (sw_counters w1)
           \<and> sw_content_hash_map w' = sw_content_hash_map w1)"
    by (rule Cons.IH) (use Cons.prems in auto)
  then show ?case unfolding append_Cons x submit.simps w1 by simp
qed

text \<open>A node that stays unreachable.\<close>

lemma dead_step:
  "unat (sw_consecutive_conn_errors w) < 59 \<Longrightarrow>
     on_rejected ConnectionDead False w = (Retry, w\<lparr>sw_consecutive_conn_errors := sw_consecutive_conn_errors w + 1,
       sw_slept := sw_slept w @ [backoff (sw_consecutive_conn_errors w + 1)]\<rparr>)"
  by (simp add: Let_def word_le_nat_alt unat_word_ariths)

lemma dead_give_up:
  "unat (sw_consecutive_conn_errors w) = 59 \<Longrightarrow>
     on_rejected ConnectionDead False w = (Return (Inl ''pipeline store: reconnect failed''),
       count_error (w\<lparr>sw_consecutive_conn_errors := 60, sw_slept := sw_slept w @ [backoff 60]\<rparr>))"
proof -
  assume a: "unat (sw_consecutive_conn_errors w) = 59"
  then have "sw_consecutive_conn_errors w = 59" by (simp add: word_unat_eq_iff)
  then show ?thesis by (simp add: Let_def)
qed

lemma dead_node:
  assumes dead: "classify_tx_error e = ConnectionDead" and c: "unat (sw_consecutive_conn_errors w) + Suc k = 60"
  shows "\<exists>w'. submit ext hash (replicate (Suc k) (Inl e, False) @ rest) w = Some (Inl ''pipeline store: reconnect failed'', w')
    \<and> sw_content_hash_map w' = sw_content_hash_map w \<and> sc_submitted (sw_counters w') = sc_submitted (sw_counters w)
    \<and> sw_slept w' = sw_slept w @ map (\<lambda>i. backoff (of_nat i)) [60 - k..<61]"
  using c
proof (induction k arbitrary: w)
  case 0
  then show ?case by (simp add: dead dead_give_up count_error_def del: on_rejected.simps)
next
  case (Suc k)
  let ?c = "sw_consecutive_conn_errors w"
  let ?w = "w\<lparr>sw_consecutive_conn_errors := ?c + 1, sw_slept := sw_slept w @ [backoff (?c + 1)]\<rparr>"
  have c: "unat ?c = 58 - k" "k \<le> 58" using Suc.prems by simp_all
  then have c1: "unat (?c + 1) = 59 - k" by (simp add: unat_word_ariths Suc_diff_le)
  have "of_nat (unat (?c + 1)) = ?c + 1" by simp
  then have c1': "?c + 1 = of_nat (59 - k)" unfolding c1 by (rule sym)
  have "[60 - Suc k..<61] = (59 - k) # [60 - k..<61]"
    using c(2) upt_conv_Cons [of "59 - k" 61] by (simp add: Suc_diff_le [symmetric])
  moreover have "unat (sw_consecutive_conn_errors ?w) + Suc k = 60" using c1 c(2) by simp
  note Suc.IH [OF this]
  ultimately show ?case
    using dead_step [of w] c by (simp add: dead c1' del: on_rejected.simps)
qed

lemma unreachable_node_backoff: "(\<Sum>i\<leftarrow>[1..<61]. unat (backoff (of_nat i))) = 1710" "backoff 1 = 2"
  by (simp_all add: backoff_def upt_conv_Cons min_def word_le_nat_alt)

section \<open>Submitters over a shared queue\<close>

text \<open>A work item: the account, and the data to store.\<close>

type_synonym work_item = "u8 list \<times> u8 list"

datatype submitter_phase =
    AtTop
  | AtQueue
  | Submitting work_item u64
  | Stopped

record submitter =
  su_phase :: submitter_phase
  su_empty_polls :: u32
  su_conn_errors :: u32

record bulk =
  bk_queue :: "work_item list"
  bk_submitters :: "submitter list"
  bk_tracker :: NonceTracker
  bk_submitted :: "work_item list"
  bk_skipped :: "(work_item \<times> TxPoolError) list"
  bk_abandoned :: "work_item list"
  bk_gave_up :: nat
  bk_pool_full_retries :: nat
  bk_signed :: "(work_item \<times> u64) list"
  bk_saturated :: bool
  bk_stop :: bool
  bk_blocks :: "BlockStats list"
  bk_store_blocks :: u32

text \<open>The counters of the code are the lengths of the logs: \<open>submitted\<close> of \<open>bk_submitted\<close>,
  \<open>stale_nonces\<close> of the stale entries of \<open>bk_skipped\<close>, \<open>errors\<close> of the other two classes there
  and of the submitters that gave up.\<close>

definition bulk_submitted :: "bulk \<Rightarrow> nat" where
  "bulk_submitted s = length (bk_submitted s)"

definition bulk_stale_nonces :: "bulk \<Rightarrow> nat" where
  "bulk_stale_nonces s = length (filter (\<lambda>(_, e). e = StaleNonce) (bk_skipped s))"

definition bulk_errors :: "bulk \<Rightarrow> nat" where
  "bulk_errors s = length (filter (\<lambda>(_, e). e \<in> {FutureNonce, OtherError}) (bk_skipped s)) + bk_gave_up s"

definition num_submitters :: "nat \<Rightarrow> nat \<Rightarrow> nat" where
  "num_submitters submitters total_items = max (min submitters total_items) 1"

definition bulk_init :: "work_item list \<Rightarrow> nat \<Rightarrow> u32 option \<Rightarrow> NonceTracker \<Rightarrow> bulk" where
  "bulk_init items submitters stop_after_blocks tracker = \<lparr>bk_queue = items,
     bk_submitters = replicate (num_submitters submitters (length items)) \<lparr>su_phase = AtTop, su_empty_polls = 0, su_conn_errors = 0\<rparr>,
     bk_tracker = tracker, bk_submitted = [], bk_skipped = [], bk_abandoned = [], bk_gave_up = 0,
     bk_pool_full_retries = 0, bk_signed = [], bk_saturated = (stop_after_blocks = None), bk_stop = False,
     bk_blocks = [], bk_store_blocks = 0\<rparr>"

definition set_submitter :: "nat \<Rightarrow> submitter \<Rightarrow> bulk \<Rightarrow> bulk" where
  "set_submitter i u s = s\<lparr>bk_submitters := (bk_submitters s)[i := u]\<rparr>"

text \<open>Roll the nonce back and put the item at the front of the queue.\<close>

definition requeue :: "work_item \<Rightarrow> bulk \<Rightarrow> bulk" where
  "requeue it s = s\<lparr>bk_tracker := rollback (fst it) (bk_tracker s), bk_queue := it # bk_queue s\<rparr>"

text \<open>The match on the class of an error in the loop of a submitter.\<close>

fun bulk_rejected :: "TxPoolError \<Rightarrow> bool \<Rightarrow> nat \<Rightarrow> submitter \<Rightarrow> work_item \<Rightarrow> bulk \<Rightarrow> bulk" where
  "bulk_rejected PoolFull _ i u it s = set_submitter i (u\<lparr>su_phase := AtTop, su_conn_errors := 0\<rparr>)
     (requeue it (s\<lparr>bk_pool_full_retries := Suc (bk_pool_full_retries s), bk_saturated := True\<rparr>))"
| "bulk_rejected ConnectionDead reconnected i u it s =
     (let c = su_conn_errors u + 1; s1 = requeue it s
      in if reconnected then set_submitter i (u\<lparr>su_phase := AtTop, su_conn_errors := 0\<rparr>) s1
         else if 60 \<le> c then set_submitter i (u\<lparr>su_phase := Stopped, su_conn_errors := c\<rparr>) (s1\<lparr>bk_gave_up := Suc (bk_gave_up s)\<rparr>)
         else set_submitter i (u\<lparr>su_phase := AtTop, su_conn_errors := c\<rparr>) s1)"
| "bulk_rejected TxDropped _ i u it s = set_submitter i (u\<lparr>su_phase := AtTop, su_conn_errors := 0\<rparr>)
     (s\<lparr>bk_pool_full_retries := Suc (bk_pool_full_retries s), bk_saturated := True,
        bk_skipped := bk_skipped s @ [(it, TxDropped)]\<rparr>)"
| "bulk_rejected e _ i u it s =
     (if e \<in> {Banned, ExhaustsResources}
      then set_submitter i (u\<lparr>su_phase := AtTop, su_conn_errors := 0\<rparr>)
             (requeue it (s\<lparr>bk_pool_full_retries := Suc (bk_pool_full_retries s)\<rparr>))
      else set_submitter i (u\<lparr>su_phase := AtTop, su_conn_errors := 0\<rparr>) (s\<lparr>bk_skipped := bk_skipped s @ [(it, e)]\<rparr>))"

text \<open>The monitor on a block with \<open>store_tx_count\<close> stores.\<close>

definition bulk_block :: "u32 option \<Rightarrow> u64 \<Rightarrow> u64 \<Rightarrow> bulk \<Rightarrow> bulk" where
  "bulk_block stop_after_blocks number store_tx_count s =
     (let is_prefill = (\<not> bk_saturated s)
      in if is_prefill \<and> store_tx_count = 0 then s
         else let s1 = s\<lparr>bk_blocks := bk_blocks s @ [\<lparr>bs_number = number, bs_tx_count = store_tx_count,
                  bs_payload_bytes = 0, bs_prefill = is_prefill, bs_timestamp_ms = None, bs_hash = None,
                  bs_finalized = False, bs_received_at_ms = None, bs_interval_ms = None\<rparr>]\<rparr>
           in if \<not> is_prefill \<and> 0 < store_tx_count
              then let n = bk_store_blocks s + 1
                in s1\<lparr>bk_store_blocks := n, bk_stop := (bk_stop s \<or> is_some_and stop_after_blocks (\<lambda>limit. limit \<le> n))\<rparr>
              else s1)"

inductive bulk_step :: "u32 option \<Rightarrow> bulk \<Rightarrow> bulk \<Rightarrow> bool" for target where
  loop_stop: "i < length (bk_submitters s) \<Longrightarrow> su_phase (bk_submitters s ! i) = AtTop \<Longrightarrow> bk_stop s
    \<Longrightarrow> bulk_step target s (set_submitter i ((bk_submitters s ! i)\<lparr>su_phase := Stopped\<rparr>) s)"
| loop_go: "i < length (bk_submitters s) \<Longrightarrow> su_phase (bk_submitters s ! i) = AtTop \<Longrightarrow> \<not> bk_stop s
    \<Longrightarrow> bulk_step target s (set_submitter i ((bk_submitters s ! i)\<lparr>su_phase := AtQueue\<rparr>) s)"
| pop: "i < length (bk_submitters s) \<Longrightarrow> su_phase (bk_submitters s ! i) = AtQueue \<Longrightarrow> bk_queue s = it # q
    \<Longrightarrow> next_nonce (fst it) (bk_tracker s) = (n, t)
    \<Longrightarrow> bulk_step target s (set_submitter i ((bk_submitters s ! i)\<lparr>su_phase := Submitting it n, su_empty_polls := 0\<rparr>)
          (s\<lparr>bk_queue := q, bk_tracker := t, bk_signed := bk_signed s @ [(it, n)]\<rparr>))"
| queue_empty_poll: "i < length (bk_submitters s) \<Longrightarrow> su_phase (bk_submitters s ! i) = AtQueue \<Longrightarrow> bk_queue s = []
    \<Longrightarrow> target \<noteq> None \<Longrightarrow> \<not> bk_stop s \<Longrightarrow> p = su_empty_polls (bk_submitters s ! i) + 1
    \<Longrightarrow> bulk_step target s (set_submitter i ((bk_submitters s ! i)\<lparr>su_phase := (if 25 < p then Stopped else AtTop), su_empty_polls := p\<rparr>) s)"
| queue_empty_exit: "i < length (bk_submitters s) \<Longrightarrow> su_phase (bk_submitters s ! i) = AtQueue \<Longrightarrow> bk_queue s = []
    \<Longrightarrow> target = None \<or> bk_stop s
    \<Longrightarrow> bulk_step target s (set_submitter i ((bk_submitters s ! i)\<lparr>su_phase := Stopped\<rparr>) s)"
| accepted: "i < length (bk_submitters s) \<Longrightarrow> su_phase (bk_submitters s ! i) = Submitting it n
    \<Longrightarrow> bulk_step target s (set_submitter i ((bk_submitters s ! i)\<lparr>su_phase := AtTop, su_conn_errors := 0\<rparr>)
          (s\<lparr>bk_submitted := bk_submitted s @ [it]\<rparr>))"
| rejected: "i < length (bk_submitters s) \<Longrightarrow> su_phase (bk_submitters s ! i) = Submitting it n \<Longrightarrow> \<not> bk_stop s
    \<Longrightarrow> bulk_step target s (bulk_rejected (classify_tx_error e) reconnected i (bk_submitters s ! i) it s)"
| abandoned: "i < length (bk_submitters s) \<Longrightarrow> su_phase (bk_submitters s ! i) = Submitting it n \<Longrightarrow> bk_stop s
    \<Longrightarrow> bulk_step target s (set_submitter i ((bk_submitters s ! i)\<lparr>su_phase := Stopped\<rparr>) (s\<lparr>bk_abandoned := bk_abandoned s @ [it]\<rparr>))"
| block_seen: "bulk_step target s (bulk_block target number store_tx_count s)"

definition bulk_reachable :: "work_item list \<Rightarrow> nat \<Rightarrow> u32 option \<Rightarrow> NonceTracker \<Rightarrow> bulk \<Rightarrow> bool" where
  "bulk_reachable items submitters target tracker s =
     (bulk_step target)\<^sup>*\<^sup>* (bulk_init items submitters target tracker) s"

text \<open>After the submitters are done: without saturation every block counts as measured.\<close>

definition relabel_unsaturated :: "bulk \<Rightarrow> bulk" where
  "relabel_unsaturated s =
     (if bk_saturated s then s
      else s\<lparr>bk_saturated := True, bk_blocks := map (\<lambda>b. b\<lparr>bs_prefill := False\<rparr>) (bk_blocks s)\<rparr>)"

record BulkStoreResult =
  br_total_submitted :: nat
  br_total_confirmed :: u64
  br_total_errors :: nat
  br_stale_nonces :: nat
  br_pool_full_retries :: nat
  br_remaining_in_queue :: nat
  br_blocks :: "BlockStats list"

definition bulk_result :: "bulk \<Rightarrow> BulkStoreResult" where
  "bulk_result s = \<lparr>br_total_submitted = bulk_submitted s, br_total_confirmed = (\<Sum>b\<leftarrow>bk_blocks s. bs_tx_count b),
     br_total_errors = bulk_errors s, br_stale_nonces = bulk_stale_nonces s,
     br_pool_full_retries = bk_pool_full_retries s, br_remaining_in_queue = length (bk_queue s), br_blocks = bk_blocks s\<rparr>"

section \<open>Invariants of the submitters\<close>

definition held :: "submitter \<Rightarrow> work_item multiset" where
  "held u = (case su_phase u of Submitting it _ \<Rightarrow> {#it#} | _ \<Rightarrow> {#})"

definition all_items :: "bulk \<Rightarrow> work_item multiset" where
  "all_items s = mset (bk_queue s) + (\<Sum>u\<leftarrow>bk_submitters s. held u) + mset (bk_submitted s)
     + image_mset fst (mset (bk_skipped s)) + mset (bk_abandoned s)"

lemma held_update:
  "i < length us \<Longrightarrow> (\<Sum>v\<leftarrow>us[i := u]. held v) + held (us ! i) = (\<Sum>v\<leftarrow>us. held v) + held u"
proof (induction us arbitrary: i)
  case (Cons v us)
  then show ?case by (cases i) (simp_all add: ac_simps)
qed simp

lemma held_phase [simp]:
  "su_phase u = AtTop \<Longrightarrow> held u = {#}" "su_phase u = AtQueue \<Longrightarrow> held u = {#}" "su_phase u = Stopped \<Longrightarrow> held u = {#}"
  "su_phase u = Submitting it n \<Longrightarrow> held u = {#it#}"
  by (simp_all add: held_def)

text \<open>Changing one submitter exchanges what it holds.\<close>

lemma all_items_set_submitter:
  assumes "i < length (bk_submitters s)" and "bk_submitters s' = bk_submitters s"
  shows "all_items (set_submitter i u s') + held (bk_submitters s ! i) = all_items s' + held u"
  using held_update [of i "bk_submitters s'" u] assms by (simp add: all_items_def set_submitter_def ac_simps)

lemma all_items_rejected:
  assumes i: "i < length (bk_submitters s)" and ph: "su_phase (bk_submitters s ! i) = Submitting it n"
  shows "all_items (bulk_rejected e reconnected i (bk_submitters s ! i) it s) = all_items s"
proof -
  let ?u = "bk_submitters s ! i"
  have idle: "all_items (set_submitter i u s') = all_items s"
    if "su_phase u \<in> {AtTop, Stopped}" "bk_submitters s' = bk_submitters s" "all_items s' = add_mset it (all_items s)" for u s'
  proof -
    have "held u = {#}" using that(1) by auto
    with all_items_set_submitter [OF i that(2), of u] that(3) ph show ?thesis by simp
  qed
  have req: "bk_submitters (requeue it s') = bk_submitters s'" "all_items (requeue it s') = add_mset it (all_items s')" for s'
    by (simp_all add: requeue_def all_items_def)
  have logs: "all_items (s'\<lparr>bk_pool_full_retries := k\<rparr>) = all_items s'" "all_items (s'\<lparr>bk_saturated := b\<rparr>) = all_items s'"
    "all_items (s'\<lparr>bk_gave_up := k\<rparr>) = all_items s'"
    "all_items (s'\<lparr>bk_skipped := bk_skipped s' @ [(it, c)]\<rparr>) = add_mset it (all_items s')"
    "all_items (s'\<lparr>bk_pool_full_retries := k, bk_saturated := b, bk_skipped := bk_skipped s' @ [(it, c)]\<rparr>)
      = add_mset it (all_items s')" for s' k b c
    by (simp_all add: all_items_def)
  show ?thesis
    by (cases e) (auto simp: Let_def req logs intro!: idle)
qed

lemma all_items_step: "bulk_step target s s' \<Longrightarrow> all_items s' = all_items s"
proof (induction rule: bulk_step.induct)
  case (pop i s it q n t)
  have "all_items (s\<lparr>bk_queue := q, bk_tracker := t, bk_signed := bk_signed s @ [(it, n)]\<rparr>) + {#it#} = all_items s"
    using pop by (simp add: all_items_def)
  with all_items_set_submitter [OF pop(1), of "s\<lparr>bk_queue := q, bk_tracker := t, bk_signed := bk_signed s @ [(it, n)]\<rparr>"]
  show ?case using pop(2) by simp
next
  case (accepted i s it n)
  have "all_items (s\<lparr>bk_submitted := bk_submitted s @ [it]\<rparr>) = add_mset it (all_items s)" by (simp add: all_items_def)
  with all_items_set_submitter [OF accepted(1), of "s\<lparr>bk_submitted := bk_submitted s @ [it]\<rparr>"] accepted(2) show ?case by simp
next
  case (abandoned i s it n)
  have "all_items (s\<lparr>bk_abandoned := bk_abandoned s @ [it]\<rparr>) = add_mset it (all_items s)" by (simp add: all_items_def)
  with all_items_set_submitter [OF abandoned(1), of "s\<lparr>bk_abandoned := bk_abandoned s @ [it]\<rparr>"] abandoned(2) show ?case by simp
next
  case (rejected i s it n e reconnected)
  then show ?case by (intro all_items_rejected)
next
  case (block_seen s number store_tx_count)
  then show ?case by (simp add: all_items_def bulk_block_def Let_def)
qed (use all_items_set_submitter in force)+

lemma all_items_reachable:
  "bulk_reachable items submitters target tracker s \<Longrightarrow> all_items s = mset items"
  unfolding bulk_reachable_def
proof (induction rule: rtranclp_induct)
  case base
  have "(\<Sum>u\<leftarrow>replicate k \<lparr>su_phase = AtTop, su_empty_polls = 0, su_conn_errors = 0\<rparr>. held u) = {#}" for k
    by (induction k) (simp_all add: held_def)
  then show ?case by (simp add: all_items_def bulk_init_def)
qed (simp add: all_items_step)

text \<open>The nonce a tracker would hand out next.\<close>

definition current_nonce :: "NonceTracker \<Rightarrow> u8 list \<Rightarrow> u64" where
  "current_nonce t a = (case nonces t a of Some n \<Rightarrow> n | None \<Rightarrow> 0)"

lemma next_nonce_current:
  "next_nonce a t = (n, t') \<Longrightarrow> n = current_nonce t a \<and> nonces t' a = Some (n + 1) \<and> (\<forall>b. b \<noteq> a \<longrightarrow> nonces t' b = nonces t b)"
  by (auto simp: next_nonce_def current_nonce_def Let_def)

lemma rollback_current:
  assumes "nonces t a = Some (n + 1)" and "n \<noteq> - 1"
  shows "nonces (rollback a t) a = Some n" "b \<noteq> a \<Longrightarrow> nonces (rollback a t) b = nonces t b"
proof -
  have "unat (n + 1) = Suc (unat n)" by (rule unat_plus_one [OF assms(2)])
  then have "sat_sub (n + 1) 1 = n" by (simp add: sat_sub_def word_le_nat_alt)
  then show "nonces (rollback a t) a = Some n" "b \<noteq> a \<Longrightarrow> nonces (rollback a t) b = nonces t b"
    using assms(1) by (simp_all add: rollback_def)
qed

text \<open>An account that waits in the queue has the nonce it started with; one that is being submitted
  has the next, and was signed with the first.\<close>

definition nonce_inv :: "NonceTracker \<Rightarrow> bulk \<Rightarrow> bool" where
  "nonce_inv t0 s \<longleftrightarrow>
     (\<forall>it \<in> set (bk_queue s). current_nonce (bk_tracker s) (fst it) = current_nonce t0 (fst it))
     \<and> (\<forall>u \<in> set (bk_submitters s). \<forall>it n. su_phase u = Submitting it n \<longrightarrow>
          n = current_nonce t0 (fst it) \<and> nonces (bk_tracker s) (fst it) = Some (n + 1))
     \<and> (\<forall>(it, n) \<in> set (bk_signed s). n = current_nonce t0 (fst it))"

lemma nonce_inv_set_submitter:
  assumes "nonce_inv t0 s" and "su_phase u \<in> {AtTop, AtQueue, Stopped}" and "bk_submitters s' = bk_submitters s"
    and "bk_queue s' = bk_queue s" "bk_tracker s' = bk_tracker s" "bk_signed s' = bk_signed s"
  shows "nonce_inv t0 (set_submitter i u s')"
  using assms set_update_subset_insert [of "bk_submitters s" i u]
  by (fastforce simp: nonce_inv_def set_submitter_def)

text \<open>An item in the queue or in the hands of a submitter has an account of its own.\<close>

definition hand :: "submitter \<Rightarrow> work_item list" where
  "hand u = (case su_phase u of Submitting it _ \<Rightarrow> [it] | _ \<Rightarrow> [])"

lemma open_items_distinct:
  assumes "all_items s = mset items" and "distinct (map fst items)"
  shows "distinct (map fst (bk_queue s @ concat (map hand (bk_submitters s))))"
proof -
  have "(\<Sum>u\<leftarrow>us. held u) = mset (concat (map hand us))" for us
    by (induction us) (auto simp: held_def hand_def split: submitter_phase.split)
  then have "mset items = mset ((bk_queue s @ concat (map hand (bk_submitters s))) @ bk_submitted s @ map fst (bk_skipped s) @ bk_abandoned s)"
    using assms(1) by (simp add: all_items_def ac_simps)
  then obtain rest where "mset items = mset ((bk_queue s @ concat (map hand (bk_submitters s))) @ rest)" by blast
  then have "mset (map fst items) = mset (map fst (bk_queue s @ concat (map hand (bk_submitters s))) @ map fst rest)"
    by (metis map_append mset_map)
  from mset_eq_imp_distinct_iff [OF this] assms(2) show ?thesis by (metis distinct_append)
qed

definition others :: "nat \<Rightarrow> bulk \<Rightarrow> submitter set" where
  "others i s = set (take i (bk_submitters s)) \<union> set (drop (Suc i) (bk_submitters s))"

lemma submitters_set: "i < length (bk_submitters s) \<Longrightarrow> set ((bk_submitters s)[i := u]) = insert u (others i s)"
  by (auto simp: others_def upd_conv_take_nth_drop)

lemma others_subset: "others i s \<subseteq> set (bk_submitters s)"
  using set_take_subset set_drop_subset by (fastforce simp: others_def)

lemma apart:
  assumes "distinct (map fst (bk_queue s @ concat (map hand (bk_submitters s))))"
  shows "it \<in> set (bk_queue s) \<Longrightarrow> u \<in> set (bk_submitters s) \<Longrightarrow> su_phase u = Submitting it' n' \<Longrightarrow> fst it \<noteq> fst it'"
    and "i < length (bk_submitters s) \<Longrightarrow> su_phase (bk_submitters s ! i) = Submitting it n \<Longrightarrow> u \<in> others i s
      \<Longrightarrow> su_phase u = Submitting it' n' \<Longrightarrow> fst it \<noteq> fst it'"
proof -
  have h: "it' \<in> set (hand u)" if "su_phase u = Submitting it' n'" for u it' n'
    using that by (simp add: hand_def)
  have disj: "set (map fst (bk_queue s)) \<inter> set (map fst (concat (map hand (bk_submitters s)))) = {}"
    and dist: "distinct (map fst (concat (map hand (bk_submitters s))))"
    using assms by (simp_all only: map_append distinct_append)
  show "fst it \<noteq> fst it'" if "it \<in> set (bk_queue s)" "u \<in> set (bk_submitters s)" "su_phase u = Submitting it' n'"
  proof -
    have "fst it' \<in> set (map fst (concat (map hand (bk_submitters s))))" using h [OF that(3)] that(2) by force
    moreover have "fst it \<in> set (map fst (bk_queue s))" using that(1) by simp
    ultimately show ?thesis using disj by (metis disjoint_iff)
  qed
  assume i: "i < length (bk_submitters s)" and it: "su_phase (bk_submitters s ! i) = Submitting it n"
    and u: "u \<in> others i s" "su_phase u = Submitting it' n'"
  let ?f = "\<lambda>us. map fst (concat (map hand us))"
  have "?f (bk_submitters s) = ?f (take i (bk_submitters s)) @ fst it # ?f (drop (Suc i) (bk_submitters s))"
  proof -
    have "hand (bk_submitters s ! i) = [it]" using it by (simp add: hand_def)
    then show ?thesis by (subst id_take_nth_drop [OF i]) simp
  qed
  moreover note dist
  moreover have "fst it' \<in> set (?f (take i (bk_submitters s))) \<or> fst it' \<in> set (?f (drop (Suc i) (bk_submitters s)))"
    using u(1) imageI [OF h [OF u(2)], of fst] by (auto simp: others_def)
  ultimately show "fst it \<noteq> fst it'" by (metis distinct.simps(2) distinct_append disjoint_iff list.set_intros(1))
qed

lemma nonce_inv_held:
  "nonce_inv t0 s \<Longrightarrow> u \<in> set (bk_submitters s) \<Longrightarrow> su_phase u = Submitting it n \<Longrightarrow>
     n = current_nonce t0 (fst it) \<and> nonces (bk_tracker s) (fst it) = Some (n + 1)"
  unfolding nonce_inv_def by blast

lemma nonce_inv_pop:
  assumes inv: "nonce_inv t0 s" and dist: "distinct (map fst (bk_queue s @ concat (map hand (bk_submitters s))))"
    and i: "i < length (bk_submitters s)" and q: "bk_queue s = it # q" and nn: "next_nonce (fst it) (bk_tracker s) = (n, t)"
  shows "nonce_inv t0 (set_submitter i ((bk_submitters s ! i)\<lparr>su_phase := Submitting it n, su_empty_polls := 0\<rparr>)
    (s\<lparr>bk_queue := q, bk_tracker := t, bk_signed := bk_signed s @ [(it, n)]\<rparr>))"
proof -
  note nx = next_nonce_current [OF nn]
  have n: "n = current_nonce t0 (fst it)" using inv q nx by (simp add: nonce_inv_def)
  have "fst it \<notin> fst ` set q" using dist q by simp
  then have "fst it' \<noteq> fst it" if "it' \<in> set q" for it' using that by (metis imageI)
  then have "current_nonce t (fst it') = current_nonce t0 (fst it')" if "it' \<in> set q" for it'
    using inv q nx that by (auto simp: nonce_inv_def current_nonce_def)
  moreover have "n' = current_nonce t0 (fst it') \<and> nonces t (fst it') = Some (n' + 1)"
    if "u \<in> others i s" "su_phase u = Submitting it' n'" for u it' n'
  proof -
    have u: "u \<in> set (bk_submitters s)" using that(1) others_subset by blast
    have "fst it \<noteq> fst it'" by (rule apart(1) [OF dist _ u that(2)]) (simp add: q)
    with nonce_inv_held [OF inv u that(2)] nx show ?thesis by metis
  qed
  ultimately show ?thesis
    using inv n nx by (auto simp: nonce_inv_def set_submitter_def submitters_set [OF i])
qed

lemma nonce_inv_requeue:
  assumes inv: "nonce_inv t0 s" and dist: "distinct (map fst (bk_queue s @ concat (map hand (bk_submitters s))))"
    and i: "i < length (bk_submitters s)" and ph: "su_phase (bk_submitters s ! i) = Submitting it n"
    and max: "current_nonce t0 (fst it) \<noteq> - 1" and u: "su_phase u \<in> {AtTop, Stopped}"
    and s': "bk_submitters s' = bk_submitters s" "bk_queue s' = it # bk_queue s"
      "bk_tracker s' = rollback (fst it) (bk_tracker s)" "bk_signed s' = bk_signed s"
  shows "nonce_inv t0 (set_submitter i u s')"
proof -
  have n: "n = current_nonce t0 (fst it)" "nonces (bk_tracker s) (fst it) = Some (n + 1)"
    using inv i ph nth_mem unfolding nonce_inv_def by blast+
  note rb = rollback_current [OF n(2) max [folded n(1)]]
  have "current_nonce (bk_tracker s') (fst it') = current_nonce t0 (fst it')" if "it' \<in> set (bk_queue s)" for it'
  proof -
    have "fst it' \<noteq> fst it" by (rule apart(1) [OF dist that nth_mem [OF i] ph])
    with rb(2) inv that show ?thesis by (simp add: s' nonce_inv_def current_nonce_def)
  qed
  moreover have "n' = current_nonce t0 (fst it') \<and> nonces (bk_tracker s') (fst it') = Some (n' + 1)"
    if "v \<in> others i s" "su_phase v = Submitting it' n'" for v it' n'
  proof -
    have v: "v \<in> set (bk_submitters s)" using that(1) others_subset by blast
    have "fst it' \<noteq> fst it" using apart(2) [OF dist i ph that] by simp
    with nonce_inv_held [OF inv v that(2)] rb(2) show ?thesis unfolding s' by metis
  qed
  moreover have "current_nonce (bk_tracker s') (fst it) = current_nonce t0 (fst it)"
    using rb(1) n(1) by (simp add: s' current_nonce_def)
  ultimately show ?thesis
    using inv u by (auto simp: nonce_inv_def set_submitter_def s' submitters_set [OF i])
qed

lemma nonce_inv_rejected:
  assumes inv: "nonce_inv t0 s" and dist: "distinct (map fst (bk_queue s @ concat (map hand (bk_submitters s))))"
    and i: "i < length (bk_submitters s)" and ph: "su_phase (bk_submitters s ! i) = Submitting it n"
    and max: "current_nonce t0 (fst it) \<noteq> - 1"
  shows "nonce_inv t0 (bulk_rejected e reconnected i (bk_submitters s ! i) it s)"
proof (cases "retriable e")
  case True
  then show ?thesis by (cases e) (auto simp: retriable_def Let_def requeue_def intro!: nonce_inv_requeue [OF assms])
next
  case False
  then show ?thesis by (cases e) (auto simp: retriable_def intro!: nonce_inv_set_submitter [OF inv])
qed

lemma nonce_inv_step:
  assumes "bulk_step target s s'" and "nonce_inv t0 s" and "distinct (map fst (bk_queue s @ concat (map hand (bk_submitters s))))"
    and "\<And>u it n. u \<in> set (bk_submitters s) \<Longrightarrow> su_phase u = Submitting it n \<Longrightarrow> current_nonce t0 (fst it) \<noteq> - 1"
  shows "nonce_inv t0 s'"
  using assms
proof (induction rule: bulk_step.induct)
  case (pop i s it q n t)
  then show ?case by (intro nonce_inv_pop)
next
  case (rejected i s it n e reconnected)
  then show ?case using nth_mem [OF rejected.hyps(1)] by (intro nonce_inv_rejected) blast+
next
  case (block_seen s number store_tx_count)
  then show ?case by (simp add: nonce_inv_def bulk_block_def Let_def)
qed (auto intro!: nonce_inv_set_submitter)

lemma held_in_items:
  assumes "all_items s = mset items" and "u \<in> set (bk_submitters s)" and "su_phase u = Submitting it n"
  shows "it \<in> set items"
proof -
  have "it \<in># (\<Sum>v\<leftarrow>us. held v)" if "u \<in> set us" for us
    using that assms(3) by (induction us) auto
  then have "it \<in># all_items s" using assms(2) by (simp add: all_items_def)
  with assms(1) show ?thesis by simp
qed

lemma nonce_inv_reachable:
  assumes "bulk_reachable items submitters target tracker s" and "distinct (map fst items)"
    and "\<And>it. it \<in> set items \<Longrightarrow> current_nonce tracker (fst it) \<noteq> - 1"
  shows "nonce_inv tracker s"
  using assms(1) unfolding bulk_reachable_def
proof (induction rule: rtranclp_induct)
  case base
  show ?case by (auto simp: nonce_inv_def bulk_init_def)
next
  case (step s s')
  have all: "all_items s = mset items"
    using step.hyps(1) by (intro all_items_reachable [of _ submitters target tracker]) (simp add: bulk_reachable_def)
  show ?case
    using nonce_inv_step [OF step.hyps(2) step.IH open_items_distinct [OF all assms(2)]] held_in_items [OF all] assms(3) by blast
qed

text \<open>The recorded blocks are those before saturation, then those after it.\<close>

definition blocks_inv :: "bulk \<Rightarrow> bool" where
  "blocks_inv s \<longleftrightarrow> (\<exists>pre post. bk_blocks s = pre @ post \<and> (\<forall>b \<in> set pre. bs_prefill b \<and> bs_tx_count b \<noteq> 0)
     \<and> (\<forall>b \<in> set post. \<not> bs_prefill b) \<and> (post \<noteq> [] \<longrightarrow> bk_saturated s)
     \<and> bk_store_blocks s = of_nat (length (filter (\<lambda>b. bs_tx_count b \<noteq> 0) post)))"

lemma blocks_inv_keep:
  "blocks_inv s \<Longrightarrow> bk_blocks s' = bk_blocks s \<Longrightarrow> bk_store_blocks s' = bk_store_blocks s \<Longrightarrow>
     (bk_saturated s \<longrightarrow> bk_saturated s') \<Longrightarrow> blocks_inv s'"
  by (auto simp: blocks_inv_def)

lemma blocks_inv_step: "bulk_step target s s' \<Longrightarrow> blocks_inv s \<Longrightarrow> blocks_inv s'"
proof (induction rule: bulk_step.induct)
  case (rejected i s it n e reconnected)
  from rejected.prems show ?case
    by (rule blocks_inv_keep) (cases "classify_tx_error e"; simp add: set_submitter_def requeue_def Let_def)+
next
  case (block_seen s number k)
  then obtain pre post where b: "bk_blocks s = pre @ post" "\<forall>b \<in> set pre. bs_prefill b \<and> bs_tx_count b \<noteq> 0"
    "\<forall>b \<in> set post. \<not> bs_prefill b" "post \<noteq> [] \<longrightarrow> bk_saturated s"
    "bk_store_blocks s = of_nat (length (filter (\<lambda>b. bs_tx_count b \<noteq> 0) post))"
    by (auto simp: blocks_inv_def)
  let ?b = "\<lparr>bs_number = number, bs_tx_count = k, bs_payload_bytes = 0, bs_prefill = \<not> bk_saturated s,
    bs_timestamp_ms = None, bs_hash = None, bs_finalized = False, bs_received_at_ms = None, bs_interval_ms = None\<rparr>"
  show ?case
  proof (cases "bk_saturated s")
    case True
    show ?thesis unfolding blocks_inv_def
      by (rule exI [of _ pre], rule exI [of _ "post @ [?b]"])
        (use b True in \<open>auto simp: bulk_block_def Let_def word_gt_0\<close>)
  next
    case False
    then have post: "post = []" using b(4) by simp
    show ?thesis
    proof (cases "k = 0")
      case True
      then show ?thesis using block_seen False by (simp add: bulk_block_def Let_def)
    next
      case k: False
      show ?thesis unfolding blocks_inv_def
        by (rule exI [of _ "pre @ [?b]"], rule exI [of _ "[]"])
          (use b False post k in \<open>auto simp: bulk_block_def Let_def\<close>)
    qed
  qed
qed (auto intro: blocks_inv_keep simp: set_submitter_def)

lemma blocks_inv_reachable:
  "bulk_reachable items submitters target tracker s \<Longrightarrow> blocks_inv s"
  unfolding bulk_reachable_def
proof (induction rule: rtranclp_induct)
  case base
  show ?case by (simp add: blocks_inv_def bulk_init_def)
qed (rule blocks_inv_step)

end
