(* ===== verification/Stress_Bitswap.thy ===== *)
theory Stress_Bitswap
  imports Stress_Accounts "HOL-Library.Multiset"
begin

text \<open>
  The Bitswap client of the load generator (\<open>stress-test/src/bitswap.rs\<close>): the event loop of
  \<open>BitswapProtocol::run\<close>, which matches fetch commands with substreams and responses, the client
  functions over it and the cleaning of addresses. A request is named by a number, its response
  channel is the entry of that number in the log of answers. Sockets, peers and the protobuf
  decoder are inputs. Shown here: in every run each request is in one place, and is answered at
  most once; responses go to the oldest request of their peer; a closed connection leaves no
  request of the peer waiting for a response.
\<close>

section \<open>State\<close>

type_synonym PeerId = "u8 list"

record PendingRequest =
  pr_peer :: PeerId
  pr_cids :: "u8 list list"
  pr_id :: nat

text \<open>Overwriting an entry of \<open>pending_outbound\<close> drops its response channel; \<open>bw_dropped\<close> lists
  the requests to which that happened.\<close>

record bitswap =
  bw_connected :: "PeerId list"
  bw_pending_connection :: "PendingRequest list"
  bw_pending_outbound :: "(nat \<times> (u8 list list \<times> nat)) list"
  bw_waiting :: "(PeerId \<times> nat \<times> nat) list"
  bw_answers :: "(nat \<times> (string + u8 list list)) list"
  bw_dropped :: "nat list"

definition bitswap_init :: bitswap where
  "bitswap_init = \<lparr>bw_connected = [], bw_pending_connection = [], bw_pending_outbound = [], bw_waiting = [],
     bw_answers = [], bw_dropped = []\<rparr>"

definition answer :: "nat \<Rightarrow> string + u8 list list \<Rightarrow> bitswap \<Rightarrow> bitswap" where
  "answer i r s = s\<lparr>bw_answers := bw_answers s @ [(i, r)]\<rparr>"

definition outbound_insert :: "nat \<Rightarrow> u8 list list \<Rightarrow> nat \<Rightarrow> bitswap \<Rightarrow> bitswap" where
  "outbound_insert sid cids i s =
     s\<lparr>bw_pending_outbound := filter (\<lambda>(k, _). k \<noteq> sid) (bw_pending_outbound s) @ [(sid, cids, i)],
       bw_dropped := bw_dropped s @ map (snd \<circ> snd) (filter (\<lambda>(k, _). k = sid) (bw_pending_outbound s))\<rparr>"

section \<open>Reading a response\<close>

text \<open>A frame that was read: an error of the substream, bytes that do not decode, or a message with
  its blocks and whether it has block presences.\<close>

datatype frame = SubstreamError | DecodeError | Message "u8 list list" bool

fun read_frames :: "nat \<Rightarrow> frame list \<Rightarrow> u8 list list \<Rightarrow> u8 list list \<times> bool" where
  "read_frames expected_count frames all_blocks =
     (if expected_count \<le> length all_blocks then (all_blocks, False)
      else case frames of
          [] \<Rightarrow> (all_blocks, False)
        | SubstreamError # _ \<Rightarrow> (all_blocks, True)
        | DecodeError # _ \<Rightarrow> (all_blocks, True)
        | Message payload presences # rest \<Rightarrow>
            (if presences \<or> payload = [] then (all_blocks @ payload, False)
             else read_frames expected_count rest (all_blocks @ payload)))"

declare read_frames.simps [simp del]

definition read_response :: "nat \<Rightarrow> frame list \<Rightarrow> string + u8 list list" where
  "read_response expected_count frames = (case read_frames expected_count frames [] of
     (all_blocks, had_error) \<Rightarrow>
       if all_blocks \<noteq> [] then Inr all_blocks
       else if had_error then Inl ''Substream error during read''
       else Inl ''No blocks in response'')"

section \<open>Events\<close>

datatype bitswap_event =
    Fetch PeerId "u8 list list" nat "string + nat"
  | OutboundOpened nat PeerId bool
  | InboundOpened PeerId "frame list"
  | SubstreamOpenFailure nat string
  | ConnectionEstablished PeerId "nat \<Rightarrow> string + nat"
  | ConnectionClosed PeerId
  | DialFailure

text \<open>The result of \<open>open_substream\<close> for a request.\<close>

definition open_request :: "string + nat \<Rightarrow> u8 list list \<Rightarrow> nat \<Rightarrow> bitswap \<Rightarrow> bitswap" where
  "open_request opened cids i s = (case opened of
       Inr sid \<Rightarrow> outbound_insert sid cids i s
     | Inl e \<Rightarrow> answer i (Inl (''Failed to open substream: '' @ e)) s)"

definition on_fetch :: "PeerId \<Rightarrow> u8 list list \<Rightarrow> nat \<Rightarrow> string + nat \<Rightarrow> bitswap \<Rightarrow> bitswap" where
  "on_fetch peer cids i opened s =
     (if peer \<in> set (bw_connected s) then open_request opened cids i s
      else s\<lparr>bw_pending_connection := bw_pending_connection s @ [\<lparr>pr_peer = peer, pr_cids = cids, pr_id = i\<rparr>]\<rparr>)"

definition on_outbound :: "nat \<Rightarrow> PeerId \<Rightarrow> bool \<Rightarrow> bitswap \<Rightarrow> bitswap" where
  "on_outbound sid peer sent_ok s = (case map_of (bw_pending_outbound s) sid of
       None \<Rightarrow> s
     | Some (cids, i) \<Rightarrow>
         (let s1 = s\<lparr>bw_pending_outbound := filter (\<lambda>(k, _). k \<noteq> sid) (bw_pending_outbound s)\<rparr>
          in if sent_ok then s1\<lparr>bw_waiting := bw_waiting s @ [(peer, length cids, i)]\<rparr>
             else answer i (Inl ''Failed to send wantlist'') s1))"

fun take_first :: "PeerId \<Rightarrow> (PeerId \<times> nat \<times> nat) list \<Rightarrow> ((nat \<times> nat) \<times> (PeerId \<times> nat \<times> nat) list) option" where
  "take_first peer [] = None"
| "take_first peer ((p, n, i) # ws) =
     (if p = peer then Some ((n, i), ws) else map_option (\<lambda>(x, ws'). (x, (p, n, i) # ws')) (take_first peer ws))"

definition on_inbound :: "PeerId \<Rightarrow> frame list \<Rightarrow> bitswap \<Rightarrow> bitswap" where
  "on_inbound peer frames s = (case take_first peer (bw_waiting s) of
       None \<Rightarrow> s
     | Some ((expected_count, i), ws) \<Rightarrow> answer i (read_response expected_count frames) (s\<lparr>bw_waiting := ws\<rparr>))"

definition on_open_failure :: "nat \<Rightarrow> string \<Rightarrow> bitswap \<Rightarrow> bitswap" where
  "on_open_failure sid e s = (case map_of (bw_pending_outbound s) sid of
       None \<Rightarrow> s
     | Some (_, i) \<Rightarrow> answer i (Inl (''Substream open failed: '' @ e))
         (s\<lparr>bw_pending_outbound := filter (\<lambda>(k, _). k \<noteq> sid) (bw_pending_outbound s)\<rparr>))"

fun open_all :: "(nat \<Rightarrow> string + nat) \<Rightarrow> PendingRequest list \<Rightarrow> bitswap \<Rightarrow> bitswap" where
  "open_all opens [] s = s"
| "open_all opens (req # reqs) s = open_all opens reqs (open_request (opens (pr_id req)) (pr_cids req) (pr_id req) s)"

definition on_established :: "PeerId \<Rightarrow> (nat \<Rightarrow> string + nat) \<Rightarrow> bitswap \<Rightarrow> bitswap" where
  "on_established peer opens s =
     open_all opens (filter (\<lambda>req. pr_peer req = peer) (bw_pending_connection s))
       (s\<lparr>bw_connected := peer # bw_connected s,
          bw_pending_connection := filter (\<lambda>req. pr_peer req \<noteq> peer) (bw_pending_connection s)\<rparr>)"

definition on_closed :: "PeerId \<Rightarrow> bitswap \<Rightarrow> bitswap" where
  "on_closed peer s =
     s\<lparr>bw_connected := filter (\<lambda>p. p \<noteq> peer) (bw_connected s),
       bw_waiting := filter (\<lambda>(p, _). p \<noteq> peer) (bw_waiting s),
       bw_pending_connection := filter (\<lambda>req. pr_peer req \<noteq> peer) (bw_pending_connection s),
       bw_answers := bw_answers s
         @ map (\<lambda>(_, _, i). (i, Inl ''Connection closed'')) (filter (\<lambda>(p, _). p = peer) (bw_waiting s))
         @ map (\<lambda>req. (pr_id req, Inl ''Connection closed before request''))
             (filter (\<lambda>req. pr_peer req = peer) (bw_pending_connection s))\<rparr>"

fun bitswap_step :: "bitswap_event \<Rightarrow> bitswap \<Rightarrow> bitswap" where
  "bitswap_step (Fetch peer cids i opened) s = on_fetch peer cids i opened s"
| "bitswap_step (OutboundOpened sid peer sent_ok) s = on_outbound sid peer sent_ok s"
| "bitswap_step (InboundOpened peer frames) s = on_inbound peer frames s"
| "bitswap_step (SubstreamOpenFailure sid e) s = on_open_failure sid e s"
| "bitswap_step (ConnectionEstablished peer opens) s = on_established peer opens s"
| "bitswap_step (ConnectionClosed peer) s = on_closed peer s"
| "bitswap_step DialFailure s = s"

definition bitswap_run :: "bitswap_event list \<Rightarrow> bitswap \<Rightarrow> bitswap" where
  "bitswap_run events s = fold bitswap_step events s"

section \<open>Client functions\<close>

text \<open>\<open>fetch_blocks\<close> on the answer of the loop: absent after the timeout.\<close>

definition fetch_blocks :: "nat \<Rightarrow> bitswap \<Rightarrow> string + u8 list list" where
  "fetch_blocks i s = (case map_of (bw_answers s) i of
       Some r \<Rightarrow> r
     | None \<Rightarrow> if i \<in> set (bw_dropped s) then Inl ''Response channel closed'' else Inl ''Bitswap fetch timed out'')"

definition fetch_block :: "nat \<Rightarrow> bitswap \<Rightarrow> string + u8 list" where
  "fetch_block i s = and_then (fetch_blocks i s) (\<lambda>blocks.
     ok_or (if blocks = [] then None else Some (last blocks)) ''No blocks in response'')"

text \<open>\<open>str::split\<close> at a non-empty separator.\<close>

function split_on :: "string \<Rightarrow> string \<Rightarrow> string \<Rightarrow> string list" where
  "split_on sep cur [] = [cur]"
| "split_on sep cur (c # s) =
     (if take (length sep) (c # s) = sep then cur # split_on sep [] (drop (length sep - 1) s)
      else split_on sep (cur @ [c]) s)"
  by pat_completeness auto
termination
  by (relation "measure (\<lambda>(_, _, s). length s)") auto

definition split_str :: "string \<Rightarrow> string \<Rightarrow> string list" where
  "split_str sep s = split_on sep [] s"

definition clean_multiaddr :: "string \<Rightarrow> string" where
  "clean_multiaddr addr =
     (let parts = split_str ''/p2p/'' addr
      in if length parts \<le> 2 then addr else hd parts @ ''/p2p/'' @ last parts)"

section \<open>Each request is in one place\<close>

definition request_ids :: "bitswap \<Rightarrow> nat multiset" where
  "request_ids s = mset (map pr_id (bw_pending_connection s)) + mset (map (snd \<circ> snd) (bw_pending_outbound s))
     + mset (map (snd \<circ> snd) (bw_waiting s)) + mset (map fst (bw_answers s)) + mset (bw_dropped s)"

definition outbound_distinct :: "bitswap \<Rightarrow> bool" where
  "outbound_distinct s \<longleftrightarrow> distinct (map fst (bw_pending_outbound s))"

fun fetch_ids :: "bitswap_event list \<Rightarrow> nat list" where
  "fetch_ids [] = []"
| "fetch_ids (Fetch _ _ i _ # es) = i # fetch_ids es"
| "fetch_ids (_ # es) = fetch_ids es"

lemma mset_filter_split: "mset (map f (filter P xs)) + mset (map f (filter (\<lambda>x. \<not> P x) xs)) = mset (map f xs)"
  by (induction xs) simp_all

lemma remove_outbound:
  assumes "distinct (map fst xs)" and "map_of xs sid = Some (cids, i)"
  shows "mset (map (snd \<circ> snd) xs) = add_mset i (mset (map (snd \<circ> snd) (filter (\<lambda>(k, _). k \<noteq> sid) xs)))"
  using assms
proof (induction xs)
  case (Cons x xs)
  show ?case
  proof (cases "fst x = sid")
    case True
    then have "filter (\<lambda>(k, _). k \<noteq> sid) xs = xs"
      using Cons.prems(1) by (auto simp: filter_id_conv image_iff)
    then have "filter (\<lambda>(k, _). k \<noteq> sid) (x # xs) = xs" using True by (simp add: split_beta)
    then show ?thesis using True Cons.prems(2) by (cases x) (simp del: filter.simps)
  next
    case False
    with Cons show ?thesis by (auto simp: split_beta)
  qed
qed simp

lemma distinct_fst_filter: "distinct (map fst xs) \<Longrightarrow> distinct (map fst (filter P xs))"
  by (induction xs) auto

lemma open_request_ids:
  assumes "outbound_distinct s"
  shows "request_ids (open_request opened cids i s) = add_mset i (request_ids s)" "outbound_distinct (open_request opened cids i s)"
proof -
  have "mset (map (snd \<circ> snd) (filter (\<lambda>(k, _). k \<noteq> sid) (bw_pending_outbound s)))
      + mset (map (snd \<circ> snd) (filter (\<lambda>(k, _). k = sid) (bw_pending_outbound s)))
      = mset (map (snd \<circ> snd) (bw_pending_outbound s))" for sid
    using mset_filter_split [of "snd \<circ> snd" "\<lambda>(k, _). k \<noteq> sid" "bw_pending_outbound s"] by (simp add: split_beta)
  then have "request_ids (outbound_insert sid cids i s) = add_mset i (request_ids s)" for sid
    by (simp add: request_ids_def outbound_insert_def ac_simps flip: add_mset_add_single)
  then show "request_ids (open_request opened cids i s) = add_mset i (request_ids s)"
    by (auto simp: open_request_def request_ids_def answer_def split: sum.splits)
  show "outbound_distinct (open_request opened cids i s)"
    using assms by (auto simp: open_request_def outbound_distinct_def outbound_insert_def answer_def distinct_fst_filter split: sum.splits)
qed

lemma open_all_ids:
  "outbound_distinct s \<Longrightarrow> request_ids (open_all opens reqs s) = mset (map pr_id reqs) + request_ids s \<and> outbound_distinct (open_all opens reqs s)"
  by (induction opens reqs s rule: open_all.induct) (simp_all add: open_request_ids)

lemma take_first_ids:
  "take_first peer ws = Some ((n, i), ws') \<Longrightarrow> mset (map (snd \<circ> snd) ws) = add_mset i (mset (map (snd \<circ> snd) ws'))"
  by (induction peer ws arbitrary: ws' rule: take_first.induct) (auto split: if_splits)

lemma bitswap_step_ids:
  assumes "outbound_distinct s"
  shows "request_ids (bitswap_step e s) = mset (fetch_ids [e]) + request_ids s \<and> outbound_distinct (bitswap_step e s)"
proof (cases e)
  case (Fetch peer cids i opened)
  then show ?thesis
    using open_request_ids [OF assms] assms by (simp add: on_fetch_def request_ids_def outbound_distinct_def)
next
  case (OutboundOpened sid peer sent_ok)
  then show ?thesis
    using assms remove_outbound [of "bw_pending_outbound s" sid]
    by (auto simp: on_outbound_def request_ids_def outbound_distinct_def answer_def distinct_fst_filter Let_def split: option.splits)
next
  case (InboundOpened peer frames)
  then show ?thesis
    using assms take_first_ids [of peer "bw_waiting s"]
    by (auto simp: on_inbound_def request_ids_def outbound_distinct_def answer_def split: option.splits)
next
  case (SubstreamOpenFailure sid m)
  then show ?thesis
    using assms remove_outbound [of "bw_pending_outbound s" sid]
    by (auto simp: on_open_failure_def request_ids_def outbound_distinct_def answer_def distinct_fst_filter split: option.splits)
next
  case (ConnectionEstablished peer opens)
  let ?s = "s\<lparr>bw_connected := peer # bw_connected s,
    bw_pending_connection := filter (\<lambda>req. pr_peer req \<noteq> peer) (bw_pending_connection s)\<rparr>"
  have "outbound_distinct ?s" using assms by (simp add: outbound_distinct_def)
  from open_all_ids [OF this] have "request_ids (on_established peer opens s)
      = mset (map pr_id (filter (\<lambda>req. pr_peer req = peer) (bw_pending_connection s))) + request_ids ?s
      \<and> outbound_distinct (on_established peer opens s)"
    by (simp add: on_established_def)
  moreover have "mset (map pr_id (filter (\<lambda>req. pr_peer req = peer) (bw_pending_connection s))) + request_ids ?s = request_ids s"
    using mset_filter_split [of pr_id "\<lambda>req. pr_peer req = peer" "bw_pending_connection s"]
    by (simp add: request_ids_def ac_simps)
  ultimately show ?thesis by (simp add: ConnectionEstablished)
next
  case (ConnectionClosed peer)
  have "mset (map (snd \<circ> snd) (filter (\<lambda>(p, _). p = peer) (bw_waiting s)))
      + mset (map (snd \<circ> snd) (filter (\<lambda>(p, _). p \<noteq> peer) (bw_waiting s))) = mset (map (snd \<circ> snd) (bw_waiting s))"
    using mset_filter_split [of "snd \<circ> snd" "\<lambda>(p, _). p = peer" "bw_waiting s"] by (simp add: split_beta)
  moreover note mset_filter_split [of pr_id "\<lambda>req. pr_peer req = peer" "bw_pending_connection s"]
  moreover have "request_ids (on_closed peer s) =
      mset (map pr_id (filter (\<lambda>req. pr_peer req = peer) (bw_pending_connection s)))
      + mset (map pr_id (filter (\<lambda>req. pr_peer req \<noteq> peer) (bw_pending_connection s)))
      + mset (map (snd \<circ> snd) (bw_pending_outbound s))
      + (mset (map (snd \<circ> snd) (filter (\<lambda>(p, _). p = peer) (bw_waiting s)))
         + mset (map (snd \<circ> snd) (filter (\<lambda>(p, _). p \<noteq> peer) (bw_waiting s))))
      + mset (map fst (bw_answers s)) + mset (bw_dropped s)"
    by (simp add: request_ids_def on_closed_def o_def split_beta ac_simps)
  ultimately have "request_ids (on_closed peer s) = request_ids s" by (simp only: request_ids_def)
  then show ?thesis using assms by (simp add: ConnectionClosed outbound_distinct_def on_closed_def)
qed (use assms in simp)

lemma bitswap_run_ids:
  "outbound_distinct s \<Longrightarrow> request_ids (bitswap_run es s) = mset (fetch_ids es) + request_ids s"
proof (induction es arbitrary: s)
  case (Cons e es)
  have "mset (fetch_ids (e # es)) = mset (fetch_ids [e]) + mset (fetch_ids es)" by (cases e) simp_all
  with Cons.IH [of "bitswap_step e s"] bitswap_step_ids [OF Cons.prems, of e] show ?case
    by (simp add: bitswap_run_def ac_simps)
qed (simp add: bitswap_run_def)

text \<open>A response is handed to the oldest request that waits for its peer.\<close>

lemma take_first_oldest:
  "take_first peer ws = Some ((n, i), ws') \<Longrightarrow>
     \<exists>a b. ws = a @ (peer, n, i) # b \<and> ws' = a @ b \<and> peer \<notin> fst ` set a"
proof (induction peer ws arbitrary: ws' rule: take_first.induct)
  case (2 peer p m j ws)
  show ?case
  proof (cases "p = peer")
    case False
    with 2(2) obtain ws'' where "take_first peer ws = Some ((n, i), ws'')" "ws' = (p, m, j) # ws''" by auto
    with 2(1) [OF False] obtain a b where "ws = a @ (peer, n, i) # b" "ws'' = a @ b" "peer \<notin> fst ` set a" by blast
    with False \<open>ws' = _\<close> show ?thesis by (intro exI [of _ "(p, m, j) # a"] exI [of _ b]) auto
  qed (use 2(2) in \<open>auto intro: exI [of _ "[]"]\<close>)
qed simp

lemma closed_peer_forgotten:
  "peer \<notin> fst ` set (bw_waiting (on_closed peer s))" "peer \<notin> pr_peer ` set (bw_pending_connection (on_closed peer s))"
  by (auto simp: on_closed_def)

text \<open>An answer is never an empty list of blocks, and may have fewer blocks than were asked for.\<close>

lemma read_response_nonempty: "read_response n frames = Inr blocks \<Longrightarrow> blocks \<noteq> []"
  by (auto simp: read_response_def split: if_splits prod.splits)

lemma partial_response: "blk \<noteq> [] \<Longrightarrow> read_response 2 [Message [blk] True] = Inr [blk]"
  by (simp add: read_response_def read_frames.simps)

lemma read_frames_complete:
  "\<lbrakk>\<And>f. f \<in> set frames \<Longrightarrow> \<exists>payload. f = Message payload False \<and> payload \<noteq> []; n \<le> length acc + length frames\<rbrakk>
     \<Longrightarrow> \<exists>blocks. read_frames n frames acc = (blocks, False) \<and> n \<le> length blocks"
proof (induction frames arbitrary: acc)
  case (Cons f frames)
  obtain payload where f: "f = Message payload False" "payload \<noteq> []" using Cons.prems(1) by auto
  show ?case
  proof (cases "n \<le> length acc")
    case False
    have "n \<le> length (acc @ payload) + length frames" using Cons.prems(2) f(2) by (cases payload) auto
    with Cons.IH [of "acc @ payload"] Cons.prems(1) False f show ?thesis
      by (subst read_frames.simps) auto
  qed (subst read_frames.simps, simp)
qed (subst read_frames.simps, simp)

end
