(* ===== verification/Stress_Scenarios.thy ===== *)
theory Stress_Scenarios
  imports Complex_Main Hop Stress_Plan Stress_Discovery Stress_Submit Stress_Bitswap
begin

text \<open>
  What the scenarios of the load generator compute around the submission of work
  (\<open>scenarios/throughput.rs\<close>, \<open>scenarios/renew.rs\<close>, \<open>hop.rs\<close> and \<open>report.rs\<close> of
  \<open>stress-test/src\<close>): the choice of payload sizes, the throughput of a run, latency
  percentiles, the renewal waves and the HOP signatures. Floating-point numbers are rationals, that
  is, rounding is left out; a duration is a number of nanoseconds or of seconds.
\<close>

section \<open>The payload sizes of a sweep\<close>

definition MAX_STORE_PAYLOAD_BYTES :: u64 where
  "MAX_STORE_PAYLOAD_BYTES = 2 * 1024 * 1024"

definition ALL_PAYLOAD_SIZES :: "(u64 \<times> string) list" where
  "ALL_PAYLOAD_SIZES = [(1024, ''1KB''), (4096, ''4KB''), (32 * 1024, ''32KB''), (128 * 1024, ''128KB''),
     (512 * 1024, ''512KB''), (1024 * 1024, ''1MB''), (MAX_STORE_PAYLOAD_BYTES, ''2MB'')]"

definition REAL_WORLD_MIX_LABEL_WEIGHTS :: "(string \<times> u32) list" where
  "REAL_WORLD_MIX_LABEL_WEIGHTS = [(''1KB'', 230), (''4KB'', 150), (''32KB'', 120), (''128KB'', 175),
     (''512KB'', 155), (''1MB'', 90), (''2MB'', 80)]"

datatype SweepError = UnknownLabel string | BadMix MixError | EmptyVariants | UnknownVariant string

fun label_pairs :: "(string \<times> u32) list \<Rightarrow> SweepError + (u64 \<times> u32) list" where
  "label_pairs [] = Inr []"
| "label_pairs ((label, w) # rest) = (case find (\<lambda>(_, l). l = label) ALL_PAYLOAD_SIZES of
       None \<Rightarrow> Inl (UnknownLabel label)
     | Some (sz, _) \<Rightarrow> map_ok (\<lambda>ps. (sz, w) # ps) (label_pairs rest))"

definition real_world_payload_mix :: "SweepError + PayloadSizeMix" where
  "real_world_payload_mix = and_then (label_pairs REAL_WORLD_MIX_LABEL_WEIGHTS) (\<lambda>pairs.
     case from_weighted_sizes pairs of Inl e \<Rightarrow> Inl (BadMix e) | Inr m \<Rightarrow> Inr m)"

datatype BlockCapacitySweepStep = FixedStep u64 string | MixedStep PayloadSizeMix

definition to_uppercase :: "string \<Rightarrow> string" where
  "to_uppercase s = map (\<lambda>c. let n = of_char c :: nat in if 97 \<le> n \<and> n \<le> 122 then char_of (n - 32) else c) s"

definition is_space :: "char \<Rightarrow> bool" where
  "is_space c = (of_char c \<in> {9 .. 13 :: nat} \<or> of_char c = (32 :: nat))"

definition trim :: "string \<Rightarrow> string" where
  "trim s = rev (dropWhile is_space (rev (dropWhile is_space s)))"

fun sweep_steps :: "PayloadSizeMix option \<Rightarrow> string list \<Rightarrow> SweepError + BlockCapacitySweepStep list" where
  "sweep_steps mix [] = Inr []"
| "sweep_steps mix (t # tokens) =
     (if t = ''MIXED'' then map_ok (\<lambda>steps. MixedStep (the mix) # steps) (sweep_steps mix tokens)
      else case find (\<lambda>(_, label). to_uppercase label = t) ALL_PAYLOAD_SIZES of
          Some (sz, label) \<Rightarrow> map_ok (\<lambda>steps. FixedStep sz label # steps) (sweep_steps mix tokens)
        | None \<Rightarrow> Inl (UnknownVariant t))"

definition build_sweep_steps :: "string option \<Rightarrow> SweepError + BlockCapacitySweepStep list" where
  "build_sweep_steps variant_filter = (case variant_filter of
       None \<Rightarrow> Inr (map (\<lambda>(sz, label). FixedStep sz label) ALL_PAYLOAD_SIZES)
     | Some f \<Rightarrow>
         let tokens = filter (\<lambda>s. s \<noteq> []) (map (to_uppercase \<circ> trim) (split_str '','' f))
         in if tokens = [] then Inl EmptyVariants
            else if ''MIXED'' \<in> set tokens
              then and_then real_world_payload_mix (\<lambda>mix. sweep_steps (Some mix) tokens)
              else sweep_steps None tokens)"

section \<open>The throughput of a run\<close>

fun position :: "('a \<Rightarrow> bool) \<Rightarrow> 'a list \<Rightarrow> nat option" where
  "position P [] = None"
| "position P (x # xs) = (if P x then Some 0 else map_option Suc (position P xs))"

fun rposition :: "('a \<Rightarrow> bool) \<Rightarrow> 'a list \<Rightarrow> nat option" where
  "rposition P [] = None"
| "rposition P (x # xs) = (case rposition P xs of Some i \<Rightarrow> Some (Suc i) | None \<Rightarrow> if P x then Some 0 else None)"

definition measured_blocks :: "BlockStats list \<Rightarrow> BlockStats list" where
  "measured_blocks blocks = filter (\<lambda>b. \<not> bs_prefill b) blocks"

text \<open>The steady state: the blocks between the first and the last block with transactions.\<close>

definition steady_blocks :: "BlockStats list \<Rightarrow> BlockStats list" where
  "steady_blocks measured =
     (case (position (\<lambda>b. 0 < bs_tx_count b) measured, rposition (\<lambda>b. 0 < bs_tx_count b) measured) of
        (Some first, Some final) \<Rightarrow>
          if first + 1 < final then take (final - (first + 1)) (drop (first + 1) measured) else measured
      | _ \<Rightarrow> measured)"

definition steady_wall_ms :: "BlockStats list \<Rightarrow> nat" where
  "steady_wall_ms steady = (if steady = [] then 0
     else case (bs_received_at_ms (hd steady), bs_received_at_ms (last steady)) of
         (Some first, Some final) \<Rightarrow> if first < final then unat (final - first) else 0
       | _ \<Rightarrow> 0)"

definition steady_wall_secs :: "rat \<Rightarrow> BlockStats list \<Rightarrow> rat" where
  "steady_wall_secs duration steady =
     (let wall = steady_wall_ms steady in
      if 0 < wall \<and> steady \<noteq> []
      then (of_nat wall + of_nat wall / of_nat (max (length steady - 1) 1)) / 1000
      else duration)"

record bulk_summary =
  sum_tps :: rat
  sum_bps :: rat
  sum_avg_tx_per_block :: rat
  sum_peak_tx_per_block :: u64
  sum_measured_confirmed :: u64
  sum_empty_count :: nat
  sum_avg_block_interval_ms :: "rat option"

definition average :: "u64 list \<Rightarrow> rat" where
  "average xs = of_nat (unat (sum_list xs)) / of_nat (length xs)"

definition scenario_result_from_bulk :: "rat \<Rightarrow> BlockStats list \<Rightarrow> bulk_summary" where
  "scenario_result_from_bulk duration all_blocks =
     (let measured = measured_blocks all_blocks;
          steady = steady_blocks measured;
          measured_confirmed = (\<Sum>b\<leftarrow>measured. bs_tx_count b);
          steady_bytes = (\<Sum>b\<leftarrow>steady. bs_payload_bytes b);
          intervals = List.map_filter bs_interval_ms steady;
          secs = steady_wall_secs duration steady
      in \<lparr>sum_tps = (if 0 < secs then of_nat (unat measured_confirmed) / secs else 0),
          sum_bps = (if 0 < secs then of_nat (unat steady_bytes) / secs else 0),
          sum_avg_tx_per_block = (if steady \<noteq> [] then average (map bs_tx_count steady) else 0),
          sum_peak_tx_per_block = fold max (map bs_tx_count steady) 0,
          sum_measured_confirmed = measured_confirmed,
          sum_empty_count = length (filter (\<lambda>b. bs_tx_count b = 0) steady),
          sum_avg_block_interval_ms = (if intervals \<noteq> [] then Some (average intervals) else None)\<rparr>)"

section \<open>Latencies\<close>

record LatencyStats =
  ls_p50 :: nat
  ls_p90 :: nat
  ls_p99 :: nat
  ls_min :: nat
  ls_max :: nat
  ls_mean :: nat

text \<open>Durations in nanoseconds; there are fewer than \<open>2 ^ 32\<close> of them, so that the length is not cut
  by the cast to \<open>u32\<close>.\<close>

definition compute_latency_stats :: "nat list \<Rightarrow> LatencyStats option" where
  "compute_latency_stats durations =
     (if durations = [] then None
      else let ds = sort durations; len = length ds
        in Some \<lparr>ls_p50 = ds ! (len * 50 div 100), ls_p90 = ds ! min (len * 90 div 100) (len - 1),
             ls_p99 = ds ! min (len * 99 div 100) (len - 1), ls_min = ds ! 0, ls_max = ds ! (len - 1),
             ls_mean = sum_list ds div len\<rparr>)"

section \<open>Renewal waves\<close>

text \<open>\<open>discover_stored_items\<close> reads the number of entries of a block off the compact length prefix
  of the stored value, one or two bytes; keys that are too short are skipped.\<close>

definition stored_count :: "u8 list \<Rightarrow> u32" where
  "stored_count encoded = (case encoded of
       [] \<Rightarrow> 0
     | b # rest \<Rightarrow>
         if b mod 4 = 0 then ucast (b div 4)
         else if b mod 4 = 1 \<and> rest \<noteq> [] then (ucast b + 256 * ucast (hd rest)) div 4
         else 0)"

fun stored_items :: "nat \<Rightarrow> (u8 list \<times> u8 list) list \<Rightarrow> (u64 \<times> u32) list \<Rightarrow> (u64 \<times> u32) list" where
  "stored_items needed [] items = items"
| "stored_items needed ((key, encoded) # entries) items =
     (if length key < 36 then stored_items needed entries items
      else let items' = items @ map (\<lambda>idx. (block_of_key key, idx)) (u32_range 0 (stored_count encoded))
        in if needed \<le> length items' then items' else stored_items needed entries items')"

text \<open>The loop of \<open>run_renew_stress\<close>: an iteration reads the nonce at a block, signs one renewal for
  each item with consecutive nonces, and reads the nonce again at the next block. \<open>None\<close> is a read
  that failed, or for the second read a next block that did not arrive; the list of reads ends where
  the loop breaks on the deadline or on the end of the subscription.\<close>

record renew_run =
  rr_best_nonce :: u64
  rr_confirmed_blocks :: u32
  rr_total_renewed :: u64

definition renew_nonces :: "u64 \<Rightarrow> nat \<Rightarrow> u64 list" where
  "renew_nonces best_nonce items_per_wave = map (\<lambda>i. best_nonce + of_nat i) [0..<items_per_wave]"

definition renew_iteration :: "u64 option \<times> u64 option \<Rightarrow> renew_run \<Rightarrow> renew_run" where
  "renew_iteration reads s =
     (let s1 = (case fst reads of Some n \<Rightarrow> s\<lparr>rr_best_nonce := n\<rparr> | None \<Rightarrow> s)
      in case snd reads of
          None \<Rightarrow> s1
        | Some n \<Rightarrow>
            let included = sat_sub n (rr_best_nonce s1);
                s2 = (if 0 < included
                  then s1\<lparr>rr_confirmed_blocks := rr_confirmed_blocks s1 + 1,
                          rr_total_renewed := rr_total_renewed s1 + included\<rparr> else s1)
            in s2\<lparr>rr_best_nonce := n\<rparr>)"

fun renew_loop :: "u32 \<Rightarrow> (u64 option \<times> u64 option) list \<Rightarrow> renew_run \<Rightarrow> renew_run" where
  "renew_loop target [] s = s"
| "renew_loop target (reads # rest) s =
     (if target \<le> rr_confirmed_blocks s then s else renew_loop target rest (renew_iteration reads s))"

section \<open>HOP signatures\<close>

definition hop_submit_context :: "u8 list" where
  "hop_submit_context = ascii_bytes ''hop-submit-v1:''"

definition HOP_CLAIM_CONTEXT :: "u8 list" where
  "HOP_CLAIM_CONTEXT = ascii_bytes ''hop-claim-v1:''"

definition op_signing_payload :: "host \<Rightarrow> u8 list \<Rightarrow> u8 list \<Rightarrow> u8 list" where
  "op_signing_payload h context hash = blake2_256 h (context @ hash)"

definition scale_multi_signer :: "u8 list \<Rightarrow> u8 list" where
  "scale_multi_signer public_bytes = 0 # public_bytes"

definition sign_multi_signature :: "(u8 list \<Rightarrow> u8 list) \<Rightarrow> u8 list \<Rightarrow> u8 list" where
  "sign_multi_signature sign msg = 0 # sign msg"

definition submitter_multi_signer :: "u8 list \<Rightarrow> u8 list" where
  "submitter_multi_signer public_key = 1 # public_key"

definition submitter_multi_signature :: "(u8 list \<Rightarrow> u8 list) \<Rightarrow> u8 list \<Rightarrow> u8 list" where
  "submitter_multi_signature sign msg = 1 # sign msg"

definition submit_signing_payload :: "host \<Rightarrow> u8 list \<Rightarrow> u64 \<Rightarrow> u8 list" where
  "submit_signing_payload h data submit_timestamp =
     (let data_hash = blake2_256 h data
      in blake2_256 h (hop_submit_context @ data_hash @ to_le_bytes submit_timestamp))"

text \<open>The parameters of the request \<open>hop_submit\<close>, before their hexadecimal encoding, and the content
  hash it returns.\<close>

record hop_request =
  hq_data :: "u8 list"
  hq_recipients :: "u8 list list"
  hq_signature :: "u8 list"
  hq_signer :: "u8 list"
  hq_timestamp :: u64

definition hop_submit :: "host \<Rightarrow> u8 list \<Rightarrow> u8 list list \<Rightarrow> u8 list \<Rightarrow> (u8 list \<Rightarrow> u8 list) \<Rightarrow> u64 \<Rightarrow> hop_request \<times> u8 list" where
  "hop_submit h data recipients public_key sign submit_timestamp =
     (let payload = submit_signing_payload h data submit_timestamp
      in (\<lparr>hq_data = data, hq_recipients = map scale_multi_signer recipients,
           hq_signature = submitter_multi_signature sign payload, hq_signer = submitter_multi_signer public_key,
           hq_timestamp = submit_timestamp\<rparr>, blake2_256 h data))"

text \<open>The seed of a generated payload; the generator itself is a library.\<close>

definition payload_seed :: "u64 \<Rightarrow> u64 \<Rightarrow> u64 \<Rightarrow> u64" where
  "payload_seed salt sz index = xor (xor index salt) (sz * 0x9E3779B97F4A7C15)"

definition generate_payload :: "(u64 \<Rightarrow> nat \<Rightarrow> u8 list) \<Rightarrow> u64 \<Rightarrow> u64 \<Rightarrow> u64 \<Rightarrow> u8 list" where
  "generate_payload std_rng salt sz index = std_rng (payload_seed salt sz index) (unat sz)"

section \<open>Properties\<close>

text \<open>Every label of the mix is in the table, the weights sum to 1000 as the comment says, and no
  payload is larger than the limit.\<close>

lemma real_world_mix_total:
  "\<exists>m. real_world_payload_mix = Inr m \<and> mix_total m = 1000 \<and> max_payload_bytes m = MAX_STORE_PAYLOAD_BYTES"
  by (simp add: real_world_payload_mix_def REAL_WORLD_MIX_LABEL_WEIGHTS_def ALL_PAYLOAD_SIZES_def
      from_weighted_sizes_def Let_def sat_add_def max_payload_bytes_def MAX_STORE_PAYLOAD_BYTES_def max_def
      word_le_nat_alt)

lemma sweep_steps_from_table:
  "sweep_steps mix tokens = Inr steps \<Longrightarrow> length steps = length tokens
     \<and> (\<forall>sz label. FixedStep sz label \<in> set steps \<longrightarrow> (sz, label) \<in> set ALL_PAYLOAD_SIZES)"
proof (induction mix tokens arbitrary: steps rule: sweep_steps.induct)
  case (2 mix t tokens)
  show ?case
  proof (cases "t = ''MIXED''")
    case True
    with 2 show ?thesis by (auto simp: res_simps)
  next
    case False
    with "2.prems" obtain sz label rest where f: "find (\<lambda>(_, label). to_uppercase label = t) ALL_PAYLOAD_SIZES = Some (sz, label)"
      and rest: "sweep_steps mix tokens = Inr rest" and steps: "steps = FixedStep sz label # rest"
      by (auto simp: res_simps split: option.splits)
    have "(sz, label) \<in> set ALL_PAYLOAD_SIZES" using f by (auto simp: find_Some_iff in_set_conv_nth)
    with 2(2) [OF False f refl rest] steps show ?thesis by auto
  qed
qed simp

text \<open>Every step of a sweep stays within the limit on the size of a transaction.\<close>

lemma sweep_within_limit:
  assumes "build_sweep_steps f = Inr steps" and "FixedStep sz label \<in> set steps"
  shows "sz \<le> MAX_STORE_PAYLOAD_BYTES"
proof -
  have "(sz, label) \<in> set ALL_PAYLOAD_SIZES"
    using assms by (auto simp: build_sweep_steps_def Let_def res_simps dest!: sweep_steps_from_table
        split: option.splits if_splits)
  then show ?thesis
    by (auto simp: ALL_PAYLOAD_SIZES_def MAX_STORE_PAYLOAD_BYTES_def word_le_nat_alt)
qed

lemma position_Some:
  "position P xs = Some i \<Longrightarrow> i < length xs \<and> P (xs ! i) \<and> (\<forall>j < i. \<not> P (xs ! j))"
proof (induction xs arbitrary: i)
  case (Cons x xs)
  then show ?case by (cases i) (auto simp: nth_Cons less_Suc_eq_0_disj split: if_splits)
qed simp

lemma rposition_Some:
  "rposition P xs = Some i \<Longrightarrow> i < length xs \<and> P (xs ! i) \<and> (\<forall>j < length xs. i < j \<longrightarrow> \<not> P (xs ! j))"
  "rposition P xs = None \<Longrightarrow> \<forall>x \<in> set xs. \<not> P x"
proof (induction xs arbitrary: i)
  case (Cons x xs)
  {
    case 1
    show ?case
    proof (cases "rposition P xs")
      case None
      with 1 Cons.IH(2) show ?thesis by (auto simp: nth_Cons split: if_splits nat.splits)
    next
      case (Some k)
      with 1 Cons.IH(1) [OF Some] show ?thesis by (auto simp: nth_Cons split: nat.splits)
    qed
  next
    case 2
    with Cons.IH(2) show ?case by (auto split: option.splits if_splits)
  }
qed simp_all

text \<open>The steady blocks have all transactions but those of the first and the last busy block.\<close>

lemma steady_blocks_total:
  assumes f: "position (\<lambda>b. 0 < bs_tx_count b) m = Some f" and l: "rposition (\<lambda>b. 0 < bs_tx_count b) m = Some l"
    and fl: "f + 1 < l"
  shows "(\<Sum>b\<leftarrow>m. bs_tx_count b) = bs_tx_count (m ! f) + (\<Sum>b\<leftarrow>steady_blocks m. bs_tx_count b) + bs_tx_count (m ! l)"
proof -
  note F = position_Some [OF f] and L = rposition_Some(1) [OF l]
  have steady: "steady_blocks m = take (l - (f + 1)) (drop (f + 1) m)"
    using f l fl by (simp add: steady_blocks_def)
  have "m = take f m @ m ! f # drop (f + 1) m" using F by (simp add: id_take_nth_drop)
  also have "drop (f + 1) m = steady_blocks m @ drop l m"
    unfolding steady using fl append_take_drop_id [of "l - (f + 1)" "drop (f + 1) m"] by (simp del: append_take_drop_id)
  also have "drop l m = m ! l # drop (l + 1) m" using L by (simp add: Cons_nth_drop_Suc)
  finally have split: "m = take f m @ m ! f # steady_blocks m @ m ! l # drop (l + 1) m" .
  have before: "b \<in> set (take f m) \<Longrightarrow> bs_tx_count b = 0" for b using F by (auto simp: in_set_conv_nth word_gt_0)
  have after: "b \<in> set (drop (l + 1) m) \<Longrightarrow> bs_tx_count b = 0" for b using L by (auto simp: in_set_conv_nth word_gt_0)
  have "(\<Sum>b\<leftarrow>take f m. bs_tx_count b) = 0" "(\<Sum>b\<leftarrow>drop (l + 1) m. bs_tx_count b) = 0"
    using before after by (simp_all cong: map_cong)
  then show ?thesis by (subst split) (simp add: ac_simps)
qed

text \<open>The blocks that the pipeline and the bulk run report have no time of receipt, so that the clock
  of the steady blocks is not used for them: the time is that of the whole run.\<close>

lemma no_receipt_no_clock:
  assumes "\<And>b. b \<in> set blocks \<Longrightarrow> bs_received_at_ms b = None"
  shows "steady_wall_secs duration (steady_blocks (measured_blocks blocks)) = duration"
proof -
  have sub: "set (steady_blocks (measured_blocks blocks)) \<subseteq> set blocks"
    by (auto simp: steady_blocks_def measured_blocks_def dest!: in_set_takeD in_set_dropD split: option.splits if_splits)
  have "bs_received_at_ms (hd (steady_blocks (measured_blocks blocks))) = None" if "steady_blocks (measured_blocks blocks) \<noteq> []"
    using hd_in_set [OF that] sub by (intro assms) blast
  then have "steady_wall_ms (steady_blocks (measured_blocks blocks)) = 0" by (simp add: steady_wall_ms_def)
  then show ?thesis by (simp add: steady_wall_secs_def)
qed

lemma monitor_blocks_have_no_receipt:
  "\<forall>b \<in> set (mo_stats s). bs_received_at_ms b = None \<Longrightarrow> \<forall>b \<in> set (mo_stats (push_finalized pb s)). bs_received_at_ms b = None"
  by (simp add: push_finalized_def Let_def)

text \<open>With times of receipt, the rate of transactions counts all measured blocks over the time of the
  steady blocks only, unlike the rate of bytes: a run of four equal blocks at a constant pace
  reports twice the transactions that the steady blocks had.\<close>

definition sample_block :: "u64 \<Rightarrow> BlockStats" where
  "sample_block n = \<lparr>bs_number = n, bs_tx_count = 10, bs_payload_bytes = 10000, bs_prefill = False,
     bs_timestamp_ms = None, bs_hash = None, bs_finalized = True, bs_received_at_ms = Some (6000 * n),
     bs_interval_ms = Some 6000\<rparr>"

lemma tps_overcounts:
  defines "r \<equiv> scenario_result_from_bulk 24 (map sample_block [1, 2, 3, 4])"
  shows "sum_tps r = 40 / 12" "sum_bps r = 20000 / 12" "sum_avg_tx_per_block r = 10"
  unfolding r_def
  by (simp_all add: scenario_result_from_bulk_def measured_blocks_def steady_blocks_def sample_block_def Let_def
      steady_wall_secs_def steady_wall_ms_def average_def word_less_nat_alt)

lemma percentile_index: "0 < (n::nat) \<Longrightarrow> p \<le> 100 \<Longrightarrow> min (n * p div 100) (n - 1) < n"
  by linarith

lemma latency_stats_ordered:
  assumes "compute_latency_stats ds = Some s"
  shows "ls_min s \<le> ls_p50 s" "ls_p50 s \<le> ls_p90 s" "ls_p90 s \<le> ls_p99 s" "ls_p99 s \<le> ls_max s"
    "ls_min s \<le> ls_mean s" "ls_mean s \<le> ls_max s" "\<forall>d \<in> set ds. ls_min s \<le> d \<and> d \<le> ls_max s"
proof -
  define xs where "xs = sort ds"
  have ne: "ds \<noteq> []" using assms by (auto simp: compute_latency_stats_def)
  then have pos: "0 < length xs" by (simp add: xs_def)
  have s: "s = \<lparr>ls_p50 = xs ! (length xs * 50 div 100), ls_p90 = xs ! min (length xs * 90 div 100) (length xs - 1),
             ls_p99 = xs ! min (length xs * 99 div 100) (length xs - 1), ls_min = xs ! 0, ls_max = xs ! (length xs - 1),
             ls_mean = sum_list xs div length xs\<rparr>"
    using assms ne by (simp add: compute_latency_stats_def xs_def Let_def)
  have mono: "xs ! i \<le> xs ! j" if "i \<le> j" "j < length xs" for i j
    using that by (intro sorted_nth_mono) (simp_all add: xs_def)
  have mid: "length xs * 50 div 100 < length xs" using pos by linarith
  show "ls_min s \<le> ls_p50 s" using mono mid by (simp add: s)
  show "ls_p50 s \<le> ls_p90 s" using mono [of "length xs * 50 div 100"] percentile_index [OF pos, of 90] pos by (simp add: s)
  show "ls_p90 s \<le> ls_p99 s" using mono percentile_index [OF pos, of 99] by (simp add: s div_le_mono min.coboundedI1)
  show "ls_p99 s \<le> ls_max s" using mono pos by (simp add: s)
  have bounds: "xs ! 0 \<le> d \<and> d \<le> xs ! (length xs - 1)" if d: "d \<in> set xs" for d
  proof -
    obtain i where "i < length xs" "d = xs ! i" using d by (auto simp: in_set_conv_nth)
    then show ?thesis using mono by (simp add: Suc_leI)
  qed
  then show "\<forall>d \<in> set ds. ls_min s \<le> d \<and> d \<le> ls_max s" by (simp add: s xs_def)
  have "sum_list (map (\<lambda>_. xs ! 0) xs) \<le> sum_list (map id xs)" "sum_list (map id xs) \<le> sum_list (map (\<lambda>_. xs ! (length xs - 1)) xs)"
    using bounds by (intro sum_list_mono; simp)+
  then have total: "length xs * xs ! 0 \<le> sum_list xs" "sum_list xs \<le> length xs * xs ! (length xs - 1)"
    by (simp_all add: sum_list_triv)
  show "ls_min s \<le> ls_mean s" using total(1) pos by (simp add: s less_eq_div_iff_mult_less_eq mult.commute)
  have "sum_list xs div length xs \<le> (length xs * xs ! (length xs - 1)) div length xs" by (rule div_le_mono [OF total(2)])
  also have "\<dots> = xs ! (length xs - 1)" using pos by simp
  finally show "ls_mean s \<le> ls_max s" by (simp add: s)
qed

text \<open>At least half of the durations are at or below the reported median.\<close>

lemma median_half:
  assumes "compute_latency_stats ds = Some s"
  shows "length ds \<le> 2 * length (filter (\<lambda>d. d \<le> ls_p50 s) ds)"
proof -
  define xs where "xs = sort ds"
  define k where "k = length xs * 50 div 100"
  have ne: "ds \<noteq> []" using assms by (auto simp: compute_latency_stats_def)
  have len: "length xs = length ds" by (simp add: xs_def)
  have k: "k < length xs" using ne len by (cases ds) (simp_all add: k_def)
  have p50: "ls_p50 s = xs ! k" using assms ne by (auto simp: compute_latency_stats_def xs_def k_def Let_def)
  have "set (take (Suc k) xs) \<subseteq> {d. d \<le> xs ! k}"
    using k by (auto simp: xs_def in_set_conv_nth intro!: sorted_nth_mono)
  then have "filter (\<lambda>d. d \<le> xs ! k) (take (Suc k) xs) = take (Suc k) xs" by (auto simp: filter_id_conv)
  then have "Suc k \<le> length (filter (\<lambda>d. d \<le> xs ! k) xs)"
    using k by (metis append_take_drop_id filter_append length_append length_take le_add1 min.absorb2 Suc_leI)
  also have "length (filter (\<lambda>d. d \<le> xs ! k) xs) = length (filter (\<lambda>d. d \<le> xs ! k) ds)"
    by (simp add: xs_def filter_sort)
  finally have "2 * Suc k \<le> 2 * length (filter (\<lambda>d. d \<le> ls_p50 s) ds)" unfolding p50 by (rule mult_le_mono2)
  moreover have "length ds < 2 * Suc k" unfolding k_def len using div_mult_mult2 [of 50 "length ds" 2] by simp
  ultimately show ?thesis by (rule less_imp_le [OF order.strict_trans2, rotated])
qed

lemma unat_ucast_u8_u32: "unat (ucast (b :: u8) :: u32) = unat b"
  using unsigned_less [of b, where ?'a = nat] by (simp add: unsigned_ucast_eq take_bit_nat_eq_self)

text \<open>The compact prefix of a block of at most 512 entries has one or two bytes, and both forms are
  read back.\<close>

lemma stored_count_compact:
  assumes "n < 16384"
  shows "stored_count ((if n < 64 then [of_nat (4 * n)] else [of_nat (4 * n + 1), of_nat (n div 64)]) @ rest) = of_nat n"
proof (cases "n < 64")
  case True
  define b where "b = (of_nat (4 * n) :: u8)"
  have b: "unat b = 4 * n" unfolding b_def unat_of_nat using True by simp
  have "b mod 4 = 0" "unat (ucast (b div 4) :: u32) = n"
    using b True by (simp_all add: word_eq_unat unat_mod unat_div unat_ucast_u8_u32)
  moreover have "unat (of_nat n :: u32) = n" using assms by (simp add: unat_of_nat)
  ultimately have "stored_count (b # rest) = of_nat n" by (simp add: stored_count_def word_eq_unat)
  then show ?thesis using True by (simp add: b_def)
next
  case False
  define b where "b = (of_nat (4 * n + 1) :: u8)"
  define c where "c = (of_nat (n div 64) :: u8)"
  have b: "unat b = (4 * n + 1) mod 256" and c: "unat c = n div 64"
    unfolding b_def c_def unat_of_nat using assms by simp_all
  have m: "(4 * n + 1) mod 256 mod 4 = 1" by (simp add: mod_mod_cancel mod_Suc_eq)
  have b4: "b mod 4 = 1" "b mod 4 \<noteq> 0" using m by (auto simp: word_eq_unat unat_mod b)
  have eq: "(4 * n + 1) mod 256 + 256 * (n div 64) = 4 * n + 1"
  proof -
    have "(4 * n + 1) div 256 = n div 64" by linarith
    then show ?thesis using mod_mult_div_eq [of "4 * n + 1" 256] by simp
  qed
  have "unat (ucast b + 256 * ucast c :: u32) = 4 * n + 1"
    using assms b c eq by (simp add: unat_word_ariths unat_ucast_u8_u32)
  then have "unat ((ucast b + 256 * ucast c :: u32) div 4) = n" by (simp add: unat_div)
  moreover have "unat (of_nat n :: u32) = n" using assms by (simp add: unat_of_nat)
  ultimately have "(ucast b + 256 * ucast c :: u32) div 4 = of_nat n" by (simp add: word_eq_unat)
  with b4 have "stored_count (b # c # rest) = of_nat n" by (simp add: stored_count_def)
  then show ?thesis using False by (simp add: b_def c_def)
qed

text \<open>The renewals counted in a run never exceed the growth of the account's nonce, when the nonce
  does not fall between the blocks that are read.\<close>

fun reads_grow :: "u64 \<Rightarrow> (u64 option \<times> u64 option) list \<Rightarrow> bool" where
  "reads_grow n [] = True"
| "reads_grow n ((a, b) # rest) =
     (let n1 = (case a of Some k \<Rightarrow> k | None \<Rightarrow> n); n2 = (case b of Some k \<Rightarrow> k | None \<Rightarrow> n1)
      in n \<le> n1 \<and> n1 \<le> n2 \<and> reads_grow n2 rest)"

lemma renew_iteration_counts:
  assumes "reads_grow (rr_best_nonce s) (r # rest)" and "unat (rr_total_renewed s) + start \<le> unat (rr_best_nonce s)"
  shows "unat (rr_total_renewed (renew_iteration r s)) + start \<le> unat (rr_best_nonce (renew_iteration r s))
    \<and> reads_grow (rr_best_nonce (renew_iteration r s)) rest"
proof -
  obtain a b where r: "r = (a, b)" by fastforce
  define n1 where "n1 = (case a of Some k \<Rightarrow> k | None \<Rightarrow> rr_best_nonce s)"
  have n1: "rr_best_nonce s \<le> n1" using assms(1) by (simp add: r n1_def Let_def)
  have first: "rr_best_nonce (case a of Some n \<Rightarrow> s\<lparr>rr_best_nonce := n\<rparr> | None \<Rightarrow> s) = n1"
    "rr_total_renewed (case a of Some n \<Rightarrow> s\<lparr>rr_best_nonce := n\<rparr> | None \<Rightarrow> s) = rr_total_renewed s"
    by (simp_all add: n1_def split: option.split)
  show ?thesis
  proof (cases b)
    case None
    then show ?thesis using assms n1 first by (simp add: r renew_iteration_def n1_def word_le_nat_alt Let_def)
  next
    case (Some n2)
    have n2: "n1 \<le> n2" "reads_grow n2 rest" using assms(1) Some by (simp_all add: r n1_def Let_def)
    have inc: "unat (sat_sub n2 n1) = unat n2 - unat n1" by (simp add: unat_sat_sub)
    have "unat (rr_total_renewed s + sat_sub n2 n1) + start \<le> unat n2"
    proof -
      have "unat (rr_total_renewed s) + unat (sat_sub n2 n1) < 2 ^ 64"
        using inc n1 n2(1) assms(2) unat_u64_less [of n2] by (simp add: word_le_nat_alt)
      then have "unat (rr_total_renewed s + sat_sub n2 n1) = unat (rr_total_renewed s) + unat (sat_sub n2 n1)"
        by (simp add: unat_plus_if')
      then show ?thesis using inc n1 n2(1) assms(2) by (simp add: word_le_nat_alt)
    qed
    moreover have "unat (rr_total_renewed s) + start \<le> unat n2" using n1 n2(1) assms(2) by (simp add: word_le_nat_alt)
    ultimately show ?thesis using Some n2(2) first by (simp add: r renew_iteration_def Let_def)
  qed
qed

lemma renew_loop_counts:
  "reads_grow (rr_best_nonce s) reads \<Longrightarrow> unat (rr_total_renewed s) + start \<le> unat (rr_best_nonce s)
   \<Longrightarrow> unat (rr_total_renewed (renew_loop target reads s)) + start \<le> unat (rr_best_nonce (renew_loop target reads s))"
proof (induction target reads s rule: renew_loop.induct)
  case (2 target reads rest s)
  from 2 renew_iteration_counts [OF "2.prems"] show ?case by simp
qed simp

text \<open>What the generator signs is what the runtime reconstructs; with an authorized signer, a clock
  within the tolerance and room in the block the promotion is accepted.\<close>

lemma submit_signing_payload_matches:
  "submit_signing_payload h data ts = signing_payload h (blake2_256 h data) ts"
  by (simp add: submit_signing_payload_def signing_payload_def payload_bytes_def hop_submit_context_def
      HOP_SUBMIT_CONTEXT_def Let_def)

lemma hop_submission_promoted:
  assumes "hop_submit h data recipients pk sign ts = (q, hash)"
    and "\<And>msg. sig_verify hc (1 # sign msg) msg (into_account hc (1 # pk))"
    and "account_has_active_authorization (into_account hc (1 # pk)) s"
    and "data_size_ok cfg (length data)" "\<not> block_transactions_full cfg s"
    and "abs_diff clock ts \<le> SubmitTimestampTolerance hc" and "source \<noteq> External"
  shows "authorize_promote cfg hc h clock source (hq_signer q) (hq_signature q) (hq_timestamp q) (hq_data q) s
    = Inr (promoted_validity h hc hash, (0, 0))"
  using assms
  by (auto simp: hop_submit_def authorize_promote_def submit_signing_payload_matches submitter_multi_signer_def
      submitter_multi_signature_def can_account_promote_def Let_def)

lemma payload_seed_inj: "payload_seed salt sz i = payload_seed salt sz j \<Longrightarrow> i = j"
proof -
  assume "payload_seed salt sz i = payload_seed salt sz j"
  then have "xor (xor i (xor salt (sz * 0x9E3779B97F4A7C15))) (xor salt (sz * 0x9E3779B97F4A7C15))
      = xor (xor j (xor salt (sz * 0x9E3779B97F4A7C15))) (xor salt (sz * 0x9E3779B97F4A7C15))"
    by (simp add: payload_seed_def xor.assoc)
  then show "i = j" by (simp add: xor.assoc)
qed

text \<open>A signature for a claim is not one for a submission: the contexts differ.\<close>

lemma claim_and_submit_apart:
  "HOP_CLAIM_CONTEXT @ hash \<noteq> hop_submit_context @ rest"
  by (simp add: HOP_CLAIM_CONTEXT_def hop_submit_context_def ascii_bytes_def byte_of_char_def)

end
