(* ===== verification/Stress_Properties.thy ===== *)
theory Stress_Properties
  imports Demo Stress_Authorize Stress_Pipeline Stress_Scenarios Stress_Sequential
begin

text \<open>
  The properties of the load generator: the order of authorizations and stores, the bound on
  unconfirmed stores, the composition with the storage pallet, the books of the bulk run and of
  the block monitor, the sequential upload, and the two readers of chain data.
\<close>

section \<open>The pipeline\<close>

text \<open>A run of one account: the generated stream, and the states up to the dispatch of its store.\<close>

definition demo_signer :: "string signer" where
  "demo_signer = \<lparr>sg_from_uri = id, sg_account_id = (\<lambda>k. [of_nat (length k)]), sg_payload = (\<lambda>k n. replicate (unat n) 1),
     sg_blake2b_256 = id, sg_sign = (\<lambda>k p n. Inr p)\<rparr>"

definition demo_env :: batch_env where
  "demo_env i = (None, \<lambda>n. [0..<n])"

definition demo_plans :: "IterationPlan list" where
  "demo_plans = [\<lparr>account_count = 1, derivation_prefix = ''s''\<rparr>]"

definition demo_msg :: StoreWorkMsg where
  "demo_msg = \<lparr>msg_account_id = [5], msg_extrinsic = [1, 1], msg_content_hash = [1, 1]\<rparr>"

definition demo_items :: "StressWorkItem list" where
  "demo_items = [Authorize [[[5]]], AwaitPendingAuth, StoreItem demo_msg]"

lemma demo_env_ok: "env_ok demo_env"
  by (simp add: env_ok_def demo_env_def)

lemma demo_stream: "generate_block_capacity_work demo_signer (Fixed 2) demo_env demo_plans = (demo_items, Inr ())"
proof -
  have w: "work_batches demo_plans = [(0, 0, 1)]"
    by (simp add: work_batches_def demo_plans_def batch_ranges.simps AUTHORIZE_BATCH_SIZE_def sat_add_def min_def word_le_nat_alt
        word_less_nat_alt)
  have k: "keypairs_for_range id (demo_plans ! 0) 0 1 = [''//s/0'']"
    by (simp add: keypairs_for_range_def demo_plans_def u32_range_def keypair_at_derivation_prefix_def
        derivation_uri_def decimal.simps [of 0] char_of_def bit_0)
  show ?thesis
    by (simp add: generate_block_capacity_work_def w sign_batch_def demo_signer_def k demo_env_def
        build_store_work_items_def payload_sizes_def sign_task_def auth_batches_from_keypairs_def
        chunks.simps AUTHORIZE_BATCH_SIZE_def demo_items_def demo_msg_def)
      (simp add: demo_plans_def numeral_2_eq_2 Let_def)
qed


definition demo_stage :: "StressWorkItem list \<Rightarrow> reader \<Rightarrow> u8 list list list option \<Rightarrow> (u8 list list \<times> bool) list \<Rightarrow> pipeline" where
  "demo_stage items r auth attempts = \<lparr>pl_items = items, pl_reader = r, pl_auth = auth, pl_attempted = attempts,
     pl_workers = spawn_store_submit_workers 8, pl_rr = 0, pl_since_txpool = 0, pl_submitted = 0, pl_confirmed = 0,
     pl_dispatched = [], pl_stop = False\<rparr>"

definition demo_dispatched :: pipeline where
  "demo_dispatched = handle_item (StoreItem demo_msg) (demo_stage [] Receiving None [([[5]], True)])"

lemmas demo_stage_defs = demo_stage_def demo_items_def POOL_PENDING_PAUSE_THRESHOLD_def

lemma demo_pipeline_reachable: "pl_reachable demo_items 1 demo_dispatched"
proof -
  let ?i = "\<lambda>k. drop k demo_items" and ?t = "[([[5::u8]], True)]"
  have 0: "pl_init demo_items 1 = demo_stage (?i 0) Checking None []"
    by (simp add: pl_init_def demo_stage_def num_connections_def)
  have check: "pl_step (demo_stage xs Checking a ts) (demo_stage xs Receiving a ts)" for xs a ts
    using checks_passed [of "demo_stage xs Checking a ts"] by (simp add: demo_stage_defs)
  have 1: "pl_step (demo_stage (?i 0) Receiving None []) (demo_stage (?i 1) Checking (Some [[[5]]]) [])"
    using item_received [of "demo_stage (?i 0) Receiving None []"] by (simp add: demo_stage_defs)
  have 2: "pl_step (demo_stage (?i 1) Checking (Some [[[5]]]) []) (demo_stage (?i 1) Checking (Some []) ?t)"
    using auth_batch [of "demo_stage (?i 1) Checking (Some [[[5]]]) []" "[[5]]" "[]" True] by (simp add: demo_stage_defs)
  have 3: "pl_step (demo_stage (?i 1) Receiving (Some []) ?t) (demo_stage (?i 2) Awaiting (Some []) ?t)"
    using item_received [of "demo_stage (?i 1) Receiving (Some []) ?t"] by (simp add: demo_stage_defs)
  have 4: "pl_step (demo_stage (?i 2) Awaiting (Some []) ?t) (demo_stage (?i 2) Checking None ?t)"
    using auth_joined [of "demo_stage (?i 2) Awaiting (Some []) ?t"] by (simp add: demo_stage_defs)
  have 5: "pl_step (demo_stage (?i 2) Receiving None ?t) demo_dispatched"
    using item_received [of "demo_stage (?i 2) Receiving None ?t"] by (simp add: demo_stage_defs demo_dispatched_def)
  from check 1 2 check 3 4 check 5 show ?thesis
    unfolding pl_reachable_def 0 by (meson converse_rtranclp_into_rtranclp rtranclp.rtrancl_refl)
qed

lemma demo_dispatched_sel:
  "pl_dispatched demo_dispatched = [demo_msg]" "pl_submitted demo_dispatched = 0" "pl_confirmed demo_dispatched = 0"
  by (simp_all add: demo_dispatched_def demo_stage_def dispatch_store_to_workers_def spawn_store_submit_workers_def
      numeral_nat per_worker_cap_def sent_def)



text \<open>C36. Backpressure: the number of submitted stores never exceeds the number of confirmed ones by
  more than twice the pause threshold of 4000 and three stores for each worker, two in its channel and
  one in its hands.\<close>

theorem backlog_bounded:
  assumes "env_ok env" and "fst (generate_block_capacity_work sg mode env plans) = items @ unsent"
    and "pl_reachable items submitters s"
  shows "pl_submitted s + inflight s \<le> pl_confirmed s + 8000 + 3 * max submitters 8"
proof -
  have "stream_ok {} None items"
    using generated_stream_ok [OF assms(1), of "{}" sg mode plans] assms(2) by (auto intro: stream_ok_prefix)
  from pl_reachable_inv(2,3) [OF assms(3) this] show ?thesis
    by (auto simp: depth_inv_def POOL_PENDING_PAUSE_THRESHOLD_def num_connections_def max_def split: if_splits)
qed

theorem backlog_bounded_witness: "inflight demo_dispatched \<le> 8024"
  using backlog_bounded [OF demo_env_ok _ demo_pipeline_reachable, of demo_signer "Fixed 2" demo_plans "[]"]
  by (simp add: demo_stream demo_dispatched_sel)
section \<open>The generator on the chain\<close>



definition demo_unlimited :: rts where
  "demo_unlimited = demo_state\<lparr>AllowedAuthorizers := [[9] \<mapsto> demo_budget\<lparr>ab_quota := None\<rparr>]\<rparr>"

lemma demo_unlimited_sel [simp]:
  "AllowedAuthorizers demo_unlimited = [[9] \<mapsto> demo_budget\<lparr>ab_quota := None\<rparr>]" "Authorizations demo_unlimited = [Account [1] \<mapsto> demo_grant]"
  by (simp_all add: demo_unlimited_def)





section \<open>The bulk run\<close>

text \<open>Two items; the first is taken, rejected by a full pool, and taken again.\<close>

definition demo_tracker :: NonceTracker where
  "demo_tracker = \<lparr>nonces = [[1] \<mapsto> 7]\<rparr>"

definition demo_bulk_items :: "work_item list" where
  "demo_bulk_items = [([1], [10]), ([2], [20])]"

definition demo_bulk_stage :: "work_item list \<Rightarrow> submitter_phase \<Rightarrow> NonceTracker \<Rightarrow> (work_item \<times> u64) list \<Rightarrow> nat \<Rightarrow> bulk" where
  "demo_bulk_stage q ph t sgn_log retries = (bulk_init demo_bulk_items 1 None demo_tracker)\<lparr>bk_queue := q,
     bk_submitters := [\<lparr>su_phase = ph, su_empty_polls = 0, su_conn_errors = 0\<rparr>], bk_tracker := t,
     bk_signed := sgn_log, bk_pool_full_retries := retries, bk_saturated := True\<rparr>"

definition demo_retried :: bulk where
  "demo_retried = demo_bulk_stage [([2], [20])] (Submitting ([1], [10]) 7) \<lparr>nonces = [[1] \<mapsto> 8]\<rparr>
     [(([1], [10]), 7), (([1], [10]), 7)] 1"

lemma demo_retried_reachable: "bulk_reachable demo_bulk_items 1 None demo_tracker demo_retried"
proof -
  let ?t = "\<lparr>nonces = [[1] \<mapsto> 8]\<rparr> :: NonceTracker" and ?x = "(([1], [10]), 7) :: work_item \<times> u64"
  let ?r = "[([2], [20])] :: work_item list"
  have 0: "bulk_init demo_bulk_items 1 None demo_tracker = demo_bulk_stage demo_bulk_items AtTop demo_tracker [] 0"
    by (simp add: bulk_init_def demo_bulk_stage_def demo_bulk_items_def num_submitters_def)
  have go: "bulk_step None (demo_bulk_stage q AtTop t g k) (demo_bulk_stage q AtQueue t g k)" for q t g k
    using loop_go [of 0 "demo_bulk_stage q AtTop t g k" None]
    by (simp add: demo_bulk_stage_def set_submitter_def bulk_init_def)
  have pop: "bulk_step None (demo_bulk_stage demo_bulk_items AtQueue demo_tracker g k)
      (demo_bulk_stage ?r (Submitting ([1], [10]) 7) ?t (g @ [?x]) k)" for g k
    using bulk_step.pop [of 0 "demo_bulk_stage demo_bulk_items AtQueue demo_tracker g k" "([1], [10])" ?r 7 ?t None]
    by (simp add: demo_bulk_stage_def set_submitter_def bulk_init_def demo_bulk_items_def demo_tracker_def next_nonce_def)
  have full: "classify_tx_error ''1016'' = PoolFull"
    by (simp add: classify_tx_error_def to_lowercase_def Let_def)
  have "bulk_step None (demo_bulk_stage ?r (Submitting ([1], [10]) 7) ?t [?x] 0)
      (demo_bulk_stage demo_bulk_items AtTop demo_tracker [?x] 1)"
    using rejected [of 0 "demo_bulk_stage ?r (Submitting ([1], [10]) 7) ?t [?x] 0" "([1], [10])" 7 None "''1016''" False]
    by (simp add: full demo_bulk_stage_def set_submitter_def bulk_init_def requeue_def rollback_def demo_bulk_items_def
        demo_tracker_def sat_sub_def word_le_nat_alt)
  with go pop [of "[]" 0] pop [of "[?x]" 1] show ?thesis
    unfolding bulk_reachable_def 0 demo_retried_def append_Cons append_Nil
    by (meson converse_rtranclp_into_rtranclp rtranclp.rtrancl_refl)
qed

text \<open>C33. The books of a bulk run: in every reachable state each work item is in exactly one place,
  in the queue, in the hands of one submitter, or in one of the logs of submitted, skipped and
  abandoned items; and when the items have accounts of their own, every transaction ever signed for
  an account carries the nonce the tracker started with, through any number of rejections and
  retries.\<close>

theorem bulk_accounting:
  assumes "bulk_reachable items submitters target tracker s" and "distinct (map fst items)"
    and "\<forall>it \<in> set items. current_nonce tracker (fst it) \<noteq> - 1"
  shows "mset items = mset (bk_queue s) + (\<Sum>u\<leftarrow>bk_submitters s. held u) + mset (bk_submitted s)
       + image_mset fst (mset (bk_skipped s)) + mset (bk_abandoned s)
    \<and> (\<forall>(it, n) \<in> set (bk_signed s). n = current_nonce tracker (fst it))"
  using all_items_reachable [OF assms(1)] nonce_inv_reachable [OF assms(1,2)] assms(3)
  by (simp add: all_items_def nonce_inv_def)

theorem bulk_accounting_witness:
  "bk_signed demo_retried = [(([1], [10]), 7), (([1], [10]), 7)] \<and> current_nonce demo_tracker [1] = 7
   \<and> mset demo_bulk_items = mset (bk_queue demo_retried) + (\<Sum>u\<leftarrow>bk_submitters demo_retried. held u)"
proof -
  have sel: "bk_signed demo_retried = [(([1], [10]), 7), (([1], [10]), 7)]" "bk_submitted demo_retried = []"
      "bk_skipped demo_retried = []" "bk_abandoned demo_retried = []"
    by (simp_all add: demo_retried_def demo_bulk_stage_def bulk_init_def)
  have "distinct (map fst demo_bulk_items)" "\<forall>it \<in> set demo_bulk_items. current_nonce demo_tracker (fst it) \<noteq> - 1"
    by (simp_all add: demo_bulk_items_def current_nonce_def demo_tracker_def)
  from bulk_accounting [OF demo_retried_reachable this] show ?thesis by (simp add: sel)
qed
section \<open>The block monitor\<close>




section \<open>The sequential upload\<close>

definition demo_limits :: ChainLimits where
  "demo_limits = \<lparr>max_normal_weight = 100, extrinsic_base_weight = 0, normal_block_length = 1000, max_block_transactions = 512,
     max_transaction_size = 100, store_weight_base = 10, store_weight_per_byte = 1, extrinsic_length_overhead = 5\<rparr>"

lemma demo_limits_sane: "limits_sane demo_limits [[0, 0]]" "0 < tx_weight demo_limits [0, 0]" "0 < tx_length demo_limits [0, 0]"
  by (simp_all add: limits_sane_def demo_limits_def tx_weight_def tx_length_def)

text \<open>C38. The greedy packing of a wave is the closed formula: for payloads of one size, a wave of
  the sequential upload has as many transactions as \<open>estimate_block_capacity\<close> computes from the
  weight, the length and the count limit of a block, or all that are left.\<close>

theorem wave_is_block_capacity:
  assumes "limits_sane l [p]" and "0 < tx_weight l p" and "0 < tx_length l p" and "i \<le> n"
    and "estimate_block_capacity l (of_nat (length p)) = Some c"
  shows "compute_batch_end (replicate n p) i l = i + min (n - i) (unat c)"
proof -
  have "i \<le> compute_batch_end (replicate n p) i l" using batch_end_range [of i "replicate n p" l] assms(4) by simp
  from le_add_diff_inverse [OF this] batch_end_is_capacity [OF assms] show ?thesis by simp
qed

theorem wave_is_block_capacity_witness: "compute_batch_end (replicate 20 [0, 0]) 3 demo_limits = 11"
proof -
  have "estimate_block_capacity demo_limits (of_nat (length [0 :: u8, 0])) = Some 8"
    by (simp add: estimate_block_capacity_def compute_theoretical_limits_def demo_limits_def weight_per_tx_def
        length_per_tx_def Let_def min_def word_le_nat_alt u32_to_u64_def)
  from wave_is_block_capacity [OF demo_limits_sane _ this, of 3 20] show ?thesis by simp
qed




section \<open>Submission\<close>



section \<open>Reading the chain\<close>

text \<open>C34. The generator reads back what the pallet writes: for a list of records as the chain encodes
  it under the key of a block, \<open>decode_transaction_infos\<close> returns exactly one item for each record,
  in order, with its sizes and hashes and with the CID that the chain assigns to it. The compact
  integer codec is a parameter with its inverse law.\<close>

theorem discovery_roundtrip:
  assumes "compact_spec enc dec" and "multihash_wrap_spec h" and "\<forall>e \<in> set es. hashes_32 e" and "length es < 2 ^ 64"
  shows "decode_transaction_infos h dec (enc (of_nat (length es)) @ concat (map encode_transaction_info es)) number
      = map (discovered number) es
    \<and> (\<forall>e \<in> set es. cid_try_from h \<lparr>cd_content_hash = ti_content_hash e, cd_hashing = ti_hashing e, cd_codec = ti_cid_codec e\<rparr>
        = Inr (di_cid (discovered number e)))"
proof
  have "unat (of_nat (length es) :: u64) = length es" using assms(4) by (intro unat_of_nat_u64) simp
  then show "decode_transaction_infos h dec (enc (of_nat (length es)) @ concat (map encode_transaction_info es)) number
      = map (discovered number) es"
    using assms(1) decode_items_inverse [OF assms(2), of es number "[]"] assms(3)
    by (simp add: decode_transaction_infos_def compact_spec_def)
  show "\<forall>e \<in> set es. cid_try_from h \<lparr>cd_content_hash = ti_content_hash e, cd_hashing = ti_hashing e, cd_codec = ti_cid_codec e\<rparr>
        = Inr (di_cid (discovered number e))"
    using assms(2,3) by (simp add: cid_try_from_def multihash_wrap_spec_def hashes_32_def discovered_def)
qed

theorem discovery_roundtrip_witness:
  "decode_transaction_infos demo_host (decode_le 8) (le_bytes 8 (1 :: u64) @ encode_transaction_info demo_entry) 3
     = [discovered 3 demo_entry]"
proof -
  have "compact_spec (le_bytes 8) (decode_le 8)" by (simp add: compact_spec_def)
  moreover have "hashes_32 demo_entry" by (simp add: hashes_32_def demo_entry_def)
  ultimately show ?thesis
    using discovery_roundtrip [of "le_bytes 8" "decode_le 8" demo_host "[demo_entry]" 3] demo_multihash_wrap by simp
qed



end
