(* ===== verification/Spec2Isabelle.thy ===== *)
theory Spec2Isabelle
  imports Storage_Properties Renewal_Properties Runtime_Properties Sdk_Properties Stress_Properties
begin

text \<open>
  The Bulletin chain: a parachain that stores blobs for a limited time, the client library that
  feeds it and the load generator that measures it. This development models the pallets, their
  wiring in the two runtimes, the Rust client library and the logic of the load generator, and
  proves what makes them correct.

  \<^bold>\<open>The program.\<close> The storage pallet (\<open>pallets/transaction-storage\<close>) accepts blobs from
  holders of an authorization, keeps for each block the list of stored entries with running chunk
  counts, demands once per block a proof that a random chunk of the block at the distance of the
  retention period is still held, and forgets blocks that are older. The renewal pallet
  (\<open>pallets/data-renewal\<close>) lets holders store an entry again before it is forgotten, at once or
  when it expires, within a cap per authorization and one for the chain; it is called back by the
  storage pallet's sweep. The promotion pallet (\<open>pallets/hop-promotion\<close>) stores blobs that a
  collator submits with the owner's signature. A transaction extension
  (\<open>extension.rs\<close> of the two pallets) checks and charges signed calls and walks through wrapper
  calls; another gives stores within their allowance a priority boost. The runtimes
  (\<open>runtimes/bulletin-westend\<close>, \<open>runtimes/bulletin-paseo\<close>) fix the constants, who may
  authorize, and the XCM call filter. The client library (\<open>sdk/rust\<close>) cuts files into chunks,
  builds manifests, estimates and checks authorizations, tracks expiry and submits transactions.
  The load generator (\<open>stress-test\<close>) authorizes accounts of its own, fills blocks with stores
  from them through concurrent tasks, watches the blocks, and reads the data back over Bitswap.

  \<^bold>\<open>Shared theories.\<close> \<open>Prelude\<close> has the machine integers, saturating arithmetic, results,
  bounded vectors, slices and little-endian bytes. \<open>Slice_Search\<close> is the binary search of the
  standard library with its contract as the locale \<open>key_search\<close>. \<open>Frame_Interface\<close> holds what the
  sources use of other crates: data as datatypes, functions (hashes, the trie verifier, chunk
  selection, CID serialisation, transaction validity) as the record \<open>host\<close>, a parameter of every
  definition that needs one, with documented behaviour as the predicates \<open>*_spec\<close>, all met by the
  instance \<open>demo_host\<close>. \<open>Demo\<close> has the concrete configurations and states of the
  applications that follow each property.

  \<^bold>\<open>Storage pallet.\<close> \<open>Cids\<close> and \<open>Primitives\<close> are \<open>primitives/src/cids.rs\<close> and
  \<open>primitives/src/lib.rs\<close>; \<open>Storage_Types\<close> is \<open>src/types.rs\<close>. The state is the record \<open>ts\<close>, one
  field for each storage item, beside the block number, the extrinsic index and the parent hash of
  \<open>frame_system\<close> and the calls made to the host; the configuration trait is the record \<open>config\<close>. Over
  them, from \<open>src/lib.rs\<close>: \<open>Storage_State\<close> (lookups, the block accumulator, \<open>do_store\<close>),
  \<open>Storage_Proof\<close> (\<open>verify_chunk_proof\<close>, \<open>do_check_proof\<close>), \<open>Storage_Auth\<close> (grants, authorizers,
  their budgets), \<open>Storage_Calls\<close> (dispatch, validation, pre-dispatch), \<open>Storage_Hooks\<close>
  (\<open>on_initialize\<close>, \<open>on_finalize\<close>, genesis, the integrity test, \<open>do_try_state\<close>). A fallible operation returns
  \<open>Error + state\<close>; one that fails returns no state, as FRAME rolls back. \<open>Storage_Blocks\<close>,
  \<open>Storage_Invariant\<close> and \<open>Auth_Predicate\<close> hold the lemmas: the effect of each operation on every
  branch, the locales \<open>storage_changes\<close> and \<open>storage_invariant\<close> (a predicate kept by the elementary
  changes is kept by every call, check and inherent) with their interpretations, and a locale for
  predicates on single authorizations.

  \<^bold>\<open>Renewal pallet.\<close> \<open>Renewal\<close> (state \<open>rn\<close>, operations, hooks), \<open>Renewal_Calls\<close> (dispatch and
  checks), \<open>Renewal_Invariant\<close> (caps, queue). \<open>Ledger\<close> proves that the counter of renewed bytes is
  exact, along chains of whole transactions. \<open>Extension\<close> has the two transaction extensions, with the
  contracts \<open>leaf_validator\<close> and \<open>boost_strategy\<close>; \<open>Hop\<close> the promotion pallet;
  \<open>Migrations\<close> all storage migrations; \<open>Runtime\<close> the wiring of both runtimes; \<open>Weights\<close> the checks
  of the block budget with the benchmarked weights of both runtimes.

  \<^bold>\<open>The chain.\<close> \<open>Chain\<close> composes the pallets into a step relation: open a block, set the extrinsic
  context, check, dispatch, finalise. Any calls with any origins may occur in a block, in any order.
  Its refinement \<open>tx_step\<close> in \<open>Ledger\<close> runs the check and the dispatch of a renewal call as one
  transaction, as the executive does, and leaves out the two calls of Root that bypass the counter.

  \<^bold>\<open>Client library.\<close> \<open>Sdk_Types\<close>, \<open>Sdk_Chunker\<close> (the trait as the locale \<open>chunker\<close>), \<open>Sdk_Dag\<close>
  (with a reader of the manifest format as the reference), \<open>Sdk_Client\<close> and \<open>Sdk_Transaction\<close>
  model \<open>sdk/rust/src\<close>, file by file.

  \<^bold>\<open>Load generator.\<close> Over \<open>stress-test/src\<close>: \<open>Stress_Accounts\<close> (\<open>accounts.rs\<close>: the nonce tracker,
  derivation paths; the classification of error messages), \<open>Stress_Authorize\<close> (\<open>authorize.rs\<close>, on a
  node with a state of its own), \<open>Stress_Plan\<close> and \<open>Stress_Pipeline\<close> (\<open>pipeline.rs\<close>: payload mixes,
  plans, the generator; reader, authorization task and workers as the step relation \<open>pl_step\<close>),
  \<open>Stress_Monitor\<close> (the block monitor as a function on events), \<open>Stress_Submit\<close> (the retry loop of a
  worker; \<open>bulk_store_oneshot\<close> of \<open>store.rs\<close> as the step relation \<open>bulk_step\<close>), \<open>Stress_Sequential\<close>
  (\<open>sequential_nonce_upload\<close>, and the capacity formulas of \<open>chain_info.rs\<close>), \<open>Stress_Discovery\<close> (decoding of
  stored records), \<open>Stress_Bitswap\<close> (\<open>bitswap.rs\<close>), \<open>Stress_Scenarios\<close> (payload tables, figures,
  renewal waves, HOP signatures). Tasks interleave in the step relations as they do under the
  executor; what nodes and peers answer is data, any answer being allowed.

  \<^bold>\<open>What is shown.\<close> Below: in every state that is reachable from a sound genesis, stored data is
  retained and findable, the proof challenge is well defined, the try-state check holds, the
  caps on renewed bytes hold and provider references balance. \<open>Storage_Properties\<close>: outcomes of
  storing, proving, granting, spending budgets, checking, sweeping and sealing.
  \<open>Renewal_Properties\<close>: the caps are exact, who is charged gets a registration, what was paid
  for is renewed, the drain never fails, the books balance. \<open>Runtime_Properties\<close>: nesting, call filter, end-to-end
  stores, priorities, promotions, migrations, origins, constants, block budgets. \<open>Sdk_Properties\<close>: round trips of
  chunks and manifests, agreement of the client with the chain, receipts. \<open>Stress_Properties\<close>: order
  of authorizations and stores, bounds on what is in flight, agreement of the grants with the
  storage pallet, the books of a run, alignment of nonces and payloads, reading back of records.

  \<^bold>\<open>Bounds.\<close> Integers have the width of the source; saturation and wrap-around are written out.
  Every loop is a structural recursion or a function with a termination proof, so there is no fuel;
  the multi-block migration takes the number of steps that the weight meter allows, and is shown to
  finish when that number exceeds the number of stored keys. The chunk counts of a block do not
  wrap as long as a block of maximal blobs has fewer than \<open>2 ^ 32\<close> chunks, which holds for both
  runtimes. The counter of renewed bytes is exact when its cap is below \<open>u64::MAX\<close> and a content hash
  determines the length of its blob. In the load generator counters that only grow by one for each event are natural numbers where
  the code has 64 bits, and floating-point figures are rationals. Block numbers are assumed not to reach \<open>2 ^ 32 - 1\<close>: opening a block requires it.

  \<^bold>\<open>Not modelled.\<close> Weights that no modelled code reads; how FRAME builds the limits of a block from
  the ratios of a runtime; benchmarks, mocks and tests;
  try-runtime hooks of the migrations; the genesis presets, which are data; pallets of the Polkadot
  SDK that the runtimes only configure; event and metadata encodings, except where migrations or the
  client decode bytes; the network side of the client (connection, nonces, signatures); the
  sockets, timers, logging, metrics and command line of the load generator and the drivers of its
  scenarios; the TypeScript library and the network tests.
\<close>

section \<open>Reachable chains\<close>

lemma reachable_retention:
  assumes "wired cfg h" and "genesis_ok g" and "reachable cfg rc h g c"
  shows "RetentionPeriod (fst (snd c)) = gc_retention_period g"
  using assms(3) unfolding reachable_def
proof (induction rule: rtranclp_induct)
  case base
  have "RetentionPeriod (genesis_build cfg g empty_ts) = gc_retention_period g"
    by (rule genesis_build_keeps [where I = "\<lambda>s. RetentionPeriod s = gc_retention_period g"])
      (auto simp: genesis_defs Let_def intro: fold_keeps [where I = "\<lambda>s. RetentionPeriod s = gc_retention_period g"] split: prod.splits)
  then show ?case by (simp add: genesis_def)
next
  case (step c c')
  obtain opn s r opn' s' r' where c: "c = (opn, s, r)" "c' = (opn', s', r')" by (metis prod_cases3)
  have "chain_inv cfg rc h c"
    using reachable_inv [OF assms(1,2)] step.hyps(1) unfolding reachable_def by blast
  with step_history(1) [OF assms(1)] step show ?case by (simp add: c)
qed

lemma reachable_parts:
  assumes "wired cfg h" and "genesis_ok g" and "reachable cfg rc h g (opn, s, r)"
  shows "storage_inv cfg h opn s" "caps_ok s" "providers_balanced s" "all_auth permanent_within s"
    "all_auth (expiry_bounded cfg) s" "used_ok rc r" "pending_ok cfg r" "\<not> opn \<Longrightarrow> PendingRenewals r = []"
  using reachable_inv [OF assms] by (simp_all add: chain_inv_def)

text \<open>C10. From a sound genesis with a positive retention period, whatever calls and checks the blocks
  contain, the storage pallet's try-state check holds in every reachable state: the retention
  period is positive, the stored chunk counts are consistent, no block outside the retention
  window is stored, and every authorization has a positive byte allowance.\<close>

theorem reachable_try_state:
  assumes "wired cfg h" and "genesis_ok g" and "gc_retention_period g \<noteq> 0"
    and "reachable cfg rc h g (opn, s, r)"
  shows "do_try_state h (block_number s) s"
  using storage_inv_try_state [OF reachable_parts(1,2) [OF assms(1,2,4)]]
    reachable_retention [OF assms(1,2,4)] assms(3) by (simp add: now_def)

theorem reachable_try_state_witness:
  "reachable demo_cfg demo_rc demo_host demo_genesis (False, demo_s4, empty_rn) \<and> do_try_state demo_host 1 demo_s4"
  using reachable_try_state [OF demo_wired demo_genesis_ok _ demo_reachable] demo_reachable
  by (simp add: demo_genesis_def)



text \<open>C12. In every reachable state the provider references the pallet holds are exactly accounted for:
  for each account it has increased the count once more than it has decreased it for its
  authorization and once more for its place among the authorizers, so that it neither leaks
  references nor releases one it does not hold. No authorization expires later than one
  authorization period from now.\<close>

theorem reachable_providers:
  assumes "wired cfg h" and "genesis_ok g" and "reachable cfg rc h g (opn, s, r)"
  shows "count_list (host_calls s) (HcIncProviders who) = count_list (host_calls s) (HcDecProviders who)
      + (if Authorizations s (Account who) \<noteq> None then 1 else 0) + (if AllowedAuthorizers s who \<noteq> None then 1 else 0)
    \<and> (\<forall>sc a. Authorizations s sc = Some a \<longrightarrow> au_expiration a \<le> sat_add (block_number s) (AuthorizationPeriod cfg))"
  using reachable_parts(3,5) [OF assms]
  by (auto simp: providers_balanced_def entries_of_def all_auth_def expiry_bounded_def now_def)

theorem reachable_providers_witness:
  "count_list (host_calls demo_s4) (HcIncProviders [1]) = count_list (host_calls demo_s4) (HcDecProviders [1])
     + 1 + (if AllowedAuthorizers demo_s4 [1] \<noteq> None then 1 else 0)"
  using reachable_providers [OF demo_wired demo_genesis_ok demo_reachable, of "[1]"] by simp

text \<open>C1. Stored data is retained: what a reachable state stores for a block stays readable, unchanged,
  in every later state until the chain is more than the retention period past that block.\<close>

theorem retention:
  assumes "wired cfg h" and "genesis_ok g" and "reachable cfg rc h g (opn, s, r)"
    and "tx_get s b = Some txs" and "(step cfg rc h)\<^sup>*\<^sup>* (opn, s, r) (opn', s', r')"
    and "unat (block_number s') \<le> unat b + unat (gc_retention_period g)"
  shows "tx_get s' b = Some txs"
  using retained_steps [OF assms(1,5) reachable_inv [OF assms(1-3)] assms(4)]
    reachable_retention [OF assms(1-3)] assms(6) by simp

theorem retention_witness:
  "tx_get demo_s4 1 = Some [demo_entry]"
  using retention [OF demo_wired demo_genesis_ok demo_reachable _ rtranclp.rtrancl_refl, of 1 "[demo_entry]"]
  by (simp add: tx_get_def demo_genesis_def)

text \<open>C8. Between blocks, the content index is exact: every stored entry can be renewed by its content
  hash, and a lookup by content hash that finds a position finds an entry with that content.\<close>

theorem content_index_exact:
  assumes "wired cfg h" and "genesis_ok g" and "reachable cfg rc h g (False, s, r)"
  shows "(\<forall>b txs t. tx_get s b = Some txs \<and> t \<in> set txs \<longrightarrow>
      (\<exists>info. resolve_transaction_ref s (ByContentHash (ti_content_hash t)) = Inr info
        \<and> ti_content_hash info = ti_content_hash t))
    \<and> (\<forall>c b i. lookup_by_content_hash s c = Some (b, i) \<longrightarrow>
        (\<exists>info. transaction_info s b i = Some info \<and> ti_content_hash info = c))"
proof (intro conjI allI impI)
  note inv = reachable_parts(1) [OF assms]
  show "\<exists>info. resolve_transaction_ref s (ByContentHash (ti_content_hash t)) = Inr info
      \<and> ti_content_hash info = ti_content_hash t" if "tx_get s b = Some txs \<and> t \<in> set txs" for b txs t
    using stored_resolves [OF inv] that by blast
  show "\<exists>info. transaction_info s b i = Some info \<and> ti_content_hash info = c"
    if "lookup_by_content_hash s c = Some (b, i)" for c b i
    using indexed_entry [OF inv] that by (simp add: lookup_by_content_hash_def)
qed

theorem content_index_exact_witness:
  "\<exists>info. resolve_transaction_ref demo_s4 (ByContentHash (ti_content_hash demo_entry)) = Inr info
     \<and> ti_content_hash info = ti_content_hash demo_entry"
  using content_index_exact [OF demo_wired demo_genesis_ok demo_reachable, THEN conjunct1, rule_format,
      of 1 "[demo_entry]" demo_entry] by (simp add: tx_get_def)



end
